(* ===== verification/Prelude.thy ===== *)
theory Prelude
  imports Main "HOL-Library.Word" "HOL-Library.Char_ord" "HOL-Library.List_Lexorder"
begin

text \<open>
  What the components share: the ways a C or C++ operation can fail and the result type
  that carries the failure, NUL-terminated strings, \<open>std::map\<close> as an association list
  kept in key order together with the interface its clients rely on, reachable states of
  a step relation, and the reference counters that guard a start/stop pair.
\<close>

section \<open>Automation\<close>

named_theorems res_simps \<open>elimination of binds on results\<close>
named_theorems inv_intros \<open>every operation keeps the invariant of its component\<close>

section \<open>Machine integers and bytes\<close>

type_synonym u8 = "8 word"
type_synonym u32 = "32 word"
type_synonym i32 = "32 word"
type_synonym byte = char

section \<open>Failures as values\<close>

text \<open>
  \<open>Assertion_Failed\<close> is a false \<open>assert\<close> (jsoncpp's \<open>JSON_ASSERT\<close>), \<open>Runtime_Error\<close> a
  thrown \<open>std::runtime_error\<close> or \<open>std::exception\<close>; the other three are accesses for which
  C++ gives no meaning: a null pointer, an object already deleted, and an index outside its
  array.
\<close>

datatype fault =
    Assertion_Failed
  | Runtime_Error string
  | Null_Pointer
  | Dangling_Pointer
  | Out_Of_Range

type_synonym 'a result = "fault + 'a"

definition rbind :: "'a result \<Rightarrow> ('a \<Rightarrow> 'b result) \<Rightarrow> 'b result" where
  "rbind r f = (case r of Inl e \<Rightarrow> Inl e | Inr x \<Rightarrow> f x)"

lemma rbind_simps [simp]:
  "rbind (Inl e) f = Inl e"
  "rbind (Inr x) f = f x"
  by (simp_all add: rbind_def)

lemma rbind_Inr_iff [res_simps]: "rbind r f = Inr y \<longleftrightarrow> (\<exists>x. r = Inr x \<and> f x = Inr y)"
  by (cases r) auto

lemma rbind_Inl_iff [res_simps]:
  "rbind r f = Inl e \<longleftrightarrow> r = Inl e \<or> (\<exists>x. r = Inr x \<and> f x = Inl e)"
  by (cases r) auto

lemma rbind_assoc: "rbind (rbind r f) g = rbind r (\<lambda>x. rbind (f x) g)"
  by (cases r) auto

section \<open>NUL-terminated strings\<close>

abbreviation NUL :: char where
  "NUL \<equiv> CHR 0x00"

text \<open>What a reader of \<open>s.c_str()\<close> sees: the bytes before the first NUL.\<close>

definition c_str :: "string \<Rightarrow> string" where
  "c_str s = takeWhile (\<lambda>c. c \<noteq> NUL) s"

definition nul_free :: "string \<Rightarrow> bool" where
  "nul_free s \<longleftrightarrow> NUL \<notin> set s"

lemma nul_free_c_str [simp, intro]: "nul_free (c_str s)"
  unfolding nul_free_def c_str_def by (metis (mono_tags, lifting) set_takeWhileD)

lemma c_str_id [simp]: "nul_free s \<Longrightarrow> c_str s = s"
  unfolding nul_free_def c_str_def by (induction s) auto

lemma c_str_c_str [simp]: "c_str (c_str s) = c_str s"
  by simp

lemma nul_free_simps [simp]:
  "nul_free []"
  "nul_free (c # s) \<longleftrightarrow> c \<noteq> NUL \<and> nul_free s"
  "nul_free (s @ t) \<longleftrightarrow> nul_free s \<and> nul_free t"
  by (auto simp: nul_free_def)

section \<open>std::map\<close>

text \<open>
  A \<open>std::map\<close> is the list of its entries in iteration order: keys strictly increasing.
  \<open>std::map::find\<close> is \<^const>\<open>map_of\<close>; \<open>map_put\<close> is \<open>lower_bound\<close> followed by
  overwriting the entry found there or inserting before it; \<open>map_erase\<close> is \<open>erase\<close> by key.
\<close>

fun map_put :: "'k::linorder \<Rightarrow> 'v \<Rightarrow> ('k \<times> 'v) list \<Rightarrow> ('k \<times> 'v) list" where
  "map_put k v [] = [(k, v)]"
| "map_put k v (e # m) =
     (if fst e < k then e # map_put k v m
      else if fst e = k then (k, v) # m
      else (k, v) # e # m)"

fun map_erase :: "'k \<Rightarrow> ('k \<times> 'v) list \<Rightarrow> ('k \<times> 'v) list" where
  "map_erase k [] = []"
| "map_erase k (e # m) = (if fst e = k then m else e # map_erase k m)"

definition map_ok :: "('k::linorder \<times> 'v) list \<Rightarrow> bool" where
  "map_ok m \<longleftrightarrow> sorted_wrt (<) (map fst m)"

lemma map_ok_simps [simp]:
  "map_ok []"
  "map_ok (e # m) \<longleftrightarrow> (\<forall>e' \<in> set m. fst e < fst e') \<and> map_ok m"
  by (auto simp: map_ok_def)

lemma set_map_put: "set (map_put k v m) \<subseteq> insert (k, v) (set m)"
  by (induction m) auto

lemma keys_map_put [simp]: "fst ` set (map_put k v m) = insert k (fst ` set m)"
  by (induction m) auto

lemma map_ok_put [simp, inv_intros]: "map_ok m \<Longrightarrow> map_ok (map_put k v m)"
proof (induction m)
  case Nil
  then show ?case by simp
next
  case (Cons e m)
  show ?case
  proof (cases "fst e < k")
    case True
    have "\<forall>e' \<in> set (map_put k v m). fst e < fst e'"
      using True Cons.prems set_map_put [of k v m] by auto
    with True Cons show ?thesis by simp
  next
    case False
    with Cons.prems show ?thesis by fastforce
  qed
qed

lemma map_of_put [simp]: "map_of (map_put k v m) k' = (if k' = k then Some v else map_of m k')"
  if "map_ok m"
  using that
proof (induction m)
  case Nil
  then show ?case by simp
next
  case (Cons e m)
  obtain a b where e: "e = (a, b)" by (cases e)
  show ?case
  proof (cases "a < k")
    case True
    with Cons e show ?thesis by auto
  next
    case False
    then show ?thesis using Cons.prems e by auto
  qed
qed

lemma set_map_erase: "set (map_erase k m) \<subseteq> set m"
  by (induction m) auto

lemma map_ok_erase [simp, inv_intros]: "map_ok m \<Longrightarrow> map_ok (map_erase k m)"
proof (induction m)
  case Nil
  then show ?case by simp
next
  case (Cons e m)
  then show ?case using set_map_erase [of k m] by auto
qed

lemma map_of_absent: "\<forall>e \<in> set m. k < fst e \<Longrightarrow> map_of m k = None"
  for k :: "'k::linorder"
  by (induction m) auto

lemma map_of_erase [simp]: "map_of (map_erase k m) k' = (if k' = k then None else map_of m k')"
  if "map_ok m"
  using that
proof (induction m)
  case Nil
  then show ?case by simp
next
  case (Cons e m)
  obtain a b where e: "e = (a, b)" by (cases e)
  show ?case
  proof (cases "a = k")
    case True
    with Cons.prems e have "map_of m k = None" by (intro map_of_absent) simp
    with True e show ?thesis by auto
  next
    case False
    with Cons e show ?thesis by auto
  qed
qed

lemma map_ok_distinct: "map_ok m \<Longrightarrow> distinct (map fst m)"
  by (induction m) auto

lemma map_ok_lookup: "map_ok m \<Longrightarrow> (k, v) \<in> set m \<Longrightarrow> map_of m k = Some v"
  by (simp add: map_ok_distinct)

text \<open>An entry put at a key above every other one goes to the end.\<close>

lemma map_put_append: "\<forall>e \<in> set m. fst e < k \<Longrightarrow> map_put k v m = m @ [(k, v)]"
  by (induction m) auto

lemma map_put_idem [simp]: "map_ok m \<Longrightarrow> map_of m k = Some v \<Longrightarrow> map_put k v m = m"
proof (induction m)
  case Nil
  then show ?case by simp
next
  case (Cons e m)
  obtain a b where e: "e = (a, b)" by (cases e)
  show ?case
  proof (cases "a = k")
    case True
    with Cons.prems e show ?thesis by simp
  next
    case False
    with Cons.prems e have k: "map_of m k = Some v" by simp
    then have "(k, v) \<in> set m" by (rule map_of_SomeD)
    with Cons.prems e have "a < k" by auto
    with Cons e k show ?thesis by simp
  qed
qed

subsection \<open>The interface\<close>

text \<open>
  What the users of a map rely on. The client lemmas are about the way jsoncpp's users
  build a value: a sequence of stores, later ones winning.
\<close>

locale std_map =
  fixes empt :: "'m"
    and find :: "'m \<Rightarrow> 'k \<Rightarrow> 'v option"
    and put :: "'k \<Rightarrow> 'v \<Rightarrow> 'm \<Rightarrow> 'm"
    and erase :: "'k \<Rightarrow> 'm \<Rightarrow> 'm"
    and ok :: "'m \<Rightarrow> bool"
  assumes ok_empt: "ok empt"
    and ok_put: "ok m \<Longrightarrow> ok (put k v m)"
    and ok_erase: "ok m \<Longrightarrow> ok (erase k m)"
    and find_empt: "find empt k = None"
    and find_put: "ok m \<Longrightarrow> find (put k v m) k' = (if k' = k then Some v else find m k')"
    and find_erase: "ok m \<Longrightarrow> find (erase k m) k' = (if k' = k then None else find m k')"
begin

lemma ok_puts: "ok m \<Longrightarrow> ok (fold (\<lambda>(k, v). put k v) kvs m)"
  by (induction kvs arbitrary: m) (auto simp: ok_put)

lemma find_puts:
  "ok m \<Longrightarrow> find (fold (\<lambda>(k, v). put k v) kvs m) k =
     (case map_of (rev kvs) k of Some v \<Rightarrow> Some v | None \<Rightarrow> find m k)"
proof (induction kvs arbitrary: m)
  case Nil
  then show ?case by simp
next
  case (Cons e kvs)
  obtain a b where e: "e = (a, b)" by (cases e)
  have "map_of (rev (e # kvs)) k =
      (case map_of (rev kvs) k of Some v \<Rightarrow> Some v | None \<Rightarrow> if k = a then Some b else None)"
    by (auto simp: e map_add_def split: option.splits)
  with Cons e show ?case
    by (auto simp: ok_put find_put split: option.splits)
qed

lemma put_erase_find: "ok m \<Longrightarrow> find (put k v (erase k m)) = find (put k v m)"
  by (rule ext) (simp add: find_put find_erase ok_erase)

end

interpretation alist: std_map "[]" map_of map_put map_erase map_ok
  by unfold_locales (auto simp: map_ok_put map_ok_erase)

section \<open>Safe results\<close>

text \<open>
  \<open>safe P r\<close>: \<open>r\<close> does not come from the use of a deleted object, and if it is a value, the
  value satisfies \<open>P\<close>. Other faults are allowed.
\<close>

definition safe :: "('a \<Rightarrow> bool) \<Rightarrow> 'a result \<Rightarrow> bool" where
  "safe P r \<longleftrightarrow> (case r of Inl e \<Rightarrow> e \<noteq> Dangling_Pointer | Inr x \<Rightarrow> P x)"

lemma safe_simps [simp]:
  "safe P (Inl e) \<longleftrightarrow> e \<noteq> Dangling_Pointer"
  "safe P (Inr x) \<longleftrightarrow> P x"
  by (simp_all add: safe_def)

lemma safe_rbind [intro]:
  "safe P r \<Longrightarrow> (\<And>x. r = Inr x \<Longrightarrow> P x \<Longrightarrow> safe Q (f x)) \<Longrightarrow> safe Q (rbind r f)"
  by (cases r) auto

lemma safe_weaken: "safe P r \<Longrightarrow> (\<And>x. r = Inr x \<Longrightarrow> P x \<Longrightarrow> Q x) \<Longrightarrow> safe Q r"
  by (cases r) auto

lemma safeD: "safe P r \<Longrightarrow> r = Inr x \<Longrightarrow> P x"
  by simp

lemma safe_not_dangling: "safe P r \<Longrightarrow> r \<noteq> Inl Dangling_Pointer"
  by auto

section \<open>Reachable states\<close>

inductive reach :: "('s \<Rightarrow> bool) \<Rightarrow> ('s \<Rightarrow> 's \<Rightarrow> bool) \<Rightarrow> 's \<Rightarrow> bool"
  for init :: "'s \<Rightarrow> bool" and step :: "'s \<Rightarrow> 's \<Rightarrow> bool" where
  reach_init: "init s \<Longrightarrow> reach init step s"
| reach_step: "reach init step s \<Longrightarrow> step s t \<Longrightarrow> reach init step t"

text \<open>An invariant is a contract between the steps of a system: this is what each provides.\<close>

locale inductive_invariant =
  fixes init :: "'s \<Rightarrow> bool"
    and step :: "'s \<Rightarrow> 's \<Rightarrow> bool"
    and inv :: "'s \<Rightarrow> bool"
  assumes inv_init: "init s \<Longrightarrow> inv s"
    and inv_step: "inv s \<Longrightarrow> step s t \<Longrightarrow> inv t"
begin

lemma reach_inv: "reach init step s \<Longrightarrow> inv s"
  by (induction rule: reach.induct) (auto intro: inv_init inv_step)

end

section \<open>Reference counters\<close>

text \<open>
  A pair of operations that start a service on the first call and stop it on the last,
  counting the calls in between. \<open>balanced b n ops\<close>: starting from \<open>n\<close> users, the calls
  (\<open>True\<close> for a start) never release more than was acquired and never exceed \<open>b\<close> users.
\<close>

fun balanced :: "nat \<Rightarrow> nat \<Rightarrow> bool list \<Rightarrow> bool" where
  "balanced b n [] = True"
| "balanced b n (True # ops) = (n < b \<and> balanced b (n + 1) ops)"
| "balanced b n (False # ops) = (0 < n \<and> balanced b (n - 1) ops)"

fun users :: "nat \<Rightarrow> bool list \<Rightarrow> nat" where
  "users n [] = n"
| "users n (True # ops) = users (n + 1) ops"
| "users n (False # ops) = users (n - 1) ops"

fun run_counted :: "('s \<Rightarrow> 's) \<Rightarrow> ('s \<Rightarrow> 's) \<Rightarrow> bool list \<Rightarrow> 's \<Rightarrow> 's" where
  "run_counted up down [] s = s"
| "run_counted up down (op # ops) s = run_counted up down ops ((if op then up else down) s)"

locale refcounted =
  fixes cnt :: "'s \<Rightarrow> nat"
    and active :: "'s \<Rightarrow> bool"
    and up :: "'s \<Rightarrow> 's"
    and down :: "'s \<Rightarrow> 's"
    and bound :: nat
  assumes cnt_up: "cnt s < bound \<Longrightarrow> cnt (up s) = cnt s + 1"
    and active_up: "active (up s) = (cnt s = 0 \<or> active s)"
    and cnt_down: "0 < cnt s \<Longrightarrow> cnt (down s) = cnt s - 1"
    and active_down: "active (down s) = (cnt s \<noteq> 1 \<and> active s)"
begin

lemma active_while_used:
  "balanced bound (cnt s) ops \<Longrightarrow> active s = (0 < cnt s) \<Longrightarrow>
   cnt (run_counted up down ops s) = users (cnt s) ops
   \<and> active (run_counted up down ops s) = (0 < users (cnt s) ops)"
proof (induction ops arbitrary: s)
  case (Cons op ops)
  show ?case
  proof (cases op)
    case True
    then have "cnt (up s) = cnt s + 1" using Cons.prems by (simp add: cnt_up)
    moreover have "active (up s)" using Cons.prems by (auto simp: active_up)
    ultimately show ?thesis using Cons.IH [of "up s"] Cons.prems True by simp
  next
    case False
    then have "cnt (down s) = cnt s - 1" using Cons.prems by (simp add: cnt_down)
    moreover have "active (down s) = (0 < cnt s - 1)" using Cons.prems False by (auto simp: active_down)
    ultimately show ?thesis using Cons.IH [of "down s"] Cons.prems False by simp
  qed
qed simp

end

end
