(* ===== verification/Json_Value.thy ===== *)
theory Json_Value
  imports Prelude
begin

text \<open>
  jsoncpp's \<open>Json::Value\<close> (\<open>src/jsoncpp-src-0.5.0/src/lib_json/json_value.cpp\<close>), in the
  build without \<open>JSON_VALUE_USE_INTERNAL_MAP\<close>: the type, its conversions and predicates,
  array and object access with the insertions \<open>operator[]\<close> makes, and
  equality. Ordering of values (\<open>operator<\<close>) and paths are left out: nothing here calls them.

  A \<open>Value\<close> is the tagged union of the source. Both arrays and objects hold a
  \<open>std::map<CZString, Value>\<close>: an array is keyed by an \<open>int\<close> index, an object by a C string
  compared with \<open>strcmp\<close>, which is the order of strings used here. A string value is what
  \<open>strlen\<close> delimits: bytes behind the first NUL are stored but no member function reads
  them. The comments attached to a value are left out, since \<open>FastWriter\<close> never writes
  them.

  The type \<open>'d\<close> stands for \<open>double\<close>, and the record \<open>crt\<close> for the conversions of the C
  run-time library that the code applies to it.
\<close>

section \<open>The type\<close>

datatype 'd jvalue =
    nullValue
  | intValue i32
  | uintValue u32
  | realValue 'd
  | stringValue string
  | booleanValue bool
  | arrayValue "(int \<times> 'd jvalue) list"
  | objectValue "(string \<times> 'd jvalue) list"

datatype vtype = nullT | intT | uintT | realT | stringT | booleanT | arrayT | objectT

record 'd crt =
  sscanf_lf :: "string \<Rightarrow> 'd option"
  sprintf_g16 :: "'d \<Rightarrow> string"
  dbl_of_int :: "int \<Rightarrow> 'd"
  dbl_trunc :: "'d \<Rightarrow> int"
  dbl_le :: "'d \<Rightarrow> 'd \<Rightarrow> bool"
  dbl_eq :: "'d \<Rightarrow> 'd \<Rightarrow> bool"

definition minInt :: i32 where
  "minInt = not (- 1 div 2)"

definition maxInt :: i32 where
  "maxInt = - 1 div 2"

definition maxUInt :: u32 where
  "maxUInt = - 1"

fun type_of :: "'d jvalue \<Rightarrow> vtype" where
  "type_of nullValue = nullT"
| "type_of (intValue _) = intT"
| "type_of (uintValue _) = uintT"
| "type_of (realValue _) = realT"
| "type_of (stringValue _) = stringT"
| "type_of (booleanValue _) = booleanT"
| "type_of (arrayValue _) = arrayT"
| "type_of (objectValue _) = objectT"

text \<open>
  The constructor \<open>Value(ValueType)\<close>. A string built this way holds a null pointer, which
  every reader but \<open>asCString\<close> treats as the empty string.
\<close>

fun Value_of_type :: "'d crt \<Rightarrow> vtype \<Rightarrow> 'd jvalue" where
  "Value_of_type R nullT = nullValue"
| "Value_of_type R intT = intValue 0"
| "Value_of_type R uintT = uintValue 0"
| "Value_of_type R realT = realValue (dbl_of_int R 0)"
| "Value_of_type R stringT = stringValue []"
| "Value_of_type R booleanT = booleanValue False"
| "Value_of_type R arrayT = arrayValue []"
| "Value_of_type R objectT = objectValue []"

text \<open>\<open>Value(const std::string &)\<close> and \<open>Value(const char *)\<close>.\<close>

definition Value_string :: "string \<Rightarrow> 'd jvalue" where
  "Value_string s = stringValue (c_str s)"

definition Value_cstring :: "string option \<Rightarrow> 'd jvalue result" where
  "Value_cstring p = (case p of None \<Rightarrow> Inl Null_Pointer | Some s \<Rightarrow> Inr (stringValue (c_str s)))"

section \<open>Predicates and conversions\<close>

definition isNull :: "'d jvalue \<Rightarrow> bool" where
  "isNull v \<longleftrightarrow> type_of v = nullT"

definition isBool :: "'d jvalue \<Rightarrow> bool" where
  "isBool v \<longleftrightarrow> type_of v = booleanT"

definition isInt :: "'d jvalue \<Rightarrow> bool" where
  "isInt v \<longleftrightarrow> type_of v = intT"

definition isUInt :: "'d jvalue \<Rightarrow> bool" where
  "isUInt v \<longleftrightarrow> type_of v = uintT"

definition isIntegral :: "'d jvalue \<Rightarrow> bool" where
  "isIntegral v \<longleftrightarrow> type_of v = intT \<or> type_of v = uintT \<or> type_of v = booleanT"

definition isDouble :: "'d jvalue \<Rightarrow> bool" where
  "isDouble v \<longleftrightarrow> type_of v = realT"

definition isNumeric :: "'d jvalue \<Rightarrow> bool" where
  "isNumeric v \<longleftrightarrow> isIntegral v \<or> isDouble v"

definition isString :: "'d jvalue \<Rightarrow> bool" where
  "isString v \<longleftrightarrow> type_of v = stringT"

definition isArray :: "'d jvalue \<Rightarrow> bool" where
  "isArray v \<longleftrightarrow> type_of v = nullT \<or> type_of v = arrayT"

definition isObject :: "'d jvalue \<Rightarrow> bool" where
  "isObject v \<longleftrightarrow> type_of v = nullT \<or> type_of v = objectT"

lemmas type_preds = isNull_def isBool_def isInt_def isUInt_def isIntegral_def isDouble_def
  isNumeric_def isString_def isArray_def isObject_def

fun asString :: "'d jvalue \<Rightarrow> string result" where
  "asString nullValue = Inr []"
| "asString (stringValue s) = Inr s"
| "asString (booleanValue b) = Inr (if b then ''true'' else ''false'')"
| "asString _ = Inl (Runtime_Error ''Type is not convertible to string'')"

fun asCString :: "'d jvalue \<Rightarrow> string result" where
  "asCString (stringValue s) = Inr s"
| "asCString _ = Inl Assertion_Failed"

fun asInt :: "'d crt \<Rightarrow> 'd jvalue \<Rightarrow> i32 result" where
  "asInt R nullValue = Inr 0"
| "asInt R (intValue i) = Inr i"
| "asInt R (uintValue u) =
     (if u < maxInt then Inr u else Inl (Runtime_Error ''integer out of signed integer range''))"
| "asInt R (realValue d) =
     (if dbl_le R (dbl_of_int R (sint minInt)) d \<and> dbl_le R d (dbl_of_int R (sint maxInt))
      then Inr (word_of_int (dbl_trunc R d))
      else Inl (Runtime_Error ''Real out of signed integer range''))"
| "asInt R (booleanValue b) = Inr (if b then 1 else 0)"
| "asInt R _ = Inl (Runtime_Error ''Type is not convertible to int'')"

fun asUInt :: "'d crt \<Rightarrow> 'd jvalue \<Rightarrow> u32 result" where
  "asUInt R nullValue = Inr 0"
| "asUInt R (intValue i) =
     (if 0 \<le> sint i then Inr i
      else Inl (Runtime_Error ''Negative integer can not be converted to unsigned integer''))"
| "asUInt R (uintValue u) = Inr u"
| "asUInt R (realValue d) =
     (if dbl_le R (dbl_of_int R 0) d \<and> dbl_le R d (dbl_of_int R (uint maxUInt))
      then Inr (word_of_int (dbl_trunc R d))
      else Inl (Runtime_Error ''Real out of unsigned integer range''))"
| "asUInt R (booleanValue b) = Inr (if b then 1 else 0)"
| "asUInt R _ = Inl (Runtime_Error ''Type is not convertible to uint'')"

fun asDouble :: "'d crt \<Rightarrow> 'd jvalue \<Rightarrow> 'd result" where
  "asDouble R nullValue = Inr (dbl_of_int R 0)"
| "asDouble R (intValue i) = Inr (dbl_of_int R (sint i))"
| "asDouble R (uintValue u) = Inr (dbl_of_int R (uint u))"
| "asDouble R (realValue d) = Inr d"
| "asDouble R (booleanValue b) = Inr (dbl_of_int R (if b then 1 else 0))"
| "asDouble R _ = Inl (Runtime_Error ''Type is not convertible to double'')"

fun asBool :: "'d crt \<Rightarrow> 'd jvalue \<Rightarrow> bool" where
  "asBool R nullValue = False"
| "asBool R (intValue i) = (i \<noteq> 0)"
| "asBool R (uintValue u) = (u \<noteq> 0)"
| "asBool R (realValue d) = (\<not> dbl_eq R d (dbl_of_int R 0))"
| "asBool R (booleanValue b) = b"
| "asBool R (stringValue s) = (s \<noteq> [])"
| "asBool R (arrayValue m) = (m \<noteq> [])"
| "asBool R (objectValue m) = (m \<noteq> [])"

fun isConvertibleTo :: "'d crt \<Rightarrow> 'd jvalue \<Rightarrow> vtype \<Rightarrow> bool" where
  "isConvertibleTo R nullValue t = True"
| "isConvertibleTo R (intValue i) t =
     (t = nullT \<and> i = 0 \<or> t = intT \<or> t = uintT \<and> 0 \<le> sint i \<or> t = realT \<or> t = stringT
      \<or> t = booleanT)"
| "isConvertibleTo R (uintValue u) t =
     (t = nullT \<and> u = 0 \<or> t = intT \<and> u \<le> maxInt \<or> t = uintT \<or> t = realT \<or> t = stringT
      \<or> t = booleanT)"
| "isConvertibleTo R (realValue d) t =
     (t = nullT \<and> dbl_eq R d (dbl_of_int R 0)
      \<or> t = intT \<and> dbl_le R (dbl_of_int R (sint minInt)) d \<and> dbl_le R d (dbl_of_int R (sint maxInt))
      \<or> t = uintT \<and> dbl_le R (dbl_of_int R 0) d \<and> dbl_le R d (dbl_of_int R (uint maxUInt))
      \<or> t = realT \<or> t = stringT \<or> t = booleanT)"
| "isConvertibleTo R (booleanValue b) t =
     (t = nullT \<and> \<not> b \<or> t = intT \<or> t = uintT \<or> t = realT \<or> t = stringT \<or> t = booleanT)"
| "isConvertibleTo R (stringValue s) t = (t = stringT \<or> t = nullT \<and> s = [])"
| "isConvertibleTo R (arrayValue m) t = (t = arrayT \<or> t = nullT \<and> m = [])"
| "isConvertibleTo R (objectValue m) t = (t = objectT \<or> t = nullT \<and> m = [])"

section \<open>Arrays and objects\<close>

text \<open>\<open>size\<close>: for an array the last index plus one, for an object the number of members.\<close>

fun size_of :: "'d jvalue \<Rightarrow> u32" where
  "size_of (arrayValue m) = (if m \<noteq> [] then word_of_int (fst (last m) + 1) else 0)"
| "size_of (objectValue m) = word_of_nat (length m)"
| "size_of _ = 0"

definition empty_value :: "'d jvalue \<Rightarrow> bool" where
  "empty_value v = (if isNull v \<or> isArray v \<or> isObject v then size_of v = 0 else False)"

fun clear :: "'d jvalue \<Rightarrow> 'd jvalue result" where
  "clear nullValue = Inr nullValue"
| "clear (arrayValue m) = Inr (arrayValue [])"
| "clear (objectValue m) = Inr (objectValue [])"
| "clear _ = Inl Assertion_Failed"

text \<open>
  \<open>operator[]\<close> on a non-const value hands out a reference after inserting a null member for
  a missing key, and turns a null value into an empty array or object first. The first
  component of the result is the container after that insertion, the second the value the
  reference denotes; \<open>store_index\<close> and \<open>store_key\<close> write through the reference.
\<close>

fun index_ref :: "'d jvalue \<Rightarrow> u32 \<Rightarrow> ('d jvalue \<times> 'd jvalue) result" where
  "index_ref nullValue i = Inr (arrayValue [(sint i, nullValue)], nullValue)"
| "index_ref (arrayValue m) i =
     (case map_of m (sint i) of
        Some v \<Rightarrow> Inr (arrayValue m, v)
      | None \<Rightarrow> Inr (arrayValue (map_put (sint i) nullValue m), nullValue))"
| "index_ref _ i = Inl Assertion_Failed"

fun store_index :: "'d jvalue \<Rightarrow> u32 \<Rightarrow> 'd jvalue \<Rightarrow> 'd jvalue result" where
  "store_index nullValue i w = Inr (arrayValue [(sint i, w)])"
| "store_index (arrayValue m) i w = Inr (arrayValue (map_put (sint i) w m))"
| "store_index _ i w = Inl Assertion_Failed"

fun index_const :: "'d jvalue \<Rightarrow> u32 \<Rightarrow> 'd jvalue result" where
  "index_const nullValue i = Inr nullValue"
| "index_const (arrayValue m) i =
     (case map_of m (sint i) of Some v \<Rightarrow> Inr v | None \<Rightarrow> Inr nullValue)"
| "index_const _ i = Inl Assertion_Failed"

definition isValidIndex :: "'d jvalue \<Rightarrow> u32 \<Rightarrow> bool" where
  "isValidIndex v i \<longleftrightarrow> i < size_of v"

definition append_value :: "'d jvalue \<Rightarrow> 'd jvalue \<Rightarrow> 'd jvalue result" where
  "append_value v w = store_index v (size_of v) w"

fun resize :: "'d jvalue \<Rightarrow> u32 \<Rightarrow> 'd jvalue result" where
  "resize nullValue n =
     (if n = 0 then Inr (arrayValue []) else rbind (index_ref nullValue (n - 1)) (\<lambda>(v, _). Inr v))"
| "resize (arrayValue m) n =
     (let old = size_of (arrayValue m) in
      if n = 0 then Inr (arrayValue [])
      else if old < n then rbind (index_ref (arrayValue m) (n - 1)) (\<lambda>(v, _). Inr v)
      else
        let v = arrayValue (fold (\<lambda>i. map_erase (sint (word_of_nat i :: u32)))
                                 [unat n..<unat old] m)
        in if size_of v = n then Inr v else Inl Assertion_Failed)"
| "resize _ n = Inl Assertion_Failed"

fun resolveReference :: "'d jvalue \<Rightarrow> string \<Rightarrow> ('d jvalue \<times> 'd jvalue) result" where
  "resolveReference nullValue key = Inr (objectValue [(c_str key, nullValue)], nullValue)"
| "resolveReference (objectValue m) key =
     (case map_of m (c_str key) of
        Some v \<Rightarrow> Inr (objectValue m, v)
      | None \<Rightarrow> Inr (objectValue (map_put (c_str key) nullValue m), nullValue))"
| "resolveReference _ key = Inl Assertion_Failed"

fun store_key :: "'d jvalue \<Rightarrow> string \<Rightarrow> 'd jvalue \<Rightarrow> 'd jvalue result" where
  "store_key nullValue key w = Inr (objectValue [(c_str key, w)])"
| "store_key (objectValue m) key w = Inr (objectValue (map_put (c_str key) w m))"
| "store_key _ key w = Inl Assertion_Failed"

fun key_const :: "'d jvalue \<Rightarrow> string \<Rightarrow> 'd jvalue result" where
  "key_const nullValue key = Inr nullValue"
| "key_const (objectValue m) key =
     (case map_of m (c_str key) of Some v \<Rightarrow> Inr v | None \<Rightarrow> Inr nullValue)"
| "key_const _ key = Inl Assertion_Failed"

text \<open>
  \<open>get\<close> and \<open>isMember\<close> compare the address of the member found with that of the shared null
  value, so they see whether the key exists, also when its member is null.
\<close>

fun get_index :: "'d jvalue \<Rightarrow> u32 \<Rightarrow> 'd jvalue \<Rightarrow> 'd jvalue result" where
  "get_index nullValue i d = Inr d"
| "get_index (arrayValue m) i d = (case map_of m (sint i) of Some v \<Rightarrow> Inr v | None \<Rightarrow> Inr d)"
| "get_index _ i d = Inl Assertion_Failed"

fun get_key :: "'d jvalue \<Rightarrow> string \<Rightarrow> 'd jvalue \<Rightarrow> 'd jvalue result" where
  "get_key nullValue key d = Inr d"
| "get_key (objectValue m) key d =
     (case map_of m (c_str key) of Some v \<Rightarrow> Inr v | None \<Rightarrow> Inr d)"
| "get_key _ key d = Inl Assertion_Failed"

fun isMember :: "'d jvalue \<Rightarrow> string \<Rightarrow> bool result" where
  "isMember nullValue key = Inr False"
| "isMember (objectValue m) key = Inr (map_of m (c_str key) \<noteq> None)"
| "isMember _ key = Inl Assertion_Failed"

text \<open>\<open>removeMember\<close>: the container afterwards, and the member removed (null if there was none).\<close>

fun removeMember :: "'d jvalue \<Rightarrow> string \<Rightarrow> ('d jvalue \<times> 'd jvalue) result" where
  "removeMember nullValue key = Inr (nullValue, nullValue)"
| "removeMember (objectValue m) key =
     (case map_of m (c_str key) of
        None \<Rightarrow> Inr (objectValue m, nullValue)
      | Some old \<Rightarrow> Inr (objectValue (map_erase (c_str key) m), old))"
| "removeMember _ key = Inl Assertion_Failed"

fun getMemberNames :: "'d jvalue \<Rightarrow> string list result" where
  "getMemberNames nullValue = Inr []"
| "getMemberNames (objectValue m) = Inr (map fst m)"
| "getMemberNames _ = Inl Assertion_Failed"


section \<open>Equality\<close>

fun value_eq :: "'d crt \<Rightarrow> 'd jvalue \<Rightarrow> 'd jvalue \<Rightarrow> bool" where
  "value_eq R nullValue w = (w = nullValue)"
| "value_eq R (intValue i) w = (case w of intValue j \<Rightarrow> i = j | _ \<Rightarrow> False)"
| "value_eq R (uintValue i) w = (case w of uintValue j \<Rightarrow> i = j | _ \<Rightarrow> False)"
| "value_eq R (realValue x) w = (case w of realValue y \<Rightarrow> dbl_eq R x y | _ \<Rightarrow> False)"
| "value_eq R (booleanValue b) w = (case w of booleanValue c \<Rightarrow> b = c | _ \<Rightarrow> False)"
| "value_eq R (stringValue s) w = (case w of stringValue t \<Rightarrow> s = t | _ \<Rightarrow> False)"
| "value_eq R (arrayValue m) w =
     (case w of
        arrayValue n \<Rightarrow> length m = length n
          \<and> list_all2 (\<lambda>e f. fst e = fst f \<and> value_eq R (snd e) (snd f)) m n
      | _ \<Rightarrow> False)"
| "value_eq R (objectValue m) w =
     (case w of
        objectValue n \<Rightarrow> length m = length n
          \<and> list_all2 (\<lambda>e f. fst e = fst f \<and> value_eq R (snd e) (snd f)) m n
      | _ \<Rightarrow> False)"

section \<open>Well-formed values\<close>

text \<open>
  What every \<open>Value\<close> of the program satisfies: strings and member names are C strings, the
  entries of an array or object are in key order without duplicates, and array indices are
  in the range of \<open>int\<close>.
\<close>

definition int_range :: "int \<Rightarrow> bool" where
  "int_range i \<longleftrightarrow> - (2 ^ 31) \<le> i \<and> i < 2 ^ 31"

fun wf_value :: "'d jvalue \<Rightarrow> bool" where
  "wf_value (stringValue s) = nul_free s"
| "wf_value (arrayValue m) =
     (map_ok m \<and> list_all (\<lambda>e. int_range (fst e) \<and> wf_value (snd e)) m)"
| "wf_value (objectValue m) = (map_ok m \<and> list_all (\<lambda>e. nul_free (fst e) \<and> wf_value (snd e)) m)"
| "wf_value _ = True"

lemma int_range_sint [simp]: "int_range (sint (i :: i32))"
  using sint_ge [of i] sint_lt [of i] by (simp add: int_range_def)

lemma list_all_map_put: "list_all P m \<Longrightarrow> P (k, v) \<Longrightarrow> list_all P (map_put k v m)"
  using set_map_put [of k v m] by (auto simp: list_all_iff)

lemma list_all_map_erase: "list_all P m \<Longrightarrow> list_all P (map_erase k m)"
  using set_map_erase [of k m] by (auto simp: list_all_iff)

lemma list_all_map_of: "list_all P m \<Longrightarrow> map_of m k = Some v \<Longrightarrow> P (k, v)"
  by (auto simp: list_all_iff dest: map_of_SomeD)

lemma wf_Value_string [simp]: "wf_value (Value_string s)"
  by (simp add: Value_string_def)

lemma wf_Value_cstring: "Value_cstring p = Inr v \<Longrightarrow> wf_value v"
  by (auto simp: Value_cstring_def split: option.splits)

lemma wf_Value_of_type [simp]: "wf_value (Value_of_type R t)"
  by (cases t) auto

lemma wf_resolveReference [inv_intros]:
  "wf_value v \<Longrightarrow> resolveReference v key = Inr (v', r) \<Longrightarrow> wf_value v' \<and> wf_value r"
  by (cases v) (auto simp: list_all_map_put dest: list_all_map_of split: option.splits)

lemma wf_store_key [inv_intros]:
  "wf_value v \<Longrightarrow> wf_value w \<Longrightarrow> store_key v key w = Inr v' \<Longrightarrow> wf_value v'"
  by (cases v) (auto simp: list_all_map_put)

lemma wf_key_const [inv_intros]: "wf_value v \<Longrightarrow> key_const v key = Inr r \<Longrightarrow> wf_value r"
  by (cases v) (auto dest: list_all_map_of split: option.splits)

lemma wf_index_ref [inv_intros]:
  "wf_value v \<Longrightarrow> index_ref v i = Inr (v', r) \<Longrightarrow> wf_value v' \<and> wf_value r"
  by (cases v) (auto simp: list_all_map_put dest: list_all_map_of split: option.splits)

lemma wf_store_index [inv_intros]:
  "wf_value v \<Longrightarrow> wf_value w \<Longrightarrow> store_index v i w = Inr v' \<Longrightarrow> wf_value v'"
  by (cases v) (auto simp: list_all_map_put)

lemma wf_append [inv_intros]:
  "wf_value v \<Longrightarrow> wf_value w \<Longrightarrow> append_value v w = Inr v' \<Longrightarrow> wf_value v'"
  unfolding append_value_def by (rule wf_store_index)

lemma wf_removeMember [inv_intros]:
  "wf_value v \<Longrightarrow> removeMember v key = Inr (v', old) \<Longrightarrow> wf_value v' \<and> wf_value old"
  by (cases v) (auto simp: list_all_map_erase dest: list_all_map_of split: option.splits)

lemma wf_clear [inv_intros]: "wf_value v \<Longrightarrow> clear v = Inr v' \<Longrightarrow> wf_value v'"
  by (cases v) auto

lemma fold_map_erase_ok: "map_ok m \<Longrightarrow> map_ok (fold (\<lambda>i. map_erase (f i)) is m)"
  by (induction "is" arbitrary: m) auto

lemma fold_map_erase_all: "list_all P m \<Longrightarrow> list_all P (fold (\<lambda>i. map_erase (f i)) is m)"
  by (induction "is" arbitrary: m) (auto simp: list_all_map_erase)

lemma wf_resize [inv_intros]:
  assumes wf: "wf_value v" and res: "resize v n = Inr v'"
  shows "wf_value v'"
proof (cases v)
  case nullValue
  with res show ?thesis by (auto split: if_splits)
next
  case (arrayValue m)
  consider "n = 0" | r where "index_ref v (n - 1) = Inr (v', r)"
    | "v' = arrayValue (fold (\<lambda>i. map_erase (sint (word_of_nat i :: u32)))
         [unat n..<unat (size_of v)] m)"
    using res arrayValue
    by (auto simp: Let_def res_simps simp del: index_ref.simps size_of.simps split: if_splits)
  then show ?thesis
  proof cases
    case 1
    with res arrayValue show ?thesis by (auto simp: Let_def)
  next
    case 2
    with wf show ?thesis by (blast dest: wf_index_ref)
  next
    case 3
    with wf arrayValue show ?thesis by (simp add: fold_map_erase_ok fold_map_erase_all del: size_of.simps)
  qed
qed (use res in auto)

section \<open>Access laws\<close>

lemma store_key_total: "isObject v \<Longrightarrow> \<exists>v'. store_key v key w = Inr v' \<and> isObject v'"
  by (cases v) (auto simp: isObject_def)

lemma key_const_store:
  "wf_value v \<Longrightarrow> store_key v key w = Inr v' \<Longrightarrow>
   key_const v' key' = (if c_str key' = c_str key then Inr w else key_const v key')"
  by (cases v) (auto split: option.splits)

lemma resolveReference_const:
  "wf_value v \<Longrightarrow> resolveReference v key = Inr (v', r) \<Longrightarrow>
   key_const v key = Inr r \<and> key_const v' key' = key_const v key'"
  by (cases v) (auto split: option.splits)

lemma resolveReference_fails_iff:
  "resolveReference v key = Inl e \<longleftrightarrow> \<not> isObject v \<and> e = Assertion_Failed"
  by (cases v) (auto simp: isObject_def split: option.splits)

lemma resolveReference_isObject: "resolveReference v key = Inr (v', r) \<Longrightarrow> isObject v' \<and> isObject v"
  by (cases v) (auto simp: isObject_def split: option.splits)

section \<open>Arrays filled by append\<close>

definition dense :: "(int \<times> 'a) list \<Rightarrow> bool" where
  "dense m \<longleftrightarrow> map fst m = map int [0..<length m]"

fun elems :: "'d jvalue \<Rightarrow> 'd jvalue list" where
  "elems (arrayValue m) = map snd m"
| "elems _ = []"

lemma dense_Nil [simp]: "dense []"
  by (simp add: dense_def)

lemma dense_snoc: "dense m \<Longrightarrow> dense (m @ [(int (length m), v)])"
  by (simp add: dense_def)

lemma dense_keys: "dense m \<Longrightarrow> e \<in> set m \<Longrightarrow> fst e < int (length m)"
proof -
  assume "dense m" and "e \<in> set m"
  then have "fst e \<in> set (map int [0..<length m])"
    unfolding dense_def by (metis image_eqI list.set_map)
  then show ?thesis by auto
qed

lemma dense_last: "dense m \<Longrightarrow> m \<noteq> [] \<Longrightarrow> fst (last m) + 1 = int (length m)"
proof -
  assume d: "dense m" and ne: "m \<noteq> []"
  then have "fst (last m) = last (map fst m)" by (simp add: last_map)
  also have "\<dots> = last (map int [0..<length m])" using d by (simp add: dense_def)
  finally show ?thesis using ne by (cases m) (auto simp: last_map)
qed

lemma dense_put: "dense m \<Longrightarrow> map_put (int (length m)) v m = m @ [(int (length m), v)]"
  using dense_keys by (intro map_put_append) blast

lemma dense_size_of: "dense m \<Longrightarrow> size_of (arrayValue m) = word_of_nat (length m)"
proof (cases "m = []")
  case False
  moreover assume "dense m"
  ultimately show ?thesis by (simp only: size_of.simps dense_last if_True of_int_of_nat_eq not_False_eq_True)
qed simp

lemma sint_word_of_nat: "n < 2 ^ 31 \<Longrightarrow> sint (word_of_nat n :: i32) = int n"
proof -
  assume "n < 2 ^ 31"
  then have n: "n < 2147483648" by simp
  have "sint (word_of_int (int n) :: i32)
      = (int n + 2 ^ (LENGTH(32) - 1)) mod 2 ^ LENGTH(32) - 2 ^ (LENGTH(32) - 1)"
    by (rule int_word_sint)
  with n show ?thesis by simp
qed

lemma append_dense:
  assumes "dense m" and "length m < 2 ^ 31"
  shows "append_value (arrayValue m) w = Inr (arrayValue (m @ [(int (length m), w)]))"
  by (simp only: append_value_def dense_size_of [OF assms(1)] store_index.simps
      sint_word_of_nat [OF assms(2)] dense_put [OF assms(1)])

end
