(* ===== verification/Json_Writer.thy ===== *)
theory Json_Writer
  imports Json_Value
begin

text \<open>
  jsoncpp's \<open>FastWriter\<close> and the conversions of scalars to text
  (\<open>src/jsoncpp-src-0.5.0/src/lib_json/json_writer.cpp\<close>). \<open>FastWriter\<close> is how the program
  serialises every reply and every event it sends. \<open>StyledWriter\<close>, which only formats log
  messages here, is left out.
\<close>

section \<open>Scalars\<close>

text \<open>The C character constants of the source.\<close>

abbreviation DQ :: char where "DQ \<equiv> CHR 0x22"
abbreviation BSL :: char where "BSL \<equiv> CHR 0x5C"
abbreviation BS :: char where "BS \<equiv> CHR 0x08"
abbreviation FF :: char where "FF \<equiv> CHR 0x0C"
abbreviation LF :: char where "LF \<equiv> CHR 0x0A"
abbreviation CR :: char where "CR \<equiv> CHR 0x0D"
abbreviation TAB :: char where "TAB \<equiv> CHR 0x09"

abbreviation code :: "char \<Rightarrow> nat" where
  "code c \<equiv> of_char c"

definition isControlCharacter :: "char \<Rightarrow> bool" where
  "isControlCharacter c \<longleftrightarrow> 0 < code c \<and> code c \<le> 31"

definition containsControlCharacter :: "string \<Rightarrow> bool" where
  "containsControlCharacter s \<longleftrightarrow> list_ex isControlCharacter (c_str s)"

definition digit_char :: "nat \<Rightarrow> char" where
  "digit_char d = char_of (48 + d)"

text \<open>The digits are written from the end of the buffer towards its start.\<close>

fun uintToString :: "nat \<Rightarrow> string \<Rightarrow> string" where
  "uintToString n current =
     (let current = digit_char (n mod 10) # current
      in if n div 10 \<noteq> 0 then uintToString (n div 10) current else current)"

declare uintToString.simps [simp del]

definition valueToString_Int :: "i32 \<Rightarrow> string" where
  "valueToString_Int i =
     (let isNegative = (sint i < 0);
          i = (if isNegative then - i else i);
          current = uintToString (unat i) []
      in if isNegative then CHR ''-'' # current else current)"

definition valueToString_UInt :: "u32 \<Rightarrow> string" where
  "valueToString_UInt u = uintToString (unat u) []"

definition is_digit :: "char \<Rightarrow> bool" where
  "is_digit c \<longleftrightarrow> 48 \<le> code c \<and> code c \<le> 57"

text \<open>
  \<open>%#.16g\<close> pads with zeros; they are cut behind the last significant digit, one of them
  kept. \<open>p\<close> is the index of \<open>last_nonzero\<close>.
\<close>

definition truncate_zeros :: "string \<Rightarrow> string" where
  "truncate_zeros buffer =
     (if buffer = [] \<or> last buffer \<noteq> CHR ''0'' then buffer
      else let p = length (dropWhile (\<lambda>c. c = CHR ''0'') (rev buffer)) - 1
           in case dropWhile is_digit (rev (take (p + 1) buffer)) of
                [] \<Rightarrow> buffer
              | c # _ \<Rightarrow> if c = CHR ''.'' then take (p + 2) buffer else buffer)"

definition valueToString_double :: "'d crt \<Rightarrow> 'd \<Rightarrow> string" where
  "valueToString_double R d = truncate_zeros (sprintf_g16 R d)"

definition valueToString_bool :: "bool \<Rightarrow> string" where
  "valueToString_bool b = (if b then ''true'' else ''false'')"

definition hex_upper :: "nat \<Rightarrow> char" where
  "hex_upper d = (if d < 10 then char_of (48 + d) else char_of (55 + d))"

definition escape_char :: "char \<Rightarrow> string" where
  "escape_char c =
     (if c = DQ then [BSL, DQ]
      else if c = BSL then [BSL, BSL]
      else if c = BS then [BSL, CHR ''b'']
      else if c = FF then [BSL, CHR ''f'']
      else if c = LF then [BSL, CHR ''n'']
      else if c = CR then [BSL, CHR ''r'']
      else if c = TAB then [BSL, CHR ''t'']
      else if isControlCharacter c
      then [BSL, CHR ''u'', CHR ''0'', CHR ''0'', hex_upper (code c div 16), hex_upper (code c mod 16)]
      else [c])"

definition valueToQuotedString :: "string \<Rightarrow> string" where
  "valueToQuotedString v =
     (if \<not> list_ex (\<lambda>c. c \<in> {DQ, BSL, BS, FF, LF, CR, TAB}) (c_str v)
         \<and> \<not> containsControlCharacter v
      then [DQ] @ c_str v @ [DQ]
      else [DQ] @ concat (map escape_char (c_str v)) @ [DQ])"

section \<open>FastWriter\<close>

text \<open>The elements with a comma before every one but the first.\<close>

fun join :: "string list \<Rightarrow> string" where
  "join [] = []"
| "join [x] = x"
| "join (x # xs) = x @ '','' @ join xs"

fun writeValue :: "'d crt \<Rightarrow> bool \<Rightarrow> 'd jvalue \<Rightarrow> string" where
  "writeValue R yaml nullValue = ''null''"
| "writeValue R yaml (intValue i) = valueToString_Int i"
| "writeValue R yaml (uintValue u) = valueToString_UInt u"
| "writeValue R yaml (realValue d) = valueToString_double R d"
| "writeValue R yaml (stringValue s) = valueToQuotedString s"
| "writeValue R yaml (booleanValue b) = valueToString_bool b"
| "writeValue R yaml (arrayValue m) =
     (let texts = map (\<lambda>e. (fst e, writeValue R yaml (snd e))) m
      in ''['' @ join (map (\<lambda>index. case map_of texts (int index) of Some t \<Rightarrow> t | None \<Rightarrow> ''null'')
                          [0..<nat (sint (size_of (arrayValue m)))]) @ '']'')"
| "writeValue R yaml (objectValue m) =
     (let texts = map (\<lambda>e. (fst e, writeValue R yaml (snd e))) m
      in ''{'' @ join (map (\<lambda>name. valueToQuotedString name @ (if yaml then '': '' else '':'')
                                   @ (case map_of texts name of Some t \<Rightarrow> t | None \<Rightarrow> ''null''))
                          (map fst m)) @ ''}'')"

definition FastWriter_write :: "'d crt \<Rightarrow> 'd jvalue \<Rightarrow> string" where
  "FastWriter_write R root = writeValue R False root"

end
