(* ===== verification/Json_Reader.thy ===== *)
theory Json_Reader
  imports Json_Writer
begin

text \<open>
  jsoncpp's \<open>Reader\<close> (\<open>src/jsoncpp-src-0.5.0/src/lib_json/json_reader.cpp\<close>) with the
  features it has by default (\<open>Features::all()\<close>): the tokeniser, the decoding of numbers
  and strings, and the recursive descent over values, objects and arrays with its error
  recovery.

  The pair \<open>current_\<close>, \<open>end_\<close> is the list of characters still to be read; reading at the end
  gives the NUL that terminates the document. A token is its type and its characters. The
  error messages (\<open>errors_\<close>) are left out: they only feed \<open>getFormatedErrorMessages\<close>, which
  the program never calls. The descent takes fuel; running out of it is \<open>Diverge\<close>, and
  twice the length of the document plus one is always enough.
\<close>

section \<open>Tokens\<close>

datatype tokenType =
    tokenEndOfStream | tokenObjectBegin | tokenObjectEnd | tokenArrayBegin | tokenArrayEnd
  | tokenString | tokenNumber | tokenTrue | tokenFalse | tokenNull
  | tokenArraySeparator | tokenMemberSeparator | tokenComment | tokenError

type_synonym token = "tokenType \<times> string"

fun getNextChar :: "string \<Rightarrow> char \<times> string" where
  "getNextChar [] = (NUL, [])"
| "getNextChar (c # s) = (c, s)"

definition is_space :: "char \<Rightarrow> bool" where
  "is_space c \<longleftrightarrow> c = CHR '' '' \<or> c = TAB \<or> c = CR \<or> c = LF"

definition skipSpaces :: "string \<Rightarrow> string" where
  "skipSpaces s = dropWhile is_space s"

definition match :: "string \<Rightarrow> string \<Rightarrow> bool \<times> string" where
  "match pattern s =
     (if length s < length pattern then (False, s)
      else if take (length pattern) s \<noteq> pattern then (False, s)
      else (True, drop (length pattern) s))"

fun toCommentEnd :: "string \<Rightarrow> string" where
  "toCommentEnd [] = []"
| "toCommentEnd (c # s) =
     (if c = CHR ''*'' \<and> fst (getNextChar s) = CHR ''/'' then s else toCommentEnd s)"

definition readCStyleComment :: "string \<Rightarrow> bool \<times> string" where
  "readCStyleComment s = (let (c, s) = getNextChar (toCommentEnd s) in (c = CHR ''/'', s))"

fun readCppStyleComment :: "string \<Rightarrow> bool \<times> string" where
  "readCppStyleComment [] = (True, [])"
| "readCppStyleComment (c # s) = (if c = CR \<or> c = LF then (True, s) else readCppStyleComment s)"

definition readComment :: "string \<Rightarrow> bool \<times> string" where
  "readComment s =
     (let (c, s) = getNextChar s in
      if c = CHR ''*'' then readCStyleComment s
      else if c = CHR ''/'' then readCppStyleComment s
      else (False, s))"

definition number_char :: "char \<Rightarrow> bool" where
  "number_char c \<longleftrightarrow> is_digit c \<or> c \<in> {CHR ''.'', CHR ''e'', CHR ''E'', CHR ''+'', CHR ''-''}"

definition readNumber :: "string \<Rightarrow> string" where
  "readNumber s = dropWhile number_char s"

text \<open>The first argument is the character the loop read last.\<close>

fun readString :: "char \<Rightarrow> string \<Rightarrow> bool \<times> string" where
  "readString c [] = (c = DQ, [])"
| "readString _ (c # s) =
     (if c = BSL then readString c (tl s)
      else if c = DQ then (True, s)
      else readString c s)"

definition token_ok :: "tokenType \<Rightarrow> bool \<times> string \<Rightarrow> tokenType \<times> string" where
  "token_ok t r = (if fst r then t else tokenError, snd r)"

definition scanToken :: "char \<Rightarrow> string \<Rightarrow> tokenType \<times> string" where
  "scanToken c s =
     (if c = CHR ''{'' then (tokenObjectBegin, s)
      else if c = CHR ''}'' then (tokenObjectEnd, s)
      else if c = CHR ''['' then (tokenArrayBegin, s)
      else if c = CHR '']'' then (tokenArrayEnd, s)
      else if c = DQ then token_ok tokenString (readString NUL s)
      else if c = CHR ''/'' then token_ok tokenComment (readComment s)
      else if is_digit c \<or> c = CHR ''-'' then (tokenNumber, readNumber s)
      else if c = CHR ''t'' then token_ok tokenTrue (match ''rue'' s)
      else if c = CHR ''f'' then token_ok tokenFalse (match ''alse'' s)
      else if c = CHR ''n'' then token_ok tokenNull (match ''ull'' s)
      else if c = CHR '','' then (tokenArraySeparator, s)
      else if c = CHR '':'' then (tokenMemberSeparator, s)
      else if c = NUL then (tokenEndOfStream, s)
      else (tokenError, s))"

text \<open>\<open>readToken\<close>: the token and the characters behind it.\<close>

definition readToken :: "string \<Rightarrow> token \<times> string" where
  "readToken s =
     (let s = skipSpaces s;
          (c, r) = getNextChar s;
          (t, r) = scanToken c r
      in ((t, take (length s - length r) s), r))"

lemma skipSpaces_le [simp]: "length (skipSpaces s) \<le> length s"
  by (simp add: skipSpaces_def length_dropWhile_le)

lemma toCommentEnd_le: "length (toCommentEnd s) \<le> length s"
  by (induction s) auto

lemma getNextChar_le: "length (snd (getNextChar s)) \<le> length s"
  by (cases s) auto

lemma readCppStyleComment_le: "length (snd (readCppStyleComment s)) \<le> length s"
  by (induction s) auto

lemma readComment_le: "length (snd (readComment s)) \<le> length s"
proof (cases s)
  case (Cons c r)
  have "length (snd (getNextChar (toCommentEnd r))) \<le> length r"
    using getNextChar_le toCommentEnd_le le_trans by blast
  then show ?thesis
    using Cons readCppStyleComment_le [of r]
    by (auto simp: readComment_def readCStyleComment_def split: prod.splits)
qed (simp add: readComment_def)

lemma readString_le: "length (snd (readString c s)) \<le> length s"
  by (induction c s rule: readString.induct) auto

lemma match_le: "length (snd (match p s)) \<le> length s"
  by (simp add: match_def)

lemma readNumber_le: "length (readNumber s) \<le> length s"
  by (simp add: readNumber_def length_dropWhile_le)

lemma scanToken_le: "length (snd (scanToken c s)) \<le> length s"
  using readString_le [of NUL s] readComment_le [of s] readNumber_le [of s]
    match_le [of "''rue''" s] match_le [of "''alse''" s] match_le [of "''ull''" s]
  by (simp add: scanToken_def token_ok_def)

text \<open>A token takes at least one character, unless the document is exhausted.\<close>

lemma readToken_shorter:
  assumes "readToken s = ((t, x), r)"
  shows "length r < length s \<or> r = [] \<and> t = tokenEndOfStream"
proof (cases "skipSpaces s")
  case Nil
  with assms show ?thesis by (simp add: readToken_def scanToken_def is_digit_def)
next
  case (Cons c u)
  then have "Suc (length u) \<le> length s" by (metis length_Cons skipSpaces_le)
  moreover have "r = snd (scanToken c u)"
    using assms Cons by (auto simp: readToken_def split: prod.splits)
  ultimately show ?thesis using scanToken_le [of c u] by simp
qed

lemma readToken_le: "readToken s = (tok, r) \<Longrightarrow> length r \<le> length s"
  using readToken_shorter [of s "fst tok" "snd tok" r] by (cases tok) auto

function skipCommentTokens :: "string \<Rightarrow> token \<times> string" where
  "skipCommentTokens s =
     (let (tok, r) = readToken s
      in if fst tok = tokenComment then skipCommentTokens r else (tok, r))"
  by pat_completeness auto
termination
proof (relation "measure length")
  fix s x tok r
  assume "x = readToken s" and "(tok, r) = x" and "fst tok = tokenComment"
  then show "(r, s) \<in> measure length"
    using readToken_shorter [of s "fst tok" "snd tok" r] by (cases tok) auto
qed simp

text \<open>\<open>recoverFromError\<close>: skip to the given token or the end of the document.\<close>

function recoverFromError :: "tokenType \<Rightarrow> string \<Rightarrow> string" where
  "recoverFromError skipUntil s =
     (let (skip, r) = readToken s
      in if fst skip = skipUntil \<or> fst skip = tokenEndOfStream then r
         else recoverFromError skipUntil r)"
  by pat_completeness auto
termination
proof (relation "measure (length \<circ> snd)")
  fix u s x skip r
  assume "x = readToken s" and "(skip, r) = x" and "\<not> (fst skip = u \<or> fst skip = tokenEndOfStream)"
  then show "((u, r), (u, s)) \<in> measure (length \<circ> snd)"
    using readToken_shorter [of s "fst skip" "snd skip" r] by auto
qed simp

declare skipCommentTokens.simps [simp del] recoverFromError.simps [simp del]

section \<open>Numbers and strings\<close>

datatype 'd decoded = Decoded 'd | Malformed | Crash fault

text \<open>
  \<open>decodeDouble\<close> copies the token into \<open>Char buffer[bufferSize]\<close> when its length is at most
  \<open>bufferSize\<close> and then writes a NUL at index \<open>length\<close>: for a token of exactly \<open>bufferSize\<close>
  characters that is one past the end of the buffer.
\<close>

definition bufferSize :: nat where
  "bufferSize = 32"

definition decodeDouble :: "'d crt \<Rightarrow> string \<Rightarrow> 'd jvalue decoded" where
  "decodeDouble R tok =
     (if length tok = bufferSize then Crash Out_Of_Range
      else case sscanf_lf R tok of None \<Rightarrow> Malformed | Some d \<Rightarrow> Decoded (realValue d))"

definition double_char :: "char \<Rightarrow> bool" where
  "double_char c \<longleftrightarrow> c \<in> {CHR ''.'', CHR ''e'', CHR ''E'', CHR ''+''}"

fun looksDouble :: "string \<Rightarrow> bool" where
  "looksDouble [] = False"
| "looksDouble (c # s) = (double_char c \<or> list_ex (\<lambda>c. double_char c \<or> c = CHR ''-'') s)"

datatype scanned = Digits u32 | NotDigit | Overflows

fun scanDigits :: "u32 \<Rightarrow> u32 \<Rightarrow> string \<Rightarrow> scanned" where
  "scanDigits threshold v [] = Digits v"
| "scanDigits threshold v (c # s) =
     (if \<not> is_digit c then NotDigit
      else if threshold \<le> v then Overflows
      else scanDigits threshold (v * 10 + word_of_nat (code c - 48)) s)"

definition decodeNumber :: "'d crt \<Rightarrow> string \<Rightarrow> 'd jvalue decoded" where
  "decodeNumber R tok =
     (if looksDouble tok then decodeDouble R tok
      else
        let isNegative = (fst (getNextChar tok) = CHR ''-'');
            current = (if isNegative then tl tok else tok);
            threshold = (if isNegative then - minInt else maxUInt) div 10
        in case scanDigits threshold 0 current of
             NotDigit \<Rightarrow> Malformed
           | Overflows \<Rightarrow> decodeDouble R tok
           | Digits v \<Rightarrow>
               Decoded (if isNegative then intValue (- v)
                        else if v \<le> maxInt then intValue v
                        else uintValue v))"

definition codePointToUTF8 :: "nat \<Rightarrow> string" where
  "codePointToUTF8 cp =
     (if cp \<le> 0x7F then [char_of cp]
      else if cp \<le> 0x7FF then
        [char_of (0xC0 + cp div 64 mod 32), char_of (0x80 + cp mod 64)]
      else if cp \<le> 0xFFFF then
        [char_of (0xE0 + cp div 4096 mod 16), char_of (0x80 + cp div 64 mod 64),
         char_of (0x80 + cp mod 64)]
      else if cp \<le> 0x10FFFF then
        [char_of (0xF0 + cp div 262144 mod 8), char_of (0x80 + cp div 4096 mod 64),
         char_of (0x80 + cp div 64 mod 64), char_of (0x80 + cp mod 64)]
      else [])"

definition hex_digit :: "char \<Rightarrow> nat option" where
  "hex_digit c =
     (if is_digit c then Some (code c - 48)
      else if 97 \<le> code c \<and> code c \<le> 102 then Some (code c - 97 + 10)
      else if 65 \<le> code c \<and> code c \<le> 70 then Some (code c - 65 + 10)
      else None)"

fun hex_value :: "nat \<Rightarrow> string \<Rightarrow> nat option" where
  "hex_value u [] = Some u"
| "hex_value u (c # s) =
     (case hex_digit c of None \<Rightarrow> None | Some d \<Rightarrow> hex_value (u * 16 + d) s)"

definition decodeUnicodeEscapeSequence :: "string \<Rightarrow> (nat \<times> string) option" where
  "decodeUnicodeEscapeSequence s =
     (if length s < 4 then None
      else map_option (\<lambda>u. (u, drop 4 s)) (hex_value 0 (take 4 s)))"

definition decodeUnicodeCodePoint :: "string \<Rightarrow> (nat \<times> string) option" where
  "decodeUnicodeCodePoint s =
     (case decodeUnicodeEscapeSequence s of
        None \<Rightarrow> None
      | Some (u, s) \<Rightarrow>
          if 0xD800 \<le> u \<and> u \<le> 0xDBFF then
            if length s < 6 then None
            else if s ! 0 = BSL \<and> s ! 1 = CHR ''u'' then
              (case decodeUnicodeEscapeSequence (drop 2 s) of
                 None \<Rightarrow> None
               | Some (v, s) \<Rightarrow> Some (0x10000 + u mod 1024 * 1024 + v mod 1024, s))
            else None
          else Some (u, s))"

lemma decodeUnicodeEscapeSequence_shorter:
  "decodeUnicodeEscapeSequence s = Some (u, r) \<Longrightarrow> length r < length s"
  by (auto simp: decodeUnicodeEscapeSequence_def split: if_splits)

lemma decodeUnicodeCodePoint_shorter:
  "decodeUnicodeCodePoint s = Some (u, r) \<Longrightarrow> length r < length s"
  by (auto simp: decodeUnicodeCodePoint_def split: option.splits if_splits
      dest!: decodeUnicodeEscapeSequence_shorter)

text \<open>The characters a one-letter escape stands for.\<close>

definition simple_escape :: "char \<Rightarrow> char option" where
  "simple_escape e =
     (if e = DQ then Some DQ
      else if e = CHR ''/'' then Some (CHR ''/'')
      else if e = BSL then Some BSL
      else if e = CHR ''b'' then Some BS
      else if e = CHR ''f'' then Some FF
      else if e = CHR ''n'' then Some LF
      else if e = CHR ''r'' then Some CR
      else if e = CHR ''t'' then Some TAB
      else None)"

function decodeBody :: "string \<Rightarrow> string option" where
  "decodeBody s =
     (case s of
        [] \<Rightarrow> Some []
      | c # s \<Rightarrow>
          if c = DQ then Some []
          else if c = BSL then
            (case s of
               [] \<Rightarrow> None
             | e # s \<Rightarrow>
                 if e = CHR ''u'' then
                   (case decodeUnicodeCodePoint s of
                      None \<Rightarrow> None
                    | Some (u, s) \<Rightarrow> map_option ((@) (codePointToUTF8 u)) (decodeBody s))
                 else
                   (case simple_escape e of
                      None \<Rightarrow> None
                    | Some d \<Rightarrow> map_option ((#) d) (decodeBody s)))
          else map_option ((#) c) (decodeBody s))"
  by pat_completeness auto
termination
  by (relation "measure length") (auto dest: decodeUnicodeCodePoint_shorter)

declare decodeBody.simps [simp del]

definition decodeString :: "string \<Rightarrow> string option" where
  "decodeString tok = decodeBody (butlast (tl tok))"

section \<open>Values, objects and arrays\<close>

text \<open>
  \<open>Done ok v r\<close>: the function returned \<open>ok\<close>, left \<open>v\<close> in the value it was filling and the
  characters \<open>r\<close> unread.
\<close>

datatype 'd outcome = Done bool "'d jvalue" string | Fault fault | Diverge

text \<open>The cases of \<open>readValue\<close> that read no further token, its error case included.\<close>

definition readScalar :: "'d crt \<Rightarrow> 'd jvalue \<Rightarrow> token \<Rightarrow> string \<Rightarrow> 'd outcome" where
  "readScalar R cur tok r =
     (if fst tok = tokenNumber then
        (case decodeNumber R (snd tok) of
           Decoded v \<Rightarrow> Done True v r
         | Malformed \<Rightarrow> Done False cur r
         | Crash e \<Rightarrow> Fault e)
      else if fst tok = tokenString then
        (case decodeString (snd tok) of
           None \<Rightarrow> Done False cur r
         | Some d \<Rightarrow> Done True (Value_string d) r)
      else if fst tok = tokenTrue then Done True (booleanValue True) r
      else if fst tok = tokenFalse then Done True (booleanValue False) r
      else if fst tok = tokenNull then Done True nullValue r
      else Done False cur r)"

text \<open>
  The two halves of the loop body of \<open>readObject\<close> around the member's value: up to the
  colon behind the name, and from the token behind the value. \<open>Stop\<close> returns from
  \<open>readObject\<close>, \<open>Go\<close> goes on with the name read (or kept) and the characters left.
\<close>

datatype 'd step = Stop "'d outcome" | Go string string

definition readMemberName :: "string \<Rightarrow> (string \<times> 'd jvalue) list \<Rightarrow> string \<Rightarrow> 'd step" where
  "readMemberName name m s =
     (let (tokenName, r) = skipCommentTokens s in
      if fst tokenName = tokenObjectEnd \<and> name = [] then Stop (Done True (objectValue m) r)
      else if fst tokenName \<noteq> tokenString then
        Stop (Done False (objectValue m) (recoverFromError tokenObjectEnd r))
      else
        case decodeString (snd tokenName) of
          None \<Rightarrow> Stop (Done False (objectValue m) (recoverFromError tokenObjectEnd r))
        | Some name \<Rightarrow>
            let (colon, r) = readToken r in
            if fst colon \<noteq> tokenMemberSeparator then
              Stop (Done False (objectValue m) (recoverFromError tokenObjectEnd r))
            else Go name r)"

definition afterMember :: "string \<Rightarrow> (string \<times> 'd jvalue) list \<Rightarrow> bool \<Rightarrow> string \<Rightarrow> 'd step" where
  "afterMember name m ok r =
     (if \<not> ok then Stop (Done False (objectValue m) (recoverFromError tokenObjectEnd r))
      else
        let (comma, r) = readToken r in
        if fst comma \<noteq> tokenObjectEnd \<and> fst comma \<noteq> tokenArraySeparator
           \<and> fst comma \<noteq> tokenComment
        then Stop (Done False (objectValue m) (recoverFromError tokenObjectEnd r))
        else
          let (comma, r) = (if fst comma = tokenComment then skipCommentTokens r else (comma, r)) in
          if fst comma = tokenObjectEnd then Stop (Done True (objectValue m) r)
          else Go name r)"

text \<open>The value \<open>currentValue()[name]\<close> refers to before it is read.\<close>

definition member_of :: "(string \<times> 'd jvalue) list \<Rightarrow> string \<Rightarrow> 'd jvalue" where
  "member_of m name = (case map_of m (c_str name) of Some v \<Rightarrow> v | None \<Rightarrow> nullValue)"

function readValue :: "'d crt \<Rightarrow> nat \<Rightarrow> 'd jvalue \<Rightarrow> string \<Rightarrow> 'd outcome"
  and readObject ::
    "'d crt \<Rightarrow> nat \<Rightarrow> string \<Rightarrow> (string \<times> 'd jvalue) list \<Rightarrow> string \<Rightarrow> 'd outcome"
  and readArray :: "'d crt \<Rightarrow> nat \<Rightarrow> u32 \<Rightarrow> (int \<times> 'd jvalue) list \<Rightarrow> string \<Rightarrow> 'd outcome" where
  "readValue R 0 cur s = Diverge"
| "readValue R (Suc n) cur s =
     (let (tok, r) = skipCommentTokens s in
      if fst tok = tokenObjectBegin then readObject R n [] [] r
      else if fst tok = tokenArrayBegin then
        (if fst (getNextChar (skipSpaces r)) = CHR '']''
         then Done True (arrayValue []) (snd (readToken (skipSpaces r)))
         else readArray R n 0 [] (skipSpaces r))
      else readScalar R cur tok r)"
| "readObject R 0 name m s = Diverge"
| "readObject R (Suc n) name m s =
     (case readMemberName name m s of
        Stop res \<Rightarrow> res
      | Go name r \<Rightarrow>
          (case readValue R n (member_of m name) r of
             Done ok v r \<Rightarrow>
               (case afterMember name (map_put (c_str name) v m) ok r of
                  Stop res \<Rightarrow> res
                | Go name r \<Rightarrow> readObject R n name (map_put (c_str name) v m) r)
           | res \<Rightarrow> res))"
| "readArray R 0 index m s = Diverge"
| "readArray R (Suc n) index m s =
     (case readValue R n nullValue s of
        Done ok v r \<Rightarrow>
          (if \<not> ok then
             Done False (arrayValue (map_put (sint index) v m)) (recoverFromError tokenArrayEnd r)
           else
             let (tok, r) = skipCommentTokens r in
             if fst tok = tokenArrayEnd then Done True (arrayValue (map_put (sint index) v m)) r
             else readArray R n (index + 1) (map_put (sint index) v m) r)
      | res \<Rightarrow> res)"
  by pat_completeness auto
termination
  by (relation "measure (case_sum (\<lambda>(R, n, _). n) (case_sum (\<lambda>(R, n, _). n) (\<lambda>(R, n, _). n)))") auto

definition parse :: "'d crt \<Rightarrow> string \<Rightarrow> 'd jvalue \<Rightarrow> 'd outcome" where
  "parse R document root =
     (case readValue R (2 * length document + 1) root document of
        Done ok v r \<Rightarrow> Done ok v (snd (skipCommentTokens r))
      | res \<Rightarrow> res)"

section \<open>The descent ends\<close>

lemma skipCommentTokens_shorter:
  "skipCommentTokens s = (tok, r) \<Longrightarrow> length r < length s \<or> r = [] \<and> fst tok = tokenEndOfStream"
proof (induction s rule: skipCommentTokens.induct)
  case (1 s)
  obtain t u where t: "readToken s = (t, u)" by (cases "readToken s")
  have le: "length u < length s \<or> u = [] \<and> fst t = tokenEndOfStream"
    using readToken_shorter [of s "fst t" "snd t" u] t by simp
  show ?case
  proof (cases "fst t = tokenComment")
    case True
    then have "skipCommentTokens u = (tok, r)" using 1(2) t by (subst (asm) skipCommentTokens.simps) simp
    then have "length r < length u \<or> r = [] \<and> fst tok = tokenEndOfStream" using 1(1) t True by simp
    with le True show ?thesis by auto
  next
    case False
    with 1(2) t le show ?thesis by (subst (asm) skipCommentTokens.simps) simp
  qed
qed

lemma skipCommentTokens_le: "skipCommentTokens s = (tok, r) \<Longrightarrow> length r \<le> length s"
  using skipCommentTokens_shorter [of s tok r] by auto

lemma recoverFromError_le: "length (recoverFromError t s) \<le> length s"
proof (induction t s rule: recoverFromError.induct)
  case (1 t s)
  obtain k u where k: "readToken s = (k, u)" by (cases "readToken s")
  have le: "length u \<le> length s" using readToken_le [OF k] .
  show ?case
  proof (cases "fst k = t \<or> fst k = tokenEndOfStream")
    case True
    with k le show ?thesis by (subst recoverFromError.simps) auto
  next
    case False
    then have "length (recoverFromError t u) \<le> length u" using 1 k by auto
    with False k le show ?thesis by (subst recoverFromError.simps) auto
  qed
qed

text \<open>
  \<open>ends s res\<close>: the outcome is not \<open>Diverge\<close> and leaves no more than was there; \<open>takes\<close> adds
  that a success has consumed something.
\<close>

fun ends :: "string \<Rightarrow> 'd outcome \<Rightarrow> bool" where
  "ends s (Done ok v r) = (length r \<le> length s)"
| "ends s (Fault e) = True"
| "ends s Diverge = False"

fun takes :: "string \<Rightarrow> 'd outcome \<Rightarrow> bool" where
  "takes s (Done ok v r) = (length r \<le> length s \<and> (ok \<longrightarrow> length r < length s))"
| "takes s (Fault e) = True"
| "takes s Diverge = False"

lemma ends_mono: "ends r res \<Longrightarrow> length r \<le> length s \<Longrightarrow> ends s res"
  by (cases res) auto

lemma ends_takes: "ends r res \<Longrightarrow> length r < length s \<Longrightarrow> takes s res"
  by (cases res) auto

lemma readScalar_takes:
  assumes "length r < length s \<or> r = [] \<and> fst tok = tokenEndOfStream"
  shows "takes s (readScalar R cur tok r)"
  using assms by (auto simp: readScalar_def split: decoded.splits option.splits)

fun step_ends :: "string \<Rightarrow> 'd step \<Rightarrow> bool" where
  "step_ends s (Stop res) = ends s res"
| "step_ends s (Go name r) = (length r \<le> length s)"

lemma step_ends_mono: "step_ends r st \<Longrightarrow> length r \<le> length s \<Longrightarrow> step_ends s st"
  by (cases st) (auto intro: ends_mono)

lemma recover_ends:
  "length r \<le> length s \<Longrightarrow> step_ends s (Stop (Done ok v (recoverFromError t r)))"
  using recoverFromError_le [of t r] by simp

lemma readMemberName_ends: "step_ends s (readMemberName name m s)"
proof -
  obtain t r where t: "skipCommentTokens s = (t, r)" by (cases "skipCommentTokens s")
  obtain c u where c: "readToken r = (c, u)" by (cases "readToken r")
  have r: "length r \<le> length s" using skipCommentTokens_le [OF t] .
  have u: "length u \<le> length s" using readToken_le [OF c] r by simp
  from r u show ?thesis
    using recover_ends [OF r] recover_ends [OF u]
    by (auto simp: readMemberName_def t c split: option.splits)
qed

lemma afterMember_ends: "step_ends s (afterMember name m ok s)"
proof -
  obtain c r where c: "readToken s = (c, r)" by (cases "readToken s")
  obtain t u where t: "skipCommentTokens r = (t, u)" by (cases "skipCommentTokens r")
  have r: "length r \<le> length s" using readToken_le [OF c] .
  have u: "length u \<le> length s" using skipCommentTokens_le [OF t] r by simp
  from r u show ?thesis
    using recover_ends [OF r] recover_ends [of s s]
    by (auto simp: afterMember_def c t)
qed

lemma readArray_step:
  assumes "takes s (readValue R n nullValue s)"
    and "\<And>i m r. length r < length s \<Longrightarrow> ends r (readArray R n i m r)"
  shows "ends s (readArray R (Suc n) i m s)"
proof (cases "readValue R n nullValue s")
  case (Done ok v r)
  obtain t u where t: "skipCommentTokens r = (t, u)" by (cases "skipCommentTokens r")
  have r: "length r \<le> length s" "ok \<Longrightarrow> length r < length s" using assms(1) Done by simp_all
  have u: "length u \<le> length r" using skipCommentTokens_le [OF t] .
  show ?thesis
  proof (cases ok)
    case True
    then have "length u < length s" using r u by simp
    then show ?thesis using True Done t ends_mono [OF assms(2), of u s] by auto
  next
    case False
    then show ?thesis using Done r(1) recoverFromError_le [of tokenArrayEnd r] by auto
  qed
qed (use assms(1) in auto)

lemma readObject_step:
  assumes "\<And>cur r. length r \<le> length s \<Longrightarrow> takes r (readValue R n cur r)"
    and "\<And>name m r. length r < length s \<Longrightarrow> ends r (readObject R n name m r)"
  shows "ends s (readObject R (Suc n) name m s)"
proof (cases "readMemberName name m s")
  case (Stop res)
  then show ?thesis using readMemberName_ends [of s name m] by simp
next
  case (Go name' r)
  have r: "length r \<le> length s" using readMemberName_ends [of s name m] Go by simp
  show ?thesis
  proof (cases "readValue R n (member_of m name') r")
    case (Done ok v u)
    let ?m = "map_put (c_str name') v m"
    have u: "length u \<le> length s" "ok \<Longrightarrow> length u < length s"
      using assms(1) [OF r, of "member_of m name'"] Done r by simp_all
    show ?thesis
    proof (cases "afterMember name' ?m ok u")
      case (Stop res)
      then have "ends u res" using afterMember_ends [of u name' ?m ok] by simp
      with Stop Done Go u show ?thesis by (simp add: ends_mono)
    next
      case (Go name'' w)
      then have ok by (cases ok) (simp_all add: afterMember_def)
      moreover have "length w \<le> length u" using afterMember_ends [of u name' ?m ok] Go by simp
      ultimately have "length w < length s" using u by simp
      with assms(2) [of w name'' "map_put (c_str name'') v m"]
      show ?thesis using Go Done \<open>readMemberName name m s = step.Go name' r\<close> by (simp add: ends_mono)
    qed
  qed (use assms(1) [OF r, of "member_of m name'"] Go in auto)
qed

lemma descent_ends:
  "(\<forall>cur s. 2 * length s + 1 \<le> n \<longrightarrow> takes s (readValue R n cur s))
   \<and> (\<forall>name m s. 2 * length s + 2 \<le> n \<longrightarrow> ends s (readObject R n name m s))
   \<and> (\<forall>i m s. 2 * length s + 2 \<le> n \<longrightarrow> ends s (readArray R n i m s))"
proof (induction n)
  case 0
  then show ?case by simp
next
  case (Suc n)
  have V: "takes s (readValue R n cur s)" if "2 * length s + 1 \<le> n" for cur s
    using Suc.IH that by blast
  have O: "ends s (readObject R n name m s)" if "2 * length s + 2 \<le> n" for name m s
    using Suc.IH that by blast
  have A: "ends s (readArray R n i m s)" if "2 * length s + 2 \<le> n" for i m s
    using Suc.IH that by blast
  have "takes s (readValue R (Suc n) cur s)" if n: "2 * length s + 1 \<le> Suc n" for cur s
  proof -
    obtain t r where t: "skipCommentTokens s = (t, r)" by (cases "skipCommentTokens s")
    have r: "length r < length s \<or> r = [] \<and> fst t = tokenEndOfStream"
      using skipCommentTokens_shorter [OF t] .
    obtain c u where c: "readToken (skipSpaces r) = (c, u)" by (cases "readToken (skipSpaces r)")
    have u: "length u \<le> length r" using readToken_le [OF c] skipSpaces_le [of r] by linarith
    have ob: "takes s (readObject R n [] [] r)" if "length r < length s"
      using O [of r] n that by (intro ends_takes) auto
    have ar: "takes s (readArray R n 0 [] (skipSpaces r))" if "length r < length s"
    proof -
      have sp: "length (skipSpaces r) < length s" using le_less_trans [OF skipSpaces_le that] .
      with n have "ends (skipSpaces r) (readArray R n 0 [] (skipSpaces r))" by (intro A) simp
      then show ?thesis using sp by (rule ends_takes)
    qed
    show ?thesis using r u ob ar t c readScalar_takes [OF r] by auto
  qed
  moreover have "ends s (readObject R (Suc n) name m s)" if "2 * length s + 2 \<le> Suc n" for name m s
    using that by (intro readObject_step V O) auto
  moreover have "ends s (readArray R (Suc n) i m s)" if "2 * length s + 2 \<le> Suc n" for i m s
    using that by (intro readArray_step V A) auto
  ultimately show ?case by blast
qed

section \<open>What is read is well formed\<close>

text \<open>The only fault is the buffer of \<open>decodeDouble\<close>.\<close>

fun wf_outcome :: "'d outcome \<Rightarrow> bool" where
  "wf_outcome (Done ok v r) = wf_value v"
| "wf_outcome (Fault e) = (e = Out_Of_Range)"
| "wf_outcome Diverge = True"

fun wf_step :: "'d step \<Rightarrow> bool" where
  "wf_step (Stop res) = wf_outcome res"
| "wf_step (Go name r) = True"

lemma wf_readScalar: "wf_value cur \<Longrightarrow> wf_outcome (readScalar R cur tok r)"
  by (auto simp: readScalar_def decodeNumber_def decodeDouble_def Let_def
      split: decoded.splits option.splits scanned.splits if_splits)

lemma wf_readMemberName: "wf_value (objectValue m) \<Longrightarrow> wf_step (readMemberName name m s)"
  by (auto simp: readMemberName_def Let_def split: prod.splits option.splits)

lemma wf_afterMember: "wf_value (objectValue m) \<Longrightarrow> wf_step (afterMember name m ok s)"
  by (simp add: afterMember_def Let_def split: prod.splits)

lemma wf_member_put:
  "wf_value (objectValue m) \<Longrightarrow> wf_value v \<Longrightarrow> wf_value (objectValue (map_put (c_str k) v m))"
  by (simp add: list_all_map_put)

lemma wf_element_put:
  "wf_value (arrayValue m) \<Longrightarrow> wf_value v \<Longrightarrow> wf_value (arrayValue (map_put (sint (i :: i32)) v m))"
  by (simp add: list_all_map_put)

lemma wf_member_of: "wf_value (objectValue m) \<Longrightarrow> wf_value (member_of m k)"
  by (auto simp: member_of_def split: option.splits dest: list_all_map_of)

lemma wf_descent:
  "(\<forall>cur s. wf_value cur \<longrightarrow> wf_outcome (readValue R n cur s))
   \<and> (\<forall>name m s. wf_value (objectValue m) \<longrightarrow> wf_outcome (readObject R n name m s))
   \<and> (\<forall>i m s. wf_value (arrayValue m) \<longrightarrow> wf_outcome (readArray R n i m s))"
proof (induction n)
  case 0
  then show ?case by simp
next
  case (Suc n)
  have V: "wf_outcome (readValue R n cur s)" if "wf_value cur" for cur s
    using Suc.IH that by blast
  have O: "wf_outcome (readObject R n name m s)" if "wf_value (objectValue m)" for name m s
    using Suc.IH that by blast
  have A: "wf_outcome (readArray R n i m s)" if "wf_value (arrayValue m)" for i m s
    using Suc.IH that by blast
  have "wf_outcome (readValue R (Suc n) cur s)" if "wf_value cur" for cur s
    using that by (auto simp: O A wf_readScalar split: prod.splits)
  moreover have "wf_outcome (readObject R (Suc n) name m s)" if m: "wf_value (objectValue m)" for name m s
  proof (cases "readMemberName name m s")
    case (Stop res)
    then show ?thesis using wf_readMemberName [OF m, of name s] by simp
  next
    case (Go k r)
    show ?thesis
    proof (cases "readValue R n (member_of m k) r")
      case (Done ok v u)
      then have v: "wf_value v" using V [OF wf_member_of [OF m], of k r] by simp
      show ?thesis
        using Go Done wf_afterMember [OF wf_member_put [OF m v, of k], of k ok u] O [OF wf_member_put [OF m v]]
        by (auto simp del: wf_value.simps split: step.splits)
    qed (use Go V [OF wf_member_of [OF m], of k r] in auto)
  qed
  moreover have "wf_outcome (readArray R (Suc n) i m s)" if m: "wf_value (arrayValue m)" for i m s
  proof (cases "readValue R n nullValue s")
    case (Done ok v u)
    then have v: "wf_value v" using V [of nullValue s] by simp
    show ?thesis
      using Done wf_element_put [OF m v, of i] A [OF wf_element_put [OF m v]]
      by (auto simp del: wf_value.simps split: prod.splits)
  qed (use V [of nullValue s] in auto)
  ultimately show ?case by blast
qed

lemma parse_descends: "takes document (readValue R (2 * length document + 1) root document)"
  using descent_ends [of "2 * length document + 1" R] by blast

lemma parse_fills: "wf_value root \<Longrightarrow> wf_outcome (readValue R (2 * length document + 1) root document)"
  using wf_descent [of R "2 * length document + 1"] by blast

text \<open>
  C12: \<open>Reader::parse\<close> returns on every document: the fuel of the model is never used up, and
  what is left unread is no longer than the document.
\<close>

theorem parse_returns: "parse R document root \<noteq> Diverge \<and> ends document (parse R document root)"
proof (cases "readValue R (2 * length document + 1) root document")
  case (Done ok v r)
  obtain t u where t: "skipCommentTokens r = (t, u)" by (cases "skipCommentTokens r")
  have "length r \<le> length document" using parse_descends [of document R root] Done by (simp only: takes.simps)
  with skipCommentTokens_le [OF t] show ?thesis unfolding parse_def Done by (simp add: t)
next
  case (Fault e)
  then show ?thesis unfolding parse_def Fault by simp
next
  case Diverge
  then show ?thesis using parse_descends [of document R root] by (simp only: takes.simps)
qed


end
