(* ===== verification/Json_Roundtrip.thy ===== *)
theory Json_Roundtrip
  imports Json_Reader
begin

text \<open>
  What \<open>FastWriter\<close> writes, \<open>Reader\<close> reads back: the scalars first, then the tokens, then
  arrays and objects. The reader distinguishes fewer numbers than the writer: an unsigned
  value that fits an \<open>int\<close> comes back as an \<open>int\<close> (\<open>canon\<close>), and integers within ten of the
  ends of their range come back as \<open>double\<close>, which \<open>printable\<close> leaves out.
\<close>

section \<open>Digits\<close>

lemma code_char_of [simp]: "n < 256 \<Longrightarrow> code (char_of n) = n"
  by simp

lemma code_digit_char [simp]: "d < 10 \<Longrightarrow> code (digit_char d) = 48 + d"
  by (simp add: digit_char_def)

lemma is_digit_digit_char [simp]: "d < 10 \<Longrightarrow> is_digit (digit_char d)"
  by (simp add: is_digit_def)

lemma uintToString_append: "uintToString n cur = uintToString n [] @ cur"
proof (induction n arbitrary: cur rule: less_induct)
  case (less n)
  show ?case
  proof (cases "n div 10 = 0")
    case True
    then show ?thesis by (simp add: uintToString.simps [of n])
  next
    case False
    then have "n div 10 < n" by simp
    then show ?thesis
      using False less.IH [of "n div 10" "digit_char (n mod 10) # cur"]
        less.IH [of "n div 10" "[digit_char (n mod 10)]"]
      by (simp add: uintToString.simps [of n])
  qed
qed

lemma uintToString_snoc:
  "uintToString n [] = (if n div 10 \<noteq> 0 then uintToString (n div 10) [] else []) @ [digit_char (n mod 10)]"
  by (subst uintToString.simps) (simp add: uintToString_append [of "n div 10" "[digit_char (n mod 10)]"])

lemma uintToString_nonempty [simp]: "uintToString n [] \<noteq> []"
  by (subst uintToString_snoc) simp

lemma uintToString_digits: "list_all is_digit (uintToString n [])"
proof (induction n rule: less_induct)
  case (less n)
  show ?case
    by (subst uintToString_snoc) (use less.IH [of "n div 10"] in auto)
qed

text \<open>Ten digits are enough, so the 32-byte buffer of \<open>valueToString\<close> is never left.\<close>

lemma length_uintToString: "n < 10 ^ Suc k \<Longrightarrow> length (uintToString n []) \<le> Suc k"
proof (induction k arbitrary: n)
  case 0
  then show ?case by (subst uintToString_snoc) simp
next
  case (Suc k)
  then have "n div 10 < 10 ^ Suc k" by simp
  with Suc.IH show ?case by (subst uintToString_snoc) simp
qed

lemma scanDigits_append:
  "scanDigits t v (xs @ ys) = (case scanDigits t v xs of Digits w \<Rightarrow> scanDigits t w ys | res \<Rightarrow> res)"
  by (induction t v xs rule: scanDigits.induct) auto

lemma scanDigits_uintToString:
  "n < 2 ^ 32 \<Longrightarrow> n div 10 < unat t \<Longrightarrow> scanDigits t 0 (uintToString n []) = Digits (word_of_nat n)"
proof (induction n rule: less_induct)
  case (less n)
  have m: "n mod 10 < 10" by simp
  show ?case
  proof (cases "n div 10 = 0")
    case True
    with less.prems m show ?thesis
      by (subst uintToString_snoc) (simp add: word_le_nat_alt)
  next
    case False
    then have lt: "n div 10 < n" by simp
    have small: "n div 10 < 2 ^ 32" using less.prems lt by linarith
    have "n div 10 div 10 < unat t" using less.prems by linarith
    with lt small have IH: "scanDigits t 0 (uintToString (n div 10) []) = Digits (word_of_nat (n div 10))"
      by (rule less.IH)
    have below: "\<not> t \<le> word_of_nat (n div 10)"
      using less.prems small by (simp add: word_le_nat_alt unat_of_nat)
    have "word_of_nat (n div 10) * 10 + word_of_nat (n mod 10) = (word_of_nat n :: u32)"
      by (metis div_mult_mod_eq of_nat_add of_nat_mult of_nat_numeral)
    then show ?thesis
      using False IH below m by (subst uintToString_snoc) (simp add: scanDigits_append)
  qed
qed

section \<open>Numbers\<close>

lemma digit_not [simp]: "is_digit c \<Longrightarrow> c \<noteq> CHR ''-''" "is_digit c \<Longrightarrow> \<not> double_char c"
  by (auto simp: is_digit_def double_char_def)

lemma looksDouble_digits: "list_all is_digit s \<Longrightarrow> \<not> looksDouble s"
  by (cases s) (auto simp: list_all_iff list_ex_iff)

lemma looksDouble_neg_digits: "list_all is_digit s \<Longrightarrow> \<not> looksDouble (CHR ''-'' # s)"
  using digit_not by (auto simp: list_all_iff list_ex_iff double_char_def [of "CHR ''-''"])

lemma hd_digits: "list_all is_digit s \<Longrightarrow> s \<noteq> [] \<Longrightarrow> fst (getNextChar s) \<noteq> CHR ''-''"
  by (cases s) auto

lemma maxUInt_div: "unat (maxUInt div 10) = 429496729"
  by (simp add: maxUInt_def unat_div)

lemma minInt_val: "minInt = 0x80000000"
  by (simp add: minInt_def)

lemma maxInt_val: "maxInt = 0x7FFFFFFF"
  by (simp add: maxInt_def)

lemma minInt_div: "unat (- minInt div 10) = 214748364"
  by (simp add: minInt_val unat_div)

lemma decodeNumber_UInt:
  assumes "uint u < 4294967290"
  shows "decodeNumber R (valueToString_UInt u) = Decoded (if u \<le> maxInt then intValue u else uintValue u)"
proof -
  let ?s = "uintToString (unat u) []"
  have digits: "list_all is_digit ?s" by (rule uintToString_digits)
  have "int (unat u) < 4294967290" using assms by simp
  then have u: "unat u < 4294967290" by linarith
  then have "unat u < 2 ^ 32" by simp
  moreover have "unat u div 10 < unat (maxUInt div 10)" using u by (simp add: maxUInt_div)
  ultimately have "scanDigits (maxUInt div 10) 0 ?s = Digits u"
    by (simp add: scanDigits_uintToString)
  with digits show ?thesis
    by (simp add: valueToString_UInt_def decodeNumber_def looksDouble_digits hd_digits Let_def)
qed

lemma unat_word_of_int: "int (unat (word_of_int k :: u32)) = k mod 4294967296"
  by (simp add: uint_word_of_int)

lemma unat_neg_of_negative: "sint (i :: i32) < 0 \<Longrightarrow> int (unat (- i)) = - sint i"
  using int_range_sint [of i] unat_word_of_int [of "- sint i"] by (simp add: int_range_def)

lemma unat_nonnegative: "0 \<le> sint (i :: i32) \<Longrightarrow> int (unat i) = sint i"
  using int_range_sint [of i] unat_word_of_int [of "sint i"] by (simp add: int_range_def)

lemma decodeNumber_Int:
  assumes "- 2147483640 < sint i"
  shows "decodeNumber R (valueToString_Int i) = Decoded (intValue i)"
proof (cases "sint i < 0")
  case True
  let ?n = "unat (- i)"
  let ?s = "uintToString ?n []"
  have n: "?n < 2147483640" using unat_neg_of_negative [OF True] assms by linarith
  have digits: "list_all is_digit ?s" by (rule uintToString_digits)
  have "scanDigits (- minInt div 10) 0 ?s = Digits (- i)"
    using scanDigits_uintToString [of ?n "- minInt div 10"] n by (simp add: minInt_div)
  with digits True show ?thesis
    by (simp add: valueToString_Int_def decodeNumber_def looksDouble_neg_digits Let_def del: looksDouble.simps)
next
  case False
  then have i: "int (unat i) < 2147483648"
    using unat_nonnegative [of i] int_range_sint [of i] by (simp add: int_range_def)
  then have "unat i < 2147483648" by linarith
  then have "i \<le> maxInt" by (simp add: maxInt_val word_le_nat_alt)
  moreover have "uint i < 4294967290" using i by simp
  ultimately show ?thesis
    using False decodeNumber_UInt [of i R] by (simp add: valueToString_Int_def valueToString_UInt_def)
qed

section \<open>Strings\<close>

text \<open>The two paths of \<open>valueToQuotedString\<close> agree: the first is only faster.\<close>

lemma escape_char_plain:
  "c \<notin> {DQ, BSL, BS, FF, LF, CR, TAB} \<Longrightarrow> \<not> isControlCharacter c \<Longrightarrow> escape_char c = [c]"
  by (simp add: escape_char_def)

lemma concat_map_singleton: "(\<And>x. x \<in> set xs \<Longrightarrow> f x = [x]) \<Longrightarrow> concat (map f xs) = xs"
  by (induction xs) auto

lemma valueToQuotedString_walk:
  "valueToQuotedString s = DQ # concat (map escape_char (c_str s)) @ [DQ]"
proof (cases "list_ex (\<lambda>c. c \<in> {DQ, BSL, BS, FF, LF, CR, TAB}) (c_str s) \<or> containsControlCharacter s")
  case True
  then show ?thesis by (auto simp: valueToQuotedString_def)
next
  case False
  then have "concat (map escape_char (c_str s)) = c_str s"
    by (intro concat_map_singleton escape_char_plain) (auto simp: list_ex_iff containsControlCharacter_def)
  with False show ?thesis by (simp add: valueToQuotedString_def)
qed

text \<open>How many characters an escape has, and which.\<close>

lemma control_code: "isControlCharacter c \<Longrightarrow> code c div 16 < 2 \<and> code c mod 16 < 16"
  by (auto simp: isControlCharacter_def)

lemma hex_digit_upper: "d < 16 \<Longrightarrow> hex_digit (hex_upper d) = Some d"
  by (simp add: hex_digit_def hex_upper_def is_digit_def)

lemma hex_upper_plain: "d < 16 \<Longrightarrow> hex_upper d \<noteq> BSL \<and> hex_upper d \<noteq> DQ"
  using hex_digit_upper [of d] by (auto simp: hex_digit_def is_digit_def split: if_splits)

text \<open>One escape is read as a whole; the character read last only matters at the end.\<close>

lemma readString_letters:
  "x \<in> {DQ, BSL, BS, FF, LF, CR, TAB} \<Longrightarrow> readString c (escape_char x @ y # s) = readString NUL (y # s)"
  by (auto simp: escape_char_def)

lemma readString_control:
  assumes "h \<notin> {BSL, DQ}" and "k \<notin> {BSL, DQ}"
  shows "readString c ([BSL, CHR ''u'', CHR ''0'', CHR ''0'', h, k] @ y # s) = readString NUL (y # s)"
  using assms by simp

lemma escape_char_control:
  assumes "x \<notin> {DQ, BSL, BS, FF, LF, CR, TAB}" and "isControlCharacter x"
  shows "escape_char x =
    [BSL, CHR ''u'', CHR ''0'', CHR ''0'', hex_upper (code x div 16), hex_upper (code x mod 16)]"
  using assms by (simp add: escape_char_def)

lemma readString_escape: "readString c (escape_char x @ y # s) = readString NUL (y # s)"
proof (cases "x \<in> {DQ, BSL, BS, FF, LF, CR, TAB}")
  case True
  then show ?thesis by (rule readString_letters)
next
  case False
  show ?thesis
  proof (cases "isControlCharacter x")
    case True
    have "hex_upper (code x div 16) \<notin> {BSL, DQ}" "hex_upper (code x mod 16) \<notin> {BSL, DQ}"
      using control_code [OF True] by (simp_all add: hex_upper_plain)
    then show ?thesis
      unfolding escape_char_control [OF False True] by (rule readString_control)
  next
    case plain: False
    from False have "escape_char x = [x]" by (rule escape_char_plain [OF _ plain])
    with False show ?thesis by simp
  qed
qed

lemma readString_body: "readString c (concat (map escape_char s) @ DQ # r) = (True, r)"
proof (induction s arbitrary: c)
  case (Cons x s)
  obtain y t where y: "concat (map escape_char s) @ DQ # r = y # t"
    by (cases "concat (map escape_char s) @ DQ # r") auto
  then have "readString c (concat (map escape_char (x # s)) @ DQ # r) = readString NUL (y # t)"
    by (simp only: list.map concat.simps append_assoc readString_escape)
  with Cons.IH [of NUL] y show ?case by simp
qed simp

lemma decodeBody_Nil [simp]: "decodeBody [] = Some []"
  by (simp add: decodeBody.simps)

lemma decodeBody_simple:
  "simple_escape e = Some d \<Longrightarrow> decodeBody (BSL # e # s) = map_option ((#) d) (decodeBody s)"
  by (subst decodeBody.simps) (auto simp: simple_escape_def split: if_splits)

lemma decodeBody_plain:
  "c \<noteq> DQ \<Longrightarrow> c \<noteq> BSL \<Longrightarrow> decodeBody (c # s) = map_option ((#) c) (decodeBody s)"
  by (subst decodeBody.simps) simp

lemma decodeBody_control:
  assumes "isControlCharacter c"
  shows "decodeBody ([BSL, CHR ''u'', CHR ''0'', CHR ''0'', hex_upper (code c div 16), hex_upper (code c mod 16)] @ s)
    = map_option ((#) c) (decodeBody s)"
proof -
  let ?u = "[CHR ''0'', CHR ''0'', hex_upper (code c div 16), hex_upper (code c mod 16)]"
  have z: "hex_digit CHR ''0'' = Some 0" by (simp add: hex_digit_def is_digit_def)
  have "hex_value 0 ?u = Some (code c)"
    using control_code [OF assms] by (simp add: z hex_digit_upper)
  then have "decodeUnicodeEscapeSequence (?u @ s) = Some (code c, s)"
    by (simp add: decodeUnicodeEscapeSequence_def)
  moreover have "code c \<le> 31" using assms by (simp add: isControlCharacter_def)
  ultimately have "decodeUnicodeCodePoint (?u @ s) = Some (code c, s)" "codePointToUTF8 (code c) = [c]"
    by (simp_all add: decodeUnicodeCodePoint_def codePointToUTF8_def)
  moreover have "(@) [c] = (#) c" by (rule ext) simp
  ultimately show ?thesis by (subst decodeBody.simps) simp
qed

lemma decodeBody_letters:
  "decodeBody (BSL # DQ # s) = map_option ((#) DQ) (decodeBody s)"
  "decodeBody (BSL # BSL # s) = map_option ((#) BSL) (decodeBody s)"
  "decodeBody (BSL # CHR ''b'' # s) = map_option ((#) BS) (decodeBody s)"
  "decodeBody (BSL # CHR ''f'' # s) = map_option ((#) FF) (decodeBody s)"
  "decodeBody (BSL # CHR ''n'' # s) = map_option ((#) LF) (decodeBody s)"
  "decodeBody (BSL # CHR ''r'' # s) = map_option ((#) CR) (decodeBody s)"
  "decodeBody (BSL # CHR ''t'' # s) = map_option ((#) TAB) (decodeBody s)"
  by (rule decodeBody_simple, simp add: simple_escape_def)+

lemma decodeBody_escape: "decodeBody (escape_char c @ s) = map_option ((#) c) (decodeBody s)"
proof (cases "c \<in> {DQ, BSL, BS, FF, LF, CR, TAB}")
  case True
  then show ?thesis by (auto simp: escape_char_def decodeBody_letters)
next
  case False
  show ?thesis
  proof (cases "isControlCharacter c")
    case True
    show ?thesis
      unfolding escape_char_control [OF False True] by (rule decodeBody_control [OF True])
  next
    case plain: False
    from False have "escape_char c = [c]" by (rule escape_char_plain [OF _ plain])
    with False show ?thesis by (simp add: decodeBody_plain)
  qed
qed

lemma decodeBody_escaped: "decodeBody (concat (map escape_char s)) = Some s"
  by (induction s) (simp_all add: decodeBody_escape)

lemma decodeString_quoted: "decodeString (valueToQuotedString s) = Some (c_str s)"
  by (simp add: decodeString_def valueToQuotedString_walk decodeBody_escaped butlast_append)

section \<open>Tokens\<close>

lemma readToken_scanned:
  "\<not> is_space c \<Longrightarrow> scanToken c (u @ r) = (t, r) \<Longrightarrow> readToken (c # u @ r) = ((t, c # u), r)"
  by (simp add: readToken_def skipSpaces_def)

lemma skipCommentTokens_plain:
  "readToken s = (tok, r) \<Longrightarrow> fst tok \<noteq> tokenComment \<Longrightarrow> skipCommentTokens s = (tok, r)"
  by (subst skipCommentTokens.simps) simp

lemma readToken_punctuation [simp]:
  "readToken (CHR ''{'' # r) = ((tokenObjectBegin, ''{''), r)"
  "readToken (CHR ''}'' # r) = ((tokenObjectEnd, ''}''), r)"
  "readToken (CHR ''['' # r) = ((tokenArrayBegin, ''[''), r)"
  "readToken (CHR '']'' # r) = ((tokenArrayEnd, '']''), r)"
  "readToken (CHR '','' # r) = ((tokenArraySeparator, '',''), r)"
  "readToken (CHR '':'' # r) = ((tokenMemberSeparator, '':''), r)"
  by (rule readToken_scanned [where u = "[]", simplified],
      simp add: is_space_def, simp add: scanToken_def is_digit_def)+

lemma skipCommentTokens_punctuation [simp]:
  "skipCommentTokens (CHR ''{'' # r) = ((tokenObjectBegin, ''{''), r)"
  "skipCommentTokens (CHR ''}'' # r) = ((tokenObjectEnd, ''}''), r)"
  "skipCommentTokens (CHR ''['' # r) = ((tokenArrayBegin, ''[''), r)"
  "skipCommentTokens (CHR '']'' # r) = ((tokenArrayEnd, '']''), r)"
  "skipCommentTokens (CHR '','' # r) = ((tokenArraySeparator, '',''), r)"
  by (rule skipCommentTokens_plain, simp, simp)+

lemma readToken_null: "readToken (''null'' @ r) = ((tokenNull, ''null''), r)"
  using readToken_scanned [of "CHR ''n''" "''ull''" r tokenNull]
  by (simp add: is_space_def scanToken_def token_ok_def is_digit_def match_def)

lemma readToken_bool:
  "readToken (valueToString_bool b @ r) = ((if b then tokenTrue else tokenFalse, valueToString_bool b), r)"
  using readToken_scanned [of "CHR ''t''" "''rue''" r tokenTrue]
    readToken_scanned [of "CHR ''f''" "''alse''" r tokenFalse]
  by (simp add: is_space_def scanToken_def token_ok_def is_digit_def match_def valueToString_bool_def)

lemma readToken_quoted:
  "readToken (valueToQuotedString s @ r) = ((tokenString, valueToQuotedString s), r)"
proof -
  let ?u = "concat (map escape_char (c_str s)) @ [DQ]"
  have "scanToken DQ (?u @ r) = (tokenString, r)"
    using readString_body [of NUL "c_str s" r] by (simp add: scanToken_def token_ok_def)
  moreover have "\<not> is_space DQ" by (simp add: is_space_def)
  ultimately have "readToken (DQ # ?u @ r) = ((tokenString, DQ # ?u), r)" by (intro readToken_scanned)
  then show ?thesis by (simp add: valueToQuotedString_walk)
qed

text \<open>What may follow a number for its token to end there.\<close>

fun delimited :: "string \<Rightarrow> bool" where
  "delimited [] = True"
| "delimited (c # s) = (\<not> number_char c)"

definition number_text :: "string \<Rightarrow> bool" where
  "number_text s \<longleftrightarrow>
     s \<noteq> [] \<and> (is_digit (hd s) \<or> hd s = CHR ''-'') \<and> list_all number_char (tl s)"

lemma readNumber_delimited: "list_all number_char u \<Longrightarrow> delimited r \<Longrightarrow> readNumber (u @ r) = r"
  by (cases r) (auto simp: readNumber_def list_all_iff dropWhile_append2)

lemma digit_code: "is_digit c \<Longrightarrow> 48 \<le> code c \<and> code c \<le> 57"
  by (simp add: is_digit_def)

lemma number_start:
  assumes "is_digit c \<or> c = CHR ''-''"
  shows "c \<notin> {CHR ''{'', CHR ''}'', CHR ''['', CHR '']'', DQ, CHR ''/'', CHR '' '', TAB, CR, LF}"
  using assms by (auto simp: is_digit_def)

lemma readToken_number:
  assumes "number_text s" and "delimited r"
  shows "readToken (s @ r) = ((tokenNumber, s), r)"
proof -
  obtain c u where s: "s = c # u" using assms by (cases s) (auto simp: number_text_def)
  then have c: "is_digit c \<or> c = CHR ''-''" and u: "list_all number_char u"
    using assms by (auto simp: number_text_def)
  have "scanToken c (u @ r) = (tokenNumber, r)"
    using number_start [OF c] c readNumber_delimited [OF u assms(2)] by (simp add: scanToken_def)
  moreover have "\<not> is_space c" using number_start [OF c] by (simp add: is_space_def)
  ultimately show ?thesis unfolding s append_Cons by (intro readToken_scanned)
qed

lemma number_text_digits: "list_all is_digit s \<Longrightarrow> s \<noteq> [] \<Longrightarrow> number_text s"
  by (cases s) (auto simp: number_text_def number_char_def list_all_iff)

lemma number_text_neg: "list_all is_digit s \<Longrightarrow> number_text (CHR ''-'' # s)"
  by (auto simp: number_text_def number_char_def list_all_iff)

lemma number_text_Int: "number_text (valueToString_Int i)"
  by (simp add: valueToString_Int_def Let_def number_text_digits number_text_neg uintToString_digits)

lemma number_text_UInt: "number_text (valueToString_UInt u)"
  by (simp add: valueToString_UInt_def number_text_digits uintToString_digits)

section \<open>Values that survive\<close>

fun canon :: "'d jvalue \<Rightarrow> 'd jvalue" where
  "canon (uintValue u) = (if u \<le> maxInt then intValue u else uintValue u)"
| "canon (arrayValue m) = arrayValue (map (\<lambda>e. (fst e, canon (snd e))) m)"
| "canon (objectValue m) = objectValue (map (\<lambda>e. (fst e, canon (snd e))) m)"
| "canon v = v"

text \<open>
  \<open>printable\<close> asks of a \<open>double\<close> that the C library reads back what it printed, of an array
  that it has no holes (those come back as null), and of the keys of an object that they are
  in order, as they are in every \<open>Json::Value\<close>.
\<close>

fun printable :: "'d crt \<Rightarrow> 'd jvalue \<Rightarrow> bool" where
  "printable R nullValue = True"
| "printable R (intValue i) = (- 2147483640 < sint i)"
| "printable R (uintValue u) = (uint u < 4294967290)"
| "printable R (realValue d) =
     (number_text (valueToString_double R d)
      \<and> decodeNumber R (valueToString_double R d) = Decoded (realValue d))"
| "printable R (stringValue s) = nul_free s"
| "printable R (booleanValue b) = True"
| "printable R (arrayValue m) =
     (dense m \<and> int (length m) < 2147483648 \<and> list_all (\<lambda>e. printable R (snd e)) m)"
| "printable R (objectValue m) =
     (map_ok m \<and> list_all (\<lambda>e. nul_free (fst e) \<and> printable R (snd e)) m)"

definition array_of :: "'a list \<Rightarrow> (int \<times> 'a) list" where
  "array_of xs = zip (map int [0..<length xs]) xs"

lemma array_of_snoc: "array_of (xs @ [x]) = array_of xs @ [(int (length xs), x)]"
  by (simp add: array_of_def)

lemma dense_array_of [simp]: "dense (array_of xs)" "length (array_of xs) = length xs"
  by (simp_all add: array_of_def dense_def)

lemma array_of_elems: "dense m \<Longrightarrow> array_of (map f (map snd m)) = map (\<lambda>e. (fst e, f (snd e))) m"
proof -
  assume "dense m"
  then have "array_of (map f (map snd m)) = zip (map fst m) (map f (map snd m))"
    by (simp add: array_of_def dense_def)
  also have "\<dots> = map (\<lambda>e. (fst e, f (snd e))) m" by (induction m) auto
  finally show ?thesis .
qed

lemma map_of_dense: "dense m \<Longrightarrow> i < length m \<Longrightarrow> map_of m (int i) = Some (snd (m ! i))"
proof -
  assume d: "dense m" and i: "i < length m"
  then have "distinct (map fst m)" by (simp add: dense_def distinct_map)
  moreover from i d have "fst (m ! i) = int i"
    using nth_map [OF i, of fst] by (simp add: dense_def)
  ultimately show ?thesis using i by (metis map_of_eq_Some_iff nth_mem prod.collapse)
qed

lemma writeValue_dense:
  assumes "dense m" and "length m < 2 ^ 31"
  shows "writeValue R y (arrayValue m) = ''['' @ join (map (writeValue R y) (map snd m)) @ '']''"
proof -
  let ?texts = "map (\<lambda>e. (fst e, writeValue R y (snd e))) m"
  have d: "dense ?texts" using assms(1) by (simp add: dense_def comp_def)
  have "map (\<lambda>i. case map_of ?texts (int i) of Some t \<Rightarrow> t | None \<Rightarrow> ''null'') [0..<length m]
      = map (writeValue R y) (map snd m)"
    by (rule nth_equalityI) (simp_all add: map_of_dense [OF d])
  moreover have "nat (sint (size_of (arrayValue m))) = length m"
    using sint_word_of_nat [OF assms(2)] by (simp only: dense_size_of [OF assms(1)] nat_int)
  ultimately show ?thesis by (simp only: writeValue.simps Let_def)
qed

definition entry_text :: "'d crt \<Rightarrow> string \<times> 'd jvalue \<Rightarrow> string" where
  "entry_text R e = valueToQuotedString (fst e) @ CHR '':'' # writeValue R False (snd e)"

lemma writeValue_object:
  assumes "map_ok m"
  shows "writeValue R False (objectValue m) = ''{'' @ join (map (entry_text R) m) @ ''}''"
proof -
  let ?texts = "map (\<lambda>e. (fst e, writeValue R False (snd e))) m"
  have "map_of ?texts (fst e) = Some (writeValue R False (snd e))" if "e \<in> set m" for e
    using assms that by (intro map_ok_lookup) (auto simp: map_ok_def comp_def)
  then have "map (\<lambda>k. valueToQuotedString k @ '':'' @ (case map_of ?texts k of Some t \<Rightarrow> t | None \<Rightarrow> ''null'')) (map fst m)
      = map (entry_text R) m"
    by (simp add: entry_text_def)
  then show ?thesis by (simp only: writeValue.simps Let_def if_False)
qed

section \<open>Reading back\<close>

text \<open>What it is for a value to be read back whatever follows it.\<close>

definition reads_back :: "'d crt \<Rightarrow> 'd jvalue \<Rightarrow> bool" where
  "reads_back R v \<longleftrightarrow>
     (\<forall>n cur r. delimited r \<longrightarrow> length (writeValue R False v) < n \<longrightarrow>
        readValue R n cur (writeValue R False v @ r) = Done True (canon v) r)"

lemma reads_backD:
  "reads_back R v \<Longrightarrow> delimited r \<Longrightarrow> length (writeValue R False v) < n \<Longrightarrow>
   readValue R n cur (writeValue R False v @ r) = Done True (canon v) r"
  by (simp add: reads_back_def)

lemma readValue_scalar:
  assumes "readToken s = (tok, r)" and "fst tok \<notin> {tokenComment, tokenObjectBegin, tokenArrayBegin}"
  shows "readValue R (Suc n) cur s = readScalar R cur tok r"
  using skipCommentTokens_plain [OF assms(1)] assms(2) by simp

lemma reads_back_scalar:
  assumes "\<And>r. delimited r \<Longrightarrow> readToken (writeValue R False v @ r) = ((t, writeValue R False v), r)"
    and "t \<notin> {tokenComment, tokenObjectBegin, tokenArrayBegin}"
    and "\<And>cur r. readScalar R cur (t, writeValue R False v) r = Done True (canon v) r"
  shows "reads_back R v"
  unfolding reads_back_def
proof (intro allI impI)
  fix n cur r
  assume "delimited r" and n: "length (writeValue R False v) < n"
  from n obtain k where "n = Suc k" by (cases n) auto
  then have "readValue R n cur (writeValue R False v @ r) = readScalar R cur (t, writeValue R False v) r"
    using assms(2) by (simp only:) (rule readValue_scalar [OF assms(1) [OF \<open>delimited r\<close>]], simp)
  then show "readValue R n cur (writeValue R False v @ r) = Done True (canon v) r"
    by (simp only: assms(3))
qed

lemma delimited_punctuation [simp]:
  "\<not> number_char CHR '']''" "\<not> number_char CHR ''}''" "\<not> number_char CHR '',''"
  by (simp_all add: number_char_def is_digit_def)

lemma word_of_nat_Suc: "word_of_nat n + 1 = (word_of_nat (Suc n) :: u32)"
  by simp

lemma array_of_put:
  "length us < 2 ^ 31 \<Longrightarrow> map_put (sint (word_of_nat (length us) :: i32)) v (array_of us) = array_of (us @ [v])"
  using dense_put [of "array_of us" v] by (simp only: sint_word_of_nat dense_array_of array_of_snoc)

lemma readArray_elements:
  assumes "\<And>v. v \<in> set vs \<Longrightarrow> reads_back R v" and "vs \<noteq> []" and "length us + length vs < 2 ^ 31"
    and "Suc (length (join (map (writeValue R False) vs))) < n"
  shows "readArray R n (word_of_nat (length us)) (array_of us)
           (join (map (writeValue R False) vs) @ CHR '']'' # r)
         = Done True (arrayValue (array_of (us @ map canon vs))) r"
  using assms
proof (induction vs arbitrary: us n)
  case (Cons v vs)
  obtain k where k: "n = Suc k" using Cons.prems by (cases n) auto
  have rb: "reads_back R v" by (rule Cons.prems) simp
  have us: "length us < 2 ^ 31" using Cons.prems(3) by simp
  show ?case
  proof (cases vs)
    case Nil
    have "readValue R k nullValue (writeValue R False v @ CHR '']'' # r) = Done True (canon v) (CHR '']'' # r)"
      using Cons.prems(4) k Nil by (intro reads_backD [OF rb]) simp_all
    then show ?thesis using array_of_put [OF us] k Nil by simp
  next
    case (Cons w ws)
    let ?rest = "join (map (writeValue R False) vs) @ CHR '']'' # r"
    have "readValue R k nullValue (writeValue R False v @ CHR '','' # ?rest) = Done True (canon v) (CHR '','' # ?rest)"
      using Cons.prems(4) k Cons by (intro reads_backD [OF rb]) simp_all
    moreover have "readArray R k (word_of_nat (length (us @ [canon v]))) (array_of (us @ [canon v])) ?rest
        = Done True (arrayValue (array_of ((us @ [canon v]) @ map canon vs))) r"
      using Cons.prems k Cons by (intro Cons.IH) simp_all
    ultimately show ?thesis using array_of_put [OF us] k Cons by (simp add: word_of_nat_Suc add.commute)
  qed
qed simp

lemma quoted_shape: "\<exists>t. valueToQuotedString s = DQ # t"
  by (simp add: valueToQuotedString_walk)

lemma readMemberName_quoted:
  "readMemberName name m (valueToQuotedString k @ CHR '':'' # r) = Go (c_str k) r"
  using skipCommentTokens_plain [OF readToken_quoted [of k "CHR '':'' # r"]]
  by (simp add: readMemberName_def decodeString_quoted)

lemma afterMember_end: "afterMember name m True (CHR ''}'' # r) = Stop (Done True (objectValue m) r)"
  by (simp add: afterMember_def)

lemma afterMember_comma: "afterMember name m True (CHR '','' # r) = Go name r"
  by (simp add: afterMember_def)

lemma readObject_members:
  assumes "\<And>e. e \<in> set es \<Longrightarrow> reads_back R (snd e) \<and> nul_free (fst e)" and "es \<noteq> []"
    and "map_ok (m @ map (\<lambda>e. (fst e, canon (snd e))) es)"
    and "length (join (map (entry_text R) es)) < n"
  shows "readObject R n name m (join (map (entry_text R) es) @ CHR ''}'' # r)
         = Done True (objectValue (m @ map (\<lambda>e. (fst e, canon (snd e))) es)) r"
  using assms
proof (induction es arbitrary: m n name)
  case (Cons e es)
  obtain k where k: "n = Suc k" using Cons.prems by (cases n) auto
  have rb: "reads_back R (snd e)" and nf: "nul_free (fst e)" using Cons.prems(1) [of e] by simp_all
  have put: "map_put (fst e) (canon (snd e)) m = m @ [(fst e, canon (snd e))]"
    using Cons.prems(3) by (intro map_put_append) (auto simp: map_ok_def sorted_wrt_append)
  show ?case
  proof (cases es)
    case Nil
    have "readValue R k cur (writeValue R False (snd e) @ CHR ''}'' # r) = Done True (canon (snd e)) (CHR ''}'' # r)" for cur
      using Cons.prems(4) k Nil by (intro reads_backD [OF rb]) (simp_all add: entry_text_def)
    then show ?thesis using put k Nil nf
      by (simp add: entry_text_def readMemberName_quoted afterMember_end)
  next
    case (Cons f fs)
    let ?rest = "join (map (entry_text R) es) @ CHR ''}'' # r"
    have "readValue R k cur (writeValue R False (snd e) @ CHR '','' # ?rest) = Done True (canon (snd e)) (CHR '','' # ?rest)" for cur
      using Cons.prems(4) k Cons by (intro reads_backD [OF rb]) (simp_all add: entry_text_def)
    moreover have "readObject R k (fst e) (m @ [(fst e, canon (snd e))]) ?rest
        = Done True (objectValue ((m @ [(fst e, canon (snd e))]) @ map (\<lambda>e. (fst e, canon (snd e))) es)) r"
      using Cons.prems k Cons by (intro Cons.IH) simp_all
    ultimately show ?thesis using put k Cons nf
      by (simp add: entry_text_def [of R e] readMemberName_quoted afterMember_comma)
  qed
qed simp

definition value_start :: "string \<Rightarrow> bool" where
  "value_start s \<longleftrightarrow> (\<exists>c u. s = c # u \<and> \<not> is_space c \<and> c \<noteq> CHR '']'')"

lemma value_start_number: "number_text s \<Longrightarrow> value_start s"
proof -
  assume s: "number_text s"
  then obtain c u where "s = c # u" by (cases s) (auto simp: number_text_def)
  moreover from this s have "is_digit c \<or> c = CHR ''-''" by (simp add: number_text_def)
  then have "\<not> is_space c \<and> c \<noteq> CHR '']''" using number_start [of c] by (simp add: is_space_def)
  ultimately show ?thesis by (simp add: value_start_def)
qed

lemma value_start_write: "printable R v \<Longrightarrow> value_start (writeValue R False v)"
proof (cases v)
  case (stringValue s)
  then show ?thesis using quoted_shape [of s] by (auto simp: value_start_def is_space_def)
next
  case (arrayValue m)
  moreover assume "printable R v"
  ultimately show ?thesis by (simp add: writeValue_dense value_start_def is_space_def del: writeValue.simps)
next
  case (objectValue m)
  moreover assume "printable R v"
  ultimately show ?thesis by (simp add: writeValue_object value_start_def is_space_def del: writeValue.simps)
next
  case (booleanValue b)
  then show ?thesis by (simp add: valueToString_bool_def value_start_def is_space_def)
next
  case nullValue
  then show ?thesis by (simp add: value_start_def is_space_def)
qed (simp_all add: value_start_number number_text_Int number_text_UInt)

lemma value_start_join: "value_start x \<Longrightarrow> value_start (join (x # xs) @ r)"
  by (cases xs) (auto simp: value_start_def)

lemma value_start_skip: "value_start s \<Longrightarrow> skipSpaces s = s \<and> fst (getNextChar s) \<noteq> CHR '']''"
  by (auto simp: value_start_def skipSpaces_def)

lemma reads_back_array:
  assumes "printable R (arrayValue m)" and IH: "\<And>e. e \<in> set m \<Longrightarrow> reads_back R (snd e)"
  shows "reads_back R (arrayValue m)"
  unfolding reads_back_def
proof (intro allI impI)
  fix n cur r
  let ?body = "join (map (writeValue R False) (map snd m)) @ CHR '']'' # r"
  assume n: "length (writeValue R False (arrayValue m)) < n"
  have d: "dense m" "length m < 2 ^ 31" using assms(1) by simp_all
  have rb: "reads_back R v" if "v \<in> set (map snd m)" for v using IH that by auto
  have shape: "writeValue R False (arrayValue m) @ r = CHR ''['' # ?body"
    by (simp add: writeValue_dense [OF d] del: writeValue.simps)
  from n obtain k where k: "n = Suc k" by (cases n) auto
  show "readValue R n cur (writeValue R False (arrayValue m) @ r) = Done True (canon (arrayValue m)) r"
  proof (cases m)
    case Nil
    then show ?thesis unfolding shape k by (simp add: skipSpaces_def is_space_def)
  next
    case (Cons e es)
    have "value_start (join (writeValue R False (snd e) # map (writeValue R False) (map snd es)) @ CHR '']'' # r)"
      using assms(1) Cons by (intro value_start_join value_start_write) simp
    then have "value_start ?body" by (simp add: Cons)
    then have skip: "skipSpaces ?body = ?body" "fst (getNextChar ?body) \<noteq> CHR '']''"
      using value_start_skip by blast+
    have "readArray R k (word_of_nat (length ([] :: 'a jvalue list))) (array_of []) ?body
        = Done True (arrayValue (array_of ([] @ map canon (map snd m)))) r"
      using rb d n k Cons by (intro readArray_elements) (simp_all add: writeValue_dense del: writeValue.simps)
    then have "readArray R k 0 [] ?body = Done True (canon (arrayValue m)) r"
      using array_of_elems [OF d(1), of canon] by (simp add: array_of_def)
    with skip show ?thesis unfolding shape k by simp
  qed
qed

lemma reads_back_object:
  assumes "printable R (objectValue m)" and IH: "\<And>e. e \<in> set m \<Longrightarrow> reads_back R (snd e)"
  shows "reads_back R (objectValue m)"
  unfolding reads_back_def
proof (intro allI impI)
  fix n cur r
  let ?body = "join (map (entry_text R) m) @ CHR ''}'' # r"
  assume n: "length (writeValue R False (objectValue m)) < n"
  have d: "map_ok m" "list_all (\<lambda>e. nul_free (fst e)) m" using assms(1) by (auto simp: list_all_iff)
  have shape: "writeValue R False (objectValue m) @ r = CHR ''{'' # ?body"
    by (simp add: writeValue_object [OF d(1)] del: writeValue.simps)
  from n obtain k where k: "n = Suc k" by (cases n) auto
  have body: "length (join (map (entry_text R) m)) + 1 < k"
    using n k by (simp add: writeValue_object [OF d(1)] del: writeValue.simps)
  have ok: "map_ok ([] @ map (\<lambda>e. (fst e, canon (snd e))) m)" using d(1) by (simp add: map_ok_def comp_def)
  show "readValue R n cur (writeValue R False (objectValue m) @ r) = Done True (canon (objectValue m)) r"
  proof (cases m)
    case Nil
    obtain j where "k = Suc j" using body by (cases k) auto
    with Nil show ?thesis unfolding shape k by (simp add: readMemberName_def)
  next
    case (Cons e es)
    have "readObject R k [] [] ?body = Done True (objectValue ([] @ map (\<lambda>e. (fst e, canon (snd e))) m)) r"
      using IH d ok body Cons by (intro readObject_members) (auto simp: list_all_iff)
    then show ?thesis unfolding shape k by simp
  qed
qed

lemma printable_reads_back: "printable R v \<Longrightarrow> reads_back R v"
proof (induction v)
  case (arrayValue m)
  then show ?case
    by (intro reads_back_array) (auto simp: list_all_iff snds.simps)
next
  case (objectValue m)
  then show ?case
    by (intro reads_back_object) (auto simp: list_all_iff snds.simps)
next
  case nullValue
  then show ?case
    by (intro reads_back_scalar [where t = tokenNull]) (simp_all add: readToken_null [simplified] readScalar_def)
next
  case (booleanValue b)
  then show ?case
    by (intro reads_back_scalar [where t = "if b then tokenTrue else tokenFalse"])
      (simp_all add: readToken_bool readScalar_def)
next
  case (stringValue s)
  then show ?case
    by (intro reads_back_scalar [where t = tokenString])
      (simp_all add: readToken_quoted readScalar_def decodeString_quoted Value_string_def)
next
  case (intValue i)
  then show ?case
    by (intro reads_back_scalar [where t = tokenNumber])
      (simp_all add: readToken_number number_text_Int readScalar_def decodeNumber_Int)
next
  case (uintValue u)
  then show ?case
    by (intro reads_back_scalar [where t = tokenNumber])
      (simp_all add: readToken_number number_text_UInt readScalar_def decodeNumber_UInt)
next
  case (realValue d)
  then show ?case
    by (intro reads_back_scalar [where t = tokenNumber]) (simp_all add: readToken_number readScalar_def)
qed

lemma skipCommentTokens_Nil [simp]: "skipCommentTokens [] = ((tokenEndOfStream, []), [])"
  by (rule skipCommentTokens_plain)
    (simp_all add: readToken_def skipSpaces_def scanToken_def is_digit_def)

lemma written_parses:
  assumes "printable R v"
  shows "parse R (FastWriter_write R v) root = Done True (canon v) []"
proof -
  have "readValue R (2 * length (writeValue R False v) + 1) root (writeValue R False v @ []) = Done True (canon v) []"
    by (rule reads_backD [OF printable_reads_back [OF assms]]) simp_all
  then show ?thesis by (simp add: parse_def FastWriter_write_def del: readValue.simps)
qed


text \<open>
  An instance of the C library's conversions for whole numbers, and a document with one of
  each kind of value.
\<close>

definition whole_crt :: "int crt" where
  "whole_crt =
     \<lparr>sscanf_lf = (\<lambda>s. let ds = takeWhile is_digit s
                       in if ds = [] then None
                          else Some (foldl (\<lambda>n c. n * 10 + (of_char c - 48)) 0 ds)),
      sprintf_g16 = (\<lambda>d. uintToString (nat d) [] @ ''.000''),
      dbl_of_int = (\<lambda>i. i), dbl_trunc = (\<lambda>d. d), dbl_le = (\<le>), dbl_eq = (=)\<rparr>"

definition sample :: "int jvalue" where
  "sample = objectValue
     [(''list'', arrayValue [(0, intValue (- 17)), (1, uintValue 25), (2, nullValue)]),
      (''on'', booleanValue True),
      (''rate'', realValue 48),
      (''text'', stringValue (''say '' @ [DQ, BSL, LF, CHR 0x01]))]"



end
