(* ===== verification/Lws_Uri.thy ===== *)
theory Lws_Uri
  imports Prelude
begin

text \<open>
  \<open>lws_parse_uri\<close> of libwebsockets (\<open>src/libwebsockets-2.2.1/lib/libwebsockets.c\<close>), which
  \<open>WebSocketClient::Open\<close> uses to cut its URL into protocol, address, port and path. The
  source cuts in place by writing NULs into the buffer and hands out pointers into it; here
  each part is the C string the pointer shows once all cuts are made.
\<close>

section \<open>atoi\<close>

definition c_isspace :: "char \<Rightarrow> bool" where
  "c_isspace c \<longleftrightarrow> c = CHR '' '' \<or> (9 \<le> (of_char c :: nat) \<and> of_char c \<le> (13 :: nat))"

definition c_isdigit :: "char \<Rightarrow> bool" where
  "c_isdigit c \<longleftrightarrow> 48 \<le> (of_char c :: nat) \<and> of_char c \<le> (57 :: nat)"

definition digits_value :: "string \<Rightarrow> int" where
  "digits_value s = foldl (\<lambda>n c. n * 10 + (of_char c - 48)) 0 s"

text \<open>White space, an optional sign, digits; a value outside \<open>int\<close> saturates.\<close>

definition atoi :: "string \<Rightarrow> int" where
  "atoi s =
     (let s = dropWhile c_isspace s;
          neg = (s \<noteq> [] \<and> hd s = CHR ''-'');
          s = (if s \<noteq> [] \<and> hd s \<in> {CHR ''-'', CHR ''+''} then tl s else s);
          v = digits_value (takeWhile c_isdigit s)
      in max (- 2147483648) (min 2147483647 (if neg then - v else v)))"

section \<open>Cutting up the URI\<close>

text \<open>The text before and behind the first \<open>://\<close>.\<close>

fun split_scheme :: "string \<Rightarrow> (string \<times> string) option" where
  "split_scheme [] = None"
| "split_scheme (c # s) =
     (if take 3 (c # s) = ''://'' then Some ([], drop 3 (c # s))
      else map_option (apfst ((#) c)) (split_scheme s))"

record uri =
  prot :: string
  ads :: string
  port :: int
  path :: string

text \<open>\<open>port0\<close> is what \<open>*port\<close> holds before the call.\<close>

definition lws_parse_uri :: "string \<Rightarrow> int \<Rightarrow> uri" where
  "lws_parse_uri u port0 =
     (let (pr, p) = (case split_scheme u of None \<Rightarrow> ([], u) | Some r \<Rightarrow> r);
          po = (if pr = ''http'' \<or> pr = ''ws'' then 80
                else if pr = ''https'' \<or> pr = ''wss'' then 443 else port0);
          (ad, p) = (if p \<noteq> [] \<and> hd p = CHR ''[''
                     then let q = dropWhile (\<lambda>c. c \<noteq> CHR '']'') p
                          in (takeWhile (\<lambda>c. c \<noteq> CHR '']'') (tl p), tl q)
                     else (takeWhile (\<lambda>c. c \<noteq> CHR '':'' \<and> c \<noteq> CHR ''/'') p,
                           dropWhile (\<lambda>c. c \<noteq> CHR '':'' \<and> c \<noteq> CHR ''/'') p));
          (po, p) = (if p \<noteq> [] \<and> hd p = CHR '':''
                     then (atoi (tl p), dropWhile (\<lambda>c. c \<noteq> CHR ''/'') (tl p))
                     else (po, p))
      in \<lparr>prot = pr, ads = ad, port = po, path = (if tl p = [] then ''/'' else tl p)\<rparr>)"

section \<open>What it gives on a complete URI\<close>

lemma split_scheme_found:
  "CHR '':'' \<notin> set s \<Longrightarrow> split_scheme (s @ '':'' @ ''//'' @ r) = Some (s, r)"
  by (induction s) auto

lemma takeWhile_cut: "\<forall>c \<in> set h. P c \<Longrightarrow> \<not> P d \<Longrightarrow> takeWhile P (h @ d # r) = h"
  by (induction h) auto

lemma dropWhile_cut: "\<forall>c \<in> set h. P c \<Longrightarrow> \<not> P d \<Longrightarrow> dropWhile P (h @ d # r) = d # r"
  by (induction h) auto

lemma not_isdigit_slash [simp]: "\<not> c_isdigit CHR ''/''"
  by (simp add: c_isdigit_def)

lemma isdigit_not:
  "c_isdigit c \<Longrightarrow> c \<noteq> CHR ''/'' \<and> c \<noteq> CHR ''-'' \<and> c \<noteq> CHR ''+'' \<and> \<not> c_isspace c"
  by (auto simp: c_isdigit_def c_isspace_def)

lemma foldl_digits_nonneg:
  "list_all c_isdigit ds \<Longrightarrow> 0 \<le> n \<Longrightarrow> 0 \<le> foldl (\<lambda>n c. n * 10 + (of_char c - 48)) (n :: int) ds"
proof (induction ds arbitrary: n)
  case (Cons d ds)
  have "(48 :: int) \<le> of_char d"
  proof -
    have "(48 :: nat) \<le> of_char d" using Cons.prems(1) by (simp add: c_isdigit_def)
    then have "int 48 \<le> int (of_char d)" by (simp only: of_nat_le_iff)
    then show ?thesis by (simp add: of_char_def of_nat_of_char)
  qed
  with Cons show ?case by simp
qed simp

lemma atoi_digits:
  assumes "list_all c_isdigit ds" and "ds \<noteq> []" and "digits_value ds \<le> 2147483647"
  shows "atoi (ds @ CHR ''/'' # r) = digits_value ds"
proof -
  obtain d es where d: "ds = d # es" using assms(2) by (cases ds) auto
  then have "dropWhile c_isspace (ds @ CHR ''/'' # r) = ds @ CHR ''/'' # r" "hd ds \<noteq> CHR ''-''" "hd ds \<noteq> CHR ''+''"
    using assms(1) isdigit_not [of d] by simp_all
  moreover have "takeWhile c_isdigit (ds @ CHR ''/'' # r) = ds"
    using assms(1) by (intro takeWhile_cut) (auto simp: list_all_iff)
  moreover have "0 \<le> digits_value ds"
    using foldl_digits_nonneg [OF assms(1), of 0] by (simp add: digits_value_def)
  ultimately show ?thesis using assms d by (simp add: atoi_def Let_def)
qed

text \<open>
  C22: of a URI that names everything, \<open>scheme://host:digits/path\<close>, the four parts come back
  as they were put in: the scheme has no colon, the host neither colon nor slash and does
  not start with a bracket, and the digits denote an \<open>int\<close>.
\<close>

theorem lws_parse_uri_complete:
  assumes "CHR '':'' \<notin> set s" and "CHR '':'' \<notin> set h" and "CHR ''/'' \<notin> set h"
    and "h \<noteq> []" and "hd h \<noteq> CHR ''[''"
    and "list_all c_isdigit ds" and "ds \<noteq> []" and "digits_value ds \<le> 2147483647" and "p \<noteq> []"
  shows "lws_parse_uri (s @ '':'' @ ''//'' @ h @ '':'' @ ds @ ''/'' @ p) port0
         = \<lparr>prot = s, ads = h, port = digits_value ds, path = p\<rparr>"
proof -
  let ?at = "\<lambda>c. c \<noteq> CHR '':'' \<and> c \<noteq> CHR ''/''"
  have h: "takeWhile ?at (h @ CHR '':'' # ds @ CHR ''/'' # p) = h"
    "dropWhile ?at (h @ CHR '':'' # ds @ CHR ''/'' # p) = CHR '':'' # ds @ CHR ''/'' # p"
    using assms(2,3) by (intro takeWhile_cut dropWhile_cut; auto)+
  have d: "dropWhile (\<lambda>c. c \<noteq> CHR ''/'') (ds @ CHR ''/'' # p) = CHR ''/'' # p"
    using assms(6) isdigit_not by (intro dropWhile_cut) (auto simp: list_all_iff)
  show ?thesis
    using split_scheme_found [OF assms(1), of "h @ '':'' @ ds @ ''/'' @ p"] h d
      atoi_digits [OF assms(6-8), of p] assms(4,5,9)
    by (simp add: lws_parse_uri_def)
qed

theorem lws_parse_uri_complete_witness:
  "lws_parse_uri (''wss'' @ '':'' @ ''//'' @ ''voip.example'' @ '':'' @ ''8443'' @ ''/'' @ ''app/a'') 0
   = \<lparr>prot = ''wss'', ads = ''voip.example'', port = 8443, path = ''app/a''\<rparr>"
proof -
  have v: "digits_value ''8443'' = 8443" by (simp add: digits_value_def)
  have d: "list_all c_isdigit ''8443''" by (simp add: c_isdigit_def)
  show ?thesis using lws_parse_uri_complete [of "''wss''" "''voip.example''" "''8443''" "''app/a''" 0] v d by simp
qed

end
