(* ===== verification/Lws_Utf8.thy ===== *)
theory Lws_Utf8
  imports Json_Reader
begin

text \<open>
  \<open>lws_check_utf8\<close> of \<open>src/libwebsockets-2.2.1/lib/libwebsockets.c\<close>: the test of text messages
  behind the option \<open>LWS_SERVER_OPTION_VALIDATE_UTF8\<close>, which the program sets. Only the client
  side of the library (\<open>client-parser.c\<close>) calls it. The state between two calls is one byte: the
  range the next byte has to be in and how many follow. \<open>None\<close> is the result 1, on which
  \<open>*state\<close> is not written.
\<close>

unbundle bit_operations_syntax

definition e0f4 :: "nat list" where
  "e0f4 =
     [0xa0 OR push_bit 2 (2 - 1) OR 1]
     @ replicate 12 (0x80 OR push_bit 2 (4 - 1) OR 1)
     @ [0x80 OR push_bit 2 (2 - 1) OR 1,
        0x80 OR push_bit 2 (4 - 1) OR 1,
        0x80 OR push_bit 2 (4 - 1) OR 1,
        0x90 OR push_bit 2 (3 - 1) OR 2,
        0x80 OR push_bit 2 (4 - 1) OR 2,
        0x80 OR push_bit 2 (4 - 1) OR 2,
        0x80 OR push_bit 2 (4 - 1) OR 2,
        0x80 OR push_bit 2 (1 - 1) OR 2,
        0,
        0x80 OR push_bit 2 (4 - 1) OR 0,
        0x80 OR push_bit 2 (4 - 1) OR 1]"

definition utf8_step :: "nat \<Rightarrow> nat \<Rightarrow> nat option" where
  "utf8_step s c =
     (if s = 0 then
        if c \<ge> 0x80 then
          if c < 0xc2 \<or> c > 0xf4 then None
          else if c < 0xe0 then Some (0x80 OR push_bit 2 (4 - 1))
          else Some (e0f4 ! (c - 0xe0))
        else Some s
      else if c < (s AND 0xf0) \<or> c \<ge> (s AND 0xf0) + 0x10 + (push_bit 2 s AND 0x30) then None
      else Some (e0f4 ! (21 + (s AND 3))))"

fun lws_check_utf8 :: "nat \<Rightarrow> string \<Rightarrow> nat option" where
  "lws_check_utf8 s [] = Some s"
| "lws_check_utf8 s (b # buf) =
     (case utf8_step s (code b) of None \<Rightarrow> None | Some s \<Rightarrow> lws_check_utf8 s buf)"

section \<open>The states\<close>

lemma e0f4_vals: "e0f4 = [165, 141, 141, 141, 141, 141, 141, 141, 141, 141, 141, 141, 141, 133, 141, 141,
    154, 142, 142, 142, 130, 0, 140, 141]"
  by code_simp

lemma utf8_step_start:
  "utf8_step 0 c =
     (if c < 0x80 then Some 0
      else if c < 0xc2 \<or> c > 0xf4 then None
      else if c < 0xe0 then Some 140
      else if c = 0xe0 then Some 165
      else if c = 0xed then Some 133
      else if c < 0xf0 then Some 141
      else if c = 0xf0 then Some 154
      else if c = 0xf4 then Some 130
      else Some 142)"
proof -
  have "c \<in> {0xe0, 0xe1, 0xe2, 0xe3, 0xe4, 0xe5, 0xe6, 0xe7, 0xe8, 0xe9, 0xea, 0xeb, 0xec, 0xed, 0xee, 0xef,
      0xf0, 0xf1, 0xf2, 0xf3, 0xf4}" if "0xe0 \<le> c" "c \<le> 0xf4"
    using that by (simp; presburger)
  moreover have "(0x80 OR push_bit 2 (4 - 1)) = (140 :: nat)" by code_simp
  ultimately show ?thesis by (cases "0xe0 \<le> c \<and> c \<le> 0xf4") (auto simp: utf8_step_def e0f4_vals)
qed

lemma utf8_step_later:
  "utf8_step 140 c = (if 0x80 \<le> c \<and> c < 0xc0 then Some 0 else None)"
  "utf8_step 141 c = (if 0x80 \<le> c \<and> c < 0xc0 then Some 140 else None)"
  "utf8_step 165 c = (if 0xa0 \<le> c \<and> c < 0xc0 then Some 140 else None)"
  "utf8_step 133 c = (if 0x80 \<le> c \<and> c < 0xa0 then Some 140 else None)"
  "utf8_step 154 c = (if 0x90 \<le> c \<and> c < 0xc0 then Some 141 else None)"
  "utf8_step 142 c = (if 0x80 \<le> c \<and> c < 0xc0 then Some 141 else None)"
  "utf8_step 130 c = (if 0x80 \<le> c \<and> c < 0x90 then Some 141 else None)"
  by (auto simp: utf8_step_def e0f4_vals)

lemmas utf8_steps = utf8_step_start utf8_step_later

lemma lws_check_utf8_append:
  "lws_check_utf8 s (xs @ ys) = Option.bind (lws_check_utf8 s xs) (\<lambda>s. lws_check_utf8 s ys)"
  by (induction xs arbitrary: s) (auto split: option.splits)

section \<open>What is accepted\<close>

text \<open>The code points that are characters: all up to 0x10FFFF but the surrogates.\<close>

definition scalar_value :: "nat \<Rightarrow> bool" where
  "scalar_value cp \<longleftrightarrow> cp < 0xD800 \<or> 0xDFFF < cp \<and> cp \<le> 0x10FFFF"

lemma code_char_of_small: "n < 256 \<Longrightarrow> code (char_of n) = n"
  by (simp add: of_char_of)

abbreviation cont :: "char \<Rightarrow> bool" where
  "cont c \<equiv> 0x80 \<le> code c \<and> code c < 0xc0"

lemma accept1: "code x < 0x80 \<Longrightarrow> lws_check_utf8 0 (x # r) = lws_check_utf8 0 r"
  by (simp add: utf8_steps)

lemma accept2: "0xc2 \<le> code x \<Longrightarrow> code x < 0xe0 \<Longrightarrow> cont y \<Longrightarrow> lws_check_utf8 0 (x # y # r) = lws_check_utf8 0 r"
  by (simp add: utf8_steps)

lemma accept3:
  assumes "0xe0 \<le> code x" "code x < 0xf0" "cont y" "cont z"
    and "code x = 0xe0 \<Longrightarrow> 0xa0 \<le> code y" "code x = 0xed \<Longrightarrow> code y < 0xa0"
  shows "lws_check_utf8 0 (x # y # z # r) = lws_check_utf8 0 r"
proof -
  have "utf8_step 0 (code x) = Some (if code x = 0xe0 then 165 else if code x = 0xed then 133 else 141)"
    using assms(1,2) by (simp add: utf8_step_start)
  then show ?thesis using assms by (simp add: utf8_step_later)
qed

lemma accept4:
  assumes "0xf0 \<le> code x" "code x \<le> 0xf4" "cont y" "cont z" "cont u"
    and "code x = 0xf0 \<Longrightarrow> 0x90 \<le> code y" "code x = 0xf4 \<Longrightarrow> code y < 0x90"
  shows "lws_check_utf8 0 (x # y # z # u # r) = lws_check_utf8 0 r"
proof -
  have "utf8_step 0 (code x) = Some (if code x = 0xf0 then 154 else if code x = 0xf4 then 130 else 142)"
    using assms(1,2) by (simp add: utf8_step_start)
  then show ?thesis using assms by (simp add: utf8_step_later)
qed

lemma check_codepoint:
  assumes "scalar_value cp"
  shows "lws_check_utf8 0 (codePointToUTF8 cp @ r) = lws_check_utf8 0 r"
proof -
  define q where "q = cp div 64"
  define p where "p = q div 64"
  have cp: "cp = q * 64 + cp mod 64" "cp mod 64 < 64" and q: "q = p * 64 + q mod 64" "q mod 64 < 64"
    unfolding q_def p_def by simp_all
  have p: "cp div 4096 = p" and "cp div 262144 = p div 64" unfolding p_def q_def by (simp_all flip: div_mult2_eq)
  note div = this
  consider "cp \<le> 0x7F" | "0x7F < cp" "cp \<le> 0x7FF" | "0x7FF < cp" "cp \<le> 0xFFFF" | "0xFFFF < cp" "cp \<le> 0x10FFFF"
    using assms unfolding scalar_value_def by linarith
  then show ?thesis
  proof cases
    case 1
    then show ?thesis by (simp add: codePointToUTF8_def accept1 code_char_of_small del: lws_check_utf8.simps)
  next
    case 2
    then have "2 \<le> q" "q < 32" using cp by linarith+
    then have "lws_check_utf8 0 (char_of (0xC0 + q mod 32) # char_of (0x80 + cp mod 64) # r) = lws_check_utf8 0 r"
      using cp(2) by (intro accept2) (simp_all add: code_char_of_small)
    then show ?thesis using 2 by (simp add: codePointToUTF8_def q_def)
  next
    case 3
    have "p < 16" "p = 0 \<Longrightarrow> 32 \<le> q mod 64" "p = 13 \<Longrightarrow> q mod 64 < 32"
      using 3 cp q assms unfolding scalar_value_def by linarith+
    then have "lws_check_utf8 0 (char_of (0xE0 + p mod 16) # char_of (0x80 + q mod 64) # char_of (0x80 + cp mod 64) # r)
        = lws_check_utf8 0 r"
      using cp(2) q(2) by (intro accept3) (simp_all add: code_char_of_small)
    then show ?thesis using 3 div by (simp add: codePointToUTF8_def q_def)
  next
    case 4
    let ?o = "p div 64"
    have o: "p = ?o * 64 + p mod 64" "p mod 64 < 64" by simp_all
    have "?o < 5" "?o = 0 \<Longrightarrow> 16 \<le> p mod 64" "?o = 4 \<Longrightarrow> p mod 64 < 16"
      using 4 cp q o by linarith+
    then have "lws_check_utf8 0 (char_of (0xF0 + ?o mod 8) # char_of (0x80 + p mod 64) # char_of (0x80 + q mod 64)
        # char_of (0x80 + cp mod 64) # r) = lws_check_utf8 0 r"
      using cp(2) q(2) o(2) by (intro accept4) (simp_all add: code_char_of_small)
    then show ?thesis using 4 div by (simp add: codePointToUTF8_def q_def)
  qed
qed

lemma check_concat:
  "\<forall>cp \<in> set cps. scalar_value cp \<Longrightarrow> lws_check_utf8 0 (concat (map codePointToUTF8 cps)) = Some 0"
  by (induction cps) (auto simp: check_codepoint)

text \<open>The other direction: what is accepted starts with the bytes of a character.\<close>

lemma encode1: "a < 128 \<Longrightarrow> codePointToUTF8 a = [char_of a]"
  by (simp add: codePointToUTF8_def)

lemma encode2: "2 \<le> a \<Longrightarrow> a < 32 \<Longrightarrow> d < 64 \<Longrightarrow> codePointToUTF8 (a * 64 + d) = [char_of (0xC0 + a), char_of (0x80 + d)]"
  by (simp add: codePointToUTF8_def)

lemma split64: "d < 64 \<Longrightarrow> (n * 64 + d) div 64 = n \<and> (n * 64 + d) mod 64 = (d :: nat)"
  by simp

lemma encode3:
  assumes "a < 16" "c < 64" "d < 64" "a = 0 \<Longrightarrow> 32 \<le> c"
  shows "codePointToUTF8 ((a * 64 + c) * 64 + d) = [char_of (0xE0 + a), char_of (0x80 + c), char_of (0x80 + d)]"
proof -
  define cp where "cp = (a * 64 + c) * 64 + d"
  have 1: "cp div 64 = a * 64 + c" "cp mod 64 = d" using split64 [OF assms(3)] unfolding cp_def by blast+
  then have 2: "cp div 64 mod 64 = c" "cp div 4096 = a" using split64 [OF assms(2), of a] div_mult2_eq [of cp 64 64] by simp_all
  have "32 \<le> a * 64 + c" using assms(4) by (cases "a = 0") auto
  then have "0x7FF < cp" "cp \<le> 0xFFFF" using assms(1-3) unfolding cp_def by simp_all
  then show ?thesis using assms(1) 1 2 unfolding cp_def [symmetric] by (simp add: codePointToUTF8_def)
qed

lemma encode4:
  assumes "a < 5" "b < 64" "c < 64" "d < 64" "a = 0 \<Longrightarrow> 16 \<le> b" "a = 4 \<Longrightarrow> b < 16"
  shows "codePointToUTF8 (((a * 64 + b) * 64 + c) * 64 + d)
    = [char_of (0xF0 + a), char_of (0x80 + b), char_of (0x80 + c), char_of (0x80 + d)]"
proof -
  define cp where "cp = ((a * 64 + b) * 64 + c) * 64 + d"
  have 1: "cp div 64 = (a * 64 + b) * 64 + c" "cp mod 64 = d" using split64 [OF assms(4)] unfolding cp_def by blast+
  then have 2: "cp div 64 mod 64 = c" "cp div 4096 = a * 64 + b"
    using split64 [OF assms(3), of "a * 64 + b"] div_mult2_eq [of cp 64 64] by simp_all
  then have 3: "cp div 4096 mod 64 = b" "cp div 262144 = a"
    using split64 [OF assms(2), of a] div_mult2_eq [of cp 4096 64] by simp_all
  have "16 \<le> a * 64 + b" using assms(5) by (cases "a = 0") auto
  moreover have "a * 64 + b < 272" using assms(1,2,6) by (cases "a = 4") auto
  ultimately have "0xFFFF < cp" "cp \<le> 0x10FFFF" using assms(3,4) unfolding cp_def by simp_all
  then show ?thesis using assms(1) 1 2 3 unfolding cp_def [symmetric] by (simp add: codePointToUTF8_def)
qed

lemma later_inv:
  "lws_check_utf8 140 buf = Some 0 \<Longrightarrow> \<exists>y r. buf = y # r \<and> cont y \<and> lws_check_utf8 0 r = Some 0"
  "lws_check_utf8 141 buf = Some 0 \<Longrightarrow> \<exists>y r. buf = y # r \<and> cont y \<and> lws_check_utf8 140 r = Some 0"
  "lws_check_utf8 165 buf = Some 0 \<Longrightarrow> \<exists>y r. buf = y # r \<and> 0xa0 \<le> code y \<and> code y < 0xc0 \<and> lws_check_utf8 140 r = Some 0"
  "lws_check_utf8 133 buf = Some 0 \<Longrightarrow> \<exists>y r. buf = y # r \<and> 0x80 \<le> code y \<and> code y < 0xa0 \<and> lws_check_utf8 140 r = Some 0"
  "lws_check_utf8 154 buf = Some 0 \<Longrightarrow> \<exists>y r. buf = y # r \<and> 0x90 \<le> code y \<and> code y < 0xc0 \<and> lws_check_utf8 141 r = Some 0"
  "lws_check_utf8 142 buf = Some 0 \<Longrightarrow> \<exists>y r. buf = y # r \<and> cont y \<and> lws_check_utf8 141 r = Some 0"
  "lws_check_utf8 130 buf = Some 0 \<Longrightarrow> \<exists>y r. buf = y # r \<and> 0x80 \<le> code y \<and> code y < 0x90 \<and> lws_check_utf8 141 r = Some 0"
  by (cases buf; simp add: utf8_step_later split: if_splits)+

lemma char_of_shift: "k \<le> code x \<Longrightarrow> char_of (k + (code x - k)) = x"
  by simp

lemma first_codepoint:
  assumes "lws_check_utf8 0 (x # buf) = Some 0"
  shows "\<exists>cp rest. scalar_value cp \<and> x # buf = codePointToUTF8 cp @ rest \<and> lws_check_utf8 0 rest = Some 0"
proof -
  obtain s where s: "utf8_step 0 (code x) = Some s" "lws_check_utf8 s buf = Some 0"
    using assms by (auto split: option.splits)
  consider "code x < 0x80" "s = 0" | "0xc2 \<le> code x" "code x < 0xe0" "s = 140"
    | "0xe0 \<le> code x" "code x < 0xf0" "s = (if code x = 0xe0 then 165 else if code x = 0xed then 133 else 141)"
    | "0xf0 \<le> code x" "code x \<le> 0xf4" "s = (if code x = 0xf0 then 154 else if code x = 0xf4 then 130 else 142)"
    using s(1) by (auto simp: utf8_step_start split: if_splits)
  then show ?thesis
  proof cases
    case 1
    then show ?thesis using s encode1 [of "code x"] by (intro exI [of _ "code x"] exI [of _ buf]) (auto simp: scalar_value_def)
  next
    case 2
    then obtain y r where y: "buf = y # r" "cont y" "lws_check_utf8 0 r = Some 0" using s(2) later_inv(1) by blast
    let ?a = "code x - 0xC0" and ?d = "code y - 0x80"
    have "codePointToUTF8 (?a * 64 + ?d) = [char_of (0xC0 + ?a), char_of (0x80 + ?d)]" using 2 y by (intro encode2) auto
    moreover have "scalar_value (?a * 64 + ?d)" using 2 y unfolding scalar_value_def by linarith
    ultimately show ?thesis using 2 y by (intro exI [of _ "?a * 64 + ?d"] exI [of _ r]) (simp add: char_of_shift)
  next
    case 3
    have "\<exists>y r. buf = y # r \<and> cont y \<and> (code x = 0xe0 \<longrightarrow> 0xa0 \<le> code y) \<and> (code x = 0xed \<longrightarrow> code y < 0xa0)
        \<and> lws_check_utf8 140 r = Some 0"
      using s(2) 3(3) later_inv(2) later_inv(3) later_inv(4) by (fastforce split: if_splits)
    then obtain y z r where y: "buf = y # z # r" "cont y" "cont z" "code x = 0xe0 \<longrightarrow> 0xa0 \<le> code y"
        "code x = 0xed \<longrightarrow> code y < 0xa0" "lws_check_utf8 0 r = Some 0"
      using later_inv(1) by blast
    let ?a = "code x - 0xE0" and ?c = "code y - 0x80" and ?d = "code z - 0x80"
    have "codePointToUTF8 ((?a * 64 + ?c) * 64 + ?d) = [char_of (0xE0 + ?a), char_of (0x80 + ?c), char_of (0x80 + ?d)]"
      using 3 y by (intro encode3) auto
    moreover have "scalar_value ((?a * 64 + ?c) * 64 + ?d)"
    proof -
      have a: "?a < 16" "?c < 64" "?d < 64" using 3 y by linarith+
      consider "?a < 13" | "?a = 13" "?c < 32" | "13 < ?a" using y 3 by linarith
      then have "(?a * 64 + ?c) * 64 + ?d < 0xD800 \<or> 0xDFFF < (?a * 64 + ?c) * 64 + ?d" using a by cases simp_all
      moreover have "(?a * 64 + ?c) * 64 + ?d \<le> 0xFFFF" using a by simp
      ultimately show ?thesis unfolding scalar_value_def by linarith
    qed
    ultimately show ?thesis using 3 y by (intro exI [of _ "(?a * 64 + ?c) * 64 + ?d"] exI [of _ r]) (simp add: char_of_shift)
  next
    case 4
    have "\<exists>y r. buf = y # r \<and> cont y \<and> (code x = 0xf0 \<longrightarrow> 0x90 \<le> code y) \<and> (code x = 0xf4 \<longrightarrow> code y < 0x90)
        \<and> lws_check_utf8 141 r = Some 0"
      using s(2) 4(3) later_inv(5) later_inv(6) later_inv(7) by (fastforce split: if_splits)
    then obtain y z u r where y: "buf = y # z # u # r" "cont y" "cont z" "cont u" "code x = 0xf0 \<longrightarrow> 0x90 \<le> code y"
        "code x = 0xf4 \<longrightarrow> code y < 0x90" "lws_check_utf8 0 r = Some 0"
      using later_inv(1,2) by blast
    let ?a = "code x - 0xF0" and ?b = "code y - 0x80" and ?c = "code z - 0x80" and ?d = "code u - 0x80"
    have a: "?a < 5" "?b < 64" "?c < 64" "?d < 64" "?a = 0 \<Longrightarrow> 16 \<le> ?b" "?a = 4 \<Longrightarrow> ?b < 16" using 4 y by auto
    then have "codePointToUTF8 (((?a * 64 + ?b) * 64 + ?c) * 64 + ?d)
        = [char_of (0xF0 + ?a), char_of (0x80 + ?b), char_of (0x80 + ?c), char_of (0x80 + ?d)]"
      by (intro encode4) auto
    moreover have "scalar_value (((?a * 64 + ?b) * 64 + ?c) * 64 + ?d)"
    proof -
      have "16 \<le> ?a * 64 + ?b" using a(5) by (cases "?a = 0") auto
      moreover have "?a * 64 + ?b < 272" using a(1,2,6) by (cases "?a = 4") auto
      ultimately show ?thesis unfolding scalar_value_def using a(3,4) by simp
    qed
    ultimately show ?thesis using 4 y
      by (intro exI [of _ "((?a * 64 + ?b) * 64 + ?c) * 64 + ?d"] exI [of _ r]) (simp add: char_of_shift)
  qed
qed

lemma codePointToUTF8_nonempty: "scalar_value cp \<Longrightarrow> codePointToUTF8 cp \<noteq> []"
  by (auto simp: codePointToUTF8_def scalar_value_def)

text \<open>
  C25: \<open>lws_check_utf8\<close> accepts a message exactly when it is a sequence of Unicode characters as
  \<open>codePointToUTF8\<close> of the JSON reader writes them: no overlong forms, no surrogates, nothing
  above 0x10FFFF, no sequence cut short.
\<close>

theorem check_utf8_iff:
  "lws_check_utf8 0 buf = Some 0 \<longleftrightarrow>
     (\<exists>cps. list_all scalar_value cps \<and> buf = concat (map codePointToUTF8 cps))"
proof
  show "lws_check_utf8 0 buf = Some 0 \<Longrightarrow> \<exists>cps. list_all scalar_value cps \<and> buf = concat (map codePointToUTF8 cps)"
  proof (induction "length buf" arbitrary: buf rule: less_induct)
    case less
    show ?case
    proof (cases buf)
      case Nil
      then show ?thesis by (intro exI [of _ "[]"]) simp
    next
      case (Cons x xs)
      then obtain cp rest where cp: "scalar_value cp" "buf = codePointToUTF8 cp @ rest" "lws_check_utf8 0 rest = Some 0"
        using first_codepoint less.prems by blast
      then have "length rest < length buf" using codePointToUTF8_nonempty [OF cp(1)] by simp
      then obtain cps where "list_all scalar_value cps" "rest = concat (map codePointToUTF8 cps)"
        using less.hyps cp(3) by blast
      then show ?thesis using cp by (intro exI [of _ "cp # cps"]) simp
    qed
  qed
qed (auto simp: check_concat list_all_iff)

text \<open>The check of a message in pieces, as they come in, is the check of the whole message.\<close>

lemma check_utf8_in_pieces:
  "foldl (\<lambda>st piece. Option.bind st (\<lambda>s. lws_check_utf8 s piece)) (Some s) pieces = lws_check_utf8 s (concat pieces)"
proof -
  have "foldl (\<lambda>st piece. Option.bind st (\<lambda>s. lws_check_utf8 s piece)) None pieces = None" for pieces
    by (induction pieces) simp_all
  note fail = this
  show ?thesis
  proof (induction pieces arbitrary: s)
    case (Cons piece pieces)
    then show ?case by (cases "lws_check_utf8 s piece") (simp_all add: fail lws_check_utf8_append)
  qed simp
qed

end
