(* ===== verification/Lws_Codec.thy ===== *)
theory Lws_Codec
  imports Json_Writer
begin

text \<open>
  The text encodings of libwebsockets: base 64 (\<open>src/libwebsockets-2.2.1/lib/base64-decode.c\<close>) and
  the escapes for SQL, JSON and URLs (\<open>src/libwebsockets-2.2.1/lib/libwebsockets.c\<close>). An output
  buffer is the list of the bytes written to it, the closing NUL included; an input string is
  what is in front of its NUL.
\<close>

unbundle bit_operations_syntax

section \<open>Base 64\<close>

definition b64_encode :: string where
  "b64_encode = ''ABCDEFGHIJKLMNOPQRSTUVWXYZabcdefghijklmnopqrstuvwxyz0123456789+/''"

definition b64_decode :: string where
  "b64_decode =
     ''|$$$}rstuvwxyz{$$$$$$$>?@ABCDEFGHIJKLMNOPQRSTUVW$$$$$$XYZ['' @ [BSL] @ '']^_`abcdefghijklmnopq''"

abbreviation EQ :: char where
  "EQ \<equiv> CHR ''=''"

text \<open>The four characters for up to three bytes.\<close>

definition b64_quad :: "string \<Rightarrow> string" where
  "b64_quad t =
     (let len = length t;
          t0 = code (t ! 0);
          t1 = (if len > 1 then code (t ! 1) else 0);
          t2 = (if len > 2 then code (t ! 2) else 0)
      in [b64_encode ! (drop_bit 2 t0),
          b64_encode ! (push_bit 4 (t0 AND 0x03) OR drop_bit 4 (t1 AND 0xf0)),
          if len > 1 then b64_encode ! (push_bit 2 (t1 AND 0x0f) OR drop_bit 6 (t2 AND 0xc0)) else EQ,
          if len > 2 then b64_encode ! (t2 AND 0x3f) else EQ])"

function b64_encode_loop :: "int \<Rightarrow> int \<Rightarrow> string \<Rightarrow> string \<Rightarrow> int \<times> string" where
  "b64_encode_loop out_size done inp out =
     (if inp = [] then if done + 1 \<ge> out_size then (- 1, out) else (done, out @ [NUL])
      else if done + 4 \<ge> out_size then (- 1, out)
      else b64_encode_loop out_size (done + 4) (drop 3 inp) (out @ b64_quad (take 3 inp)))"
  by pat_completeness auto
termination
  by (relation "measure (\<lambda>(_, _, inp, _). length inp)") auto

declare b64_encode_loop.simps [simp del]

definition lws_b64_encode_string :: "string \<Rightarrow> int \<Rightarrow> int \<times> string" where
  "lws_b64_encode_string inp out_size = b64_encode_loop out_size 0 inp []"

text \<open>
  The next character that stands for six bits: \<open>c\<close> is the last character read, \<open>v\<close> its value
  plus one, or 0 at the end of the input.
\<close>

fun b64_next :: "nat \<Rightarrow> string \<Rightarrow> nat \<times> nat \<times> string" where
  "b64_next c [] = (c, 0, [])"
| "b64_next c (x # s) =
     (let v = code x;
          v = (if v < 43 \<or> v > 122 then 0 else code (b64_decode ! (v - 43)));
          v = (if v \<noteq> 0 then if v = code (CHR ''$'') then 0 else v - 61 else v)
      in if v = 0 then b64_next (code x) s else (code x, v, s))"

text \<open>The inner loop, from \<open>i\<close> on. \<open>quad\<close> keeps what it held where nothing is assigned.\<close>

function b64_group :: "nat \<Rightarrow> nat list \<Rightarrow> int \<Rightarrow> nat \<Rightarrow> string \<Rightarrow> nat list \<times> int \<times> nat \<times> string" where
  "b64_group i quad len c inp =
     (if i < 4 \<and> inp \<noteq> [] then
        let (c, v, inp) = b64_next 0 inp
        in if c \<noteq> 0 then b64_group (i + 1) (if v \<noteq> 0 then quad[i := v - 1] else quad) (len + 1) c inp
           else b64_group (i + 1) (quad[i := 0]) len c inp
      else (quad, len, c, inp))"
  by pat_completeness auto
termination
  by (relation "measure (\<lambda>(i, _, _, _, _). 4 - i)") auto

declare b64_group.simps [simp del]

lemma b64_next_shorter: "b64_next c s = (c', v, r) \<Longrightarrow> s \<noteq> [] \<Longrightarrow> length r < length s"
proof (induction c s rule: b64_next.induct)
  case (2 c x s)
  then show ?case by (cases "s = []") (fastforce simp: Let_def split: if_splits)+
qed simp

lemma b64_group_step:
  "i < 4 \<Longrightarrow> inp \<noteq> [] \<Longrightarrow> b64_next 0 inp = (c1, v, r) \<Longrightarrow> b64_group i quad len c inp =
     (if c1 \<noteq> 0 then b64_group (i + 1) (if v \<noteq> 0 then quad[i := v - 1] else quad) (len + 1) c1 r
      else b64_group (i + 1) (quad[i := 0]) len c1 r)"
  by (subst b64_group.simps) simp

lemma b64_group_end: "i \<ge> 4 \<or> inp = [] \<Longrightarrow> b64_group i quad len c inp = (quad, len, c, inp)"
  by (subst b64_group.simps) auto

lemma b64_group_le: "b64_group i quad len c inp = (quad', len', c', r) \<Longrightarrow> length r \<le> length inp"
proof (induction "4 - i" arbitrary: i quad len c inp)
  case 0
  then show ?case by (simp add: b64_group_end)
next
  case (Suc k)
  show ?case
  proof (cases "inp = []")
    case False
    obtain c1 v r1 where n: "b64_next 0 inp = (c1, v, r1)" by (cases "b64_next 0 inp")
    then have "length r1 < length inp" using False b64_next_shorter by blast
    moreover have "length r \<le> length r1"
      using Suc.prems Suc.hyps(2) Suc.hyps(1) [of "i + 1"] b64_group_step [OF _ False n, of i quad len c]
      by (auto split: if_splits)
    ultimately show ?thesis by simp
  qed (use Suc.prems in \<open>simp add: b64_group_end\<close>)
qed

lemma b64_group_shorter:
  assumes "b64_group 0 quad len c inp = (quad', len', c', r)" and "inp \<noteq> []"
  shows "length r < length inp"
proof -
  obtain c1 v r1 where n: "b64_next 0 inp = (c1, v, r1)" by (cases "b64_next 0 inp")
  then have "length r1 < length inp" using assms(2) b64_next_shorter by blast
  moreover have "length r \<le> length r1"
    using assms(1) b64_group_le b64_group_step [OF _ assms(2) n, of 0 quad len c] by (auto split: if_splits)
  ultimately show ?thesis by simp
qed

function b64_decode_loop :: "int \<Rightarrow> nat list \<Rightarrow> int \<Rightarrow> string \<Rightarrow> string \<Rightarrow> int \<times> string" where
  "b64_decode_loop out_size quad done inp out =
     (if inp = [] then if done + 1 \<ge> out_size then (- 1, out) else (done, out @ [NUL])
      else
        let (quad, len, c, inp) = b64_group 0 quad 0 0 inp
        in if out_size < done + len - 1 then (- 1, out)
           else
             let len = (if inp = [] \<and> c = code EQ then len - 1 else len);
                 out = out
                   @ (if len \<ge> 2 then [char_of (push_bit 2 (quad ! 0) OR drop_bit 4 (quad ! 1))] else [])
                   @ (if len \<ge> 3 then [char_of (push_bit 4 (quad ! 1) OR drop_bit 2 (quad ! 2))] else [])
                   @ (if len \<ge> 4 then [char_of ((push_bit 6 (quad ! 2) AND 0xc0) OR quad ! 3)] else [])
             in b64_decode_loop out_size quad (done + (len - 1)) inp out)"
  by pat_completeness auto
termination
  by (relation "measure (\<lambda>(_, _, _, inp, _). length inp)") (auto dest: b64_group_shorter [OF sym])

declare b64_decode_loop.simps [simp del]

text \<open>\<open>quad\<close> is not initialised: \<open>junk\<close> is what it holds.\<close>

definition lws_b64_decode_string :: "nat list \<Rightarrow> string \<Rightarrow> int \<Rightarrow> int \<times> string" where
  "lws_b64_decode_string junk inp out_size = b64_decode_loop out_size junk 0 (c_str inp) []"

section \<open>Escapes\<close>

definition hex_char :: "nat \<Rightarrow> char" where
  "hex_char n = ''0123456789ABCDEF'' ! n"

fun sql_purify_loop :: "int \<Rightarrow> string \<Rightarrow> string" where
  "sql_purify_loop len [] = []"
| "sql_purify_loop len (p # ps) =
     (if len > 2 then
        if p = CHR 0x27 then [CHR 0x27, CHR 0x27] @ sql_purify_loop (len - 2) ps
        else [p] @ sql_purify_loop (len - 1) ps
      else [])"

definition lws_sql_purify :: "string \<Rightarrow> int \<Rightarrow> string" where
  "lws_sql_purify str len = sql_purify_loop len (c_str str) @ [NUL]"

text \<open>\<open>char\<close> is signed, so that \<open>*p < 0x20\<close> holds of every byte above 0x7F too.\<close>

fun json_purify_loop :: "int \<Rightarrow> string \<Rightarrow> string" where
  "json_purify_loop len [] = []"
| "json_purify_loop len (p # ps) =
     (if len > 6 then
        if p = DQ \<or> p = BSL \<or> code p < 0x20 \<or> code p \<ge> 0x80 then
          [BSL, CHR ''u'', CHR ''0'', CHR ''0'', hex_char (drop_bit 4 (code p) AND 15), hex_char (code p AND 15)]
          @ json_purify_loop (len - 6) ps
        else [p] @ json_purify_loop (len - 1) ps
      else [])"

definition lws_json_purify :: "string option \<Rightarrow> int \<Rightarrow> string" where
  "lws_json_purify str len =
     (case str of None \<Rightarrow> [NUL] | Some str \<Rightarrow> json_purify_loop len (c_str str) @ [NUL])"

definition url_plain :: "char \<Rightarrow> bool" where
  "url_plain p \<longleftrightarrow> CHR ''0'' \<le> p \<and> p \<le> CHR ''9'' \<or> CHR ''A'' \<le> p \<and> p \<le> CHR ''Z'' \<or> CHR ''a'' \<le> p \<and> p \<le> CHR ''z''"

fun urlencode_loop :: "int \<Rightarrow> string \<Rightarrow> string" where
  "urlencode_loop len [] = []"
| "urlencode_loop len (p # ps) =
     (if len > 3 then
        if p = CHR '' '' then [CHR ''+''] @ urlencode_loop (len - 1) ps
        else if url_plain p then [p] @ urlencode_loop (len - 1) ps
        else [CHR ''%'', hex_char (drop_bit 4 (code p) AND 0xf), hex_char (code p AND 0xf)] @ urlencode_loop (len - 3) ps
      else [])"

definition lws_urlencode :: "string \<Rightarrow> int \<Rightarrow> string" where
  "lws_urlencode str len = urlencode_loop len (c_str str) @ [NUL]"

definition char_to_hex :: "char \<Rightarrow> int" where
  "char_to_hex c =
     (if CHR ''0'' \<le> c \<and> c \<le> CHR ''9'' then int (code c) - 48
      else if CHR ''a'' \<le> c \<and> c \<le> CHR ''f'' then int (code c) - 97 + 10
      else if CHR ''A'' \<le> c \<and> c \<le> CHR ''F'' then int (code c) - 65 + 10
      else - 1)"

text \<open>The loop with \<open>state\<close>, \<open>sum\<close> and the room left.\<close>

fun urldecode_loop :: "nat \<Rightarrow> nat \<Rightarrow> int \<Rightarrow> string \<Rightarrow> string \<Rightarrow> int \<times> string" where
  "urldecode_loop st acc len [] out = (0, out @ [NUL])"
| "urldecode_loop st acc len (e # es) out =
     (if len = 0 then (0, out @ [NUL])
      else if st = 0 then
        if e = CHR ''%'' then urldecode_loop 1 acc len es out
        else if e = CHR ''+'' then urldecode_loop 0 acc (len - 1) es (out @ [CHR '' ''])
        else urldecode_loop 0 acc (len - 1) es (out @ [e])
      else
        let n = char_to_hex e
        in if n < 0 then (- 1, out)
           else if st = 1 then urldecode_loop 2 (push_bit 4 (nat n)) len es out
           else urldecode_loop 0 acc (len - 1) es (out @ [char_of (acc OR nat n)]))"

definition lws_urldecode :: "string \<Rightarrow> int \<Rightarrow> int \<times> string" where
  "lws_urldecode escaped len = urldecode_loop 0 0 len (c_str escaped) []"

section \<open>What the escapes share\<close>

text \<open>
  A loop that writes \<open>esc c\<close> for each character, at most \<open>k\<close> bytes, as long as there is room
  for more than \<open>k\<close>.
\<close>

locale bounded_escape =
  fixes loop :: "int \<Rightarrow> string \<Rightarrow> string" and esc :: "char \<Rightarrow> string" and k :: int
  assumes loop_Nil: "loop len [] = []"
    and loop_Cons: "loop len (c # s) = (if len > k then esc c @ loop (len - int (length (esc c))) s else [])"
    and esc_len: "int (length (esc c)) \<le> k"
    and esc_some: "esc c \<noteq> []"
begin

lemma fits: "0 < len \<Longrightarrow> int (length (loop len s)) < len"
proof (induction s arbitrary: len)
  case (Cons c s)
  have "int (length (loop (len - int (length (esc c))) s)) < len - int (length (esc c))" if "len > k"
    using Cons.IH [of "len - int (length (esc c))"] esc_len [of c] that by linarith
  then show ?case using Cons.prems by (cases "len > k") (simp_all add: loop_Cons)
qed (simp add: loop_Nil)

lemma whole: "int (length (concat (map esc s))) + k \<le> len \<Longrightarrow> loop len s = concat (map esc s)"
proof (induction s arbitrary: len)
  case (Cons c s)
  have "0 < int (length (esc c))" using esc_some by simp
  then have "k < len" using Cons.prems unfolding list.map concat.simps length_append by linarith
  then show ?case using Cons by (simp add: loop_Cons)
qed (simp add: loop_Nil)

lemma part: "\<exists>t u. s = t @ u \<and> loop len s = concat (map esc t)"
proof (induction s arbitrary: len)
  case (Cons c s)
  obtain t u where t: "s = t @ u" "loop (len - int (length (esc c))) s = concat (map esc t)" using Cons.IH by blast
  show ?case
  proof (cases "len > k")
    case True
    then show ?thesis using t by (intro exI [of _ "c # t"] exI [of _ u]) (simp add: loop_Cons)
  next
    case False
    then show ?thesis by (intro exI [of _ "[]"] exI [of _ "c # s"]) (simp add: loop_Cons)
  qed
qed (simp add: loop_Nil)

end

definition sql_escape :: "char \<Rightarrow> string" where
  "sql_escape p = (if p = CHR 0x27 then [CHR 0x27, CHR 0x27] else [p])"

definition json_escape :: "char \<Rightarrow> string" where
  "json_escape p =
     (if p = DQ \<or> p = BSL \<or> code p < 0x20 \<or> code p \<ge> 0x80
      then [BSL, CHR ''u'', CHR ''0'', CHR ''0'', hex_char (drop_bit 4 (code p) AND 15), hex_char (code p AND 15)]
      else [p])"

definition url_escape :: "char \<Rightarrow> string" where
  "url_escape p =
     (if p = CHR '' '' then [CHR ''+'']
      else if url_plain p then [p]
      else [CHR ''%'', hex_char (drop_bit 4 (code p) AND 0xf), hex_char (code p AND 0xf)])"

interpretation sql: bounded_escape sql_purify_loop sql_escape 2
  by unfold_locales (simp_all add: sql_escape_def)

interpretation json: bounded_escape json_purify_loop json_escape 6
  by unfold_locales (simp_all add: json_escape_def)

interpretation url: bounded_escape urlencode_loop url_escape 3
  by unfold_locales (simp_all add: url_escape_def)

text \<open>
  None of the three writes more than \<open>len\<close> bytes, the closing NUL included, whatever the
  string.
\<close>

theorem escapes_fit:
  assumes "0 < len"
  shows "int (length (lws_sql_purify str len)) \<le> len \<and> int (length (lws_json_purify p len)) \<le> len
    \<and> int (length (lws_urlencode str len)) \<le> len"
  using assms sql.fits [of len] json.fits [of len] url.fits [of len]
  by (auto simp: lws_sql_purify_def lws_json_purify_def lws_urlencode_def split: option.splits simp flip: zless_iff_Suc_zadd)
     (metis add.commute zless_imp_add1_zle)+

theorem escapes_fit_witness:
  "int (length (lws_sql_purify ''O'' 3)) \<le> 3 \<and> 0 < (3 :: int)"
  using escapes_fit [of 3 "''O''"] by simp

section \<open>URLs\<close>

lemma hex_nibble: "char_to_hex (hex_char n) = int n \<and> hex_char n \<noteq> NUL" if "n < 16" for n
proof -
  have "\<forall>n \<in> set [0..<16]. char_to_hex (hex_char n) = int n \<and> hex_char n \<noteq> NUL" by code_simp
  with that show ?thesis by simp
qed

lemma and_low: "(n :: nat) AND 3 = n mod 4" "n AND 15 = n mod 16" "n AND 63 = n mod 64"
  using take_bit_eq_mask [of 2 n] take_bit_eq_mask [of 4 n] take_bit_eq_mask [of 6 n]
  by (simp_all add: take_bit_eq_mod mask_eq_exp_minus_1)

lemma drop_bits: "drop_bit 2 n = n div (4 :: nat)" "drop_bit 4 n = n div (16 :: nat)" "drop_bit 6 n = n div (64 :: nat)"
  by (simp_all add: drop_bit_eq_div)

lemma nibbles: "(n :: nat) < 256 \<Longrightarrow> drop_bit 4 n AND 15 = n div 16 \<and> n AND 15 = n mod 16"
  by (simp add: and_low drop_bits)

lemma push_or: "b < 2 ^ k \<Longrightarrow> push_bit k a OR b = a * 2 ^ k + (b :: nat)"
proof -
  assume "b < 2 ^ k"
  then have "take_bit k b = b" by (rule take_bit_nat_eq_self)
  then have "bit b n \<Longrightarrow> n < k" for n by (metis bit_take_bit_iff)
  then have "\<not> bit (push_bit k a) n \<or> \<not> bit b n" for n by (fastforce simp: bit_push_bit_iff)
  then show ?thesis using disjunctive_add [of "push_bit k a" b] by (simp add: push_bit_eq_mult)
qed

lemmas code_lt = nat_of_char_less_256

lemma urldecode_escape:
  assumes "0 < len"
  shows "urldecode_loop 0 acc len (url_escape c @ es) out
    = urldecode_loop 0 (if url_plain c \<or> c = CHR '' '' then acc else push_bit 4 (code c div 16)) (len - 1) es (out @ [c])"
proof (cases "url_plain c \<or> c = CHR '' ''")
  case True
  moreover have "\<not> url_plain (CHR ''%'')" "\<not> url_plain (CHR ''+'')" by code_simp+
  ultimately show ?thesis using assms by (auto simp: url_escape_def)
next
  case False
  have "code c div 16 < 16" "code c mod 16 < 16" using code_lt [of c] by (auto simp: less_mult_imp_div_less)
  then show ?thesis using False assms
    by (simp add: url_escape_def nibbles code_lt hex_nibble push_or)
qed

lemma urldecode_escaped:
  "int (length s) \<le> len \<Longrightarrow> urldecode_loop 0 acc len (concat (map url_escape s)) out = (0, out @ s @ [NUL])"
proof (induction s arbitrary: acc len out)
  case (Cons c s)
  then have "0 < len" by simp
  then show ?case using Cons urldecode_escape [of len acc c "concat (map url_escape s)" out] by simp
qed simp

lemma c_str_NUL: "nul_free s \<Longrightarrow> c_str (s @ NUL # t) = s"
  by (induction s) (simp_all add: c_str_def)

lemma nul_free_concat: "nul_free (concat xss) \<longleftrightarrow> (\<forall>xs \<in> set xss. nul_free xs)"
  by (auto simp: nul_free_def)

lemma url_escape_nul_free: "c \<noteq> NUL \<Longrightarrow> nul_free (url_escape c)"
  using hex_nibble [of "code c div 16"] hex_nibble [of "code c mod 16"] code_lt [of c]
  by (auto simp: url_escape_def nibbles less_mult_imp_div_less)

text \<open>
  C26: \<open>lws_urldecode\<close> gives back the string that \<open>lws_urlencode\<close> was given, if both output buffers
  are long enough.
\<close>

theorem urldecode_urlencode:
  assumes "int (length (concat (map url_escape (c_str str)))) + 3 \<le> len" and "int (length (c_str str)) \<le> len'"
  shows "lws_urldecode (lws_urlencode str len) len' = (0, c_str str @ [NUL])"
proof -
  have "c \<noteq> NUL" if "c \<in> set (c_str str)" for c
    using nul_free_c_str [of str] that by (auto simp: nul_free_def)
  then have "nul_free (concat (map url_escape (c_str str)))"
    by (simp add: nul_free_concat url_escape_nul_free)
  then have "c_str (concat (map url_escape (c_str str)) @ [NUL]) = concat (map url_escape (c_str str))"
    by (rule c_str_NUL)
  then show ?thesis
    using urldecode_escaped [OF assms(2)] url.whole [OF assms(1)] by (simp add: lws_urldecode_def lws_urlencode_def)
qed

theorem urldecode_urlencode_witness:
  "lws_urldecode (lws_urlencode ''a b/c'' 20) 10 = (0, ''a b/c'' @ [NUL])"
proof -
  have c: "c_str ''a b/c'' = ''a b/c''" by code_simp
  have "int (length (concat (map url_escape (c_str ''a b/c'')))) + 3 \<le> 20" by code_simp
  then show ?thesis using urldecode_urlencode [of "''a b/c''" 20 10] by (simp add: c)
qed

text \<open>
  C39: \<open>lws_urldecode\<close> writes the closing NUL behind the \<open>len\<close> bytes of its output buffer when the
  decoded string fills it.
\<close>

theorem urldecode_overruns:
  assumes "0 \<le> len" and "len \<le> int (length str)" and "nul_free str" and "list_all url_plain str"
  shows "length (snd (lws_urldecode str len)) = nat len + 1"
proof -
  have "\<not> url_plain (CHR ''%'')" "\<not> url_plain (CHR ''+'')" by code_simp+
  then have plain: "length (snd (urldecode_loop 0 acc len s out)) = length out + nat len + 1"
    if "0 \<le> len" "len \<le> int (length s)" "list_all url_plain s" for acc s out len
    using that
  proof (induction s arbitrary: len out)
    case (Cons c s)
    then show ?case by (cases "len = 0") auto
  qed simp
  show ?thesis using plain [OF assms(1,2,4), of 0 "[]"] assms(3) by (simp add: lws_urldecode_def)
qed

theorem urldecode_overruns_witness: "length (snd (lws_urldecode ''abcd'' 4)) = 5"
proof -
  have "list_all url_plain ''abcd''" "nul_free ''abcd''" by code_simp+
  then show ?thesis using urldecode_overruns [of 4 "''abcd''"] by simp
qed

section \<open>Base 64\<close>

definition sextet_ok :: "nat \<Rightarrow> bool" where
  "sextet_ok n \<longleftrightarrow> (let x = b64_encode ! n; v = code (b64_decode ! (code x - 43)) in
     43 \<le> code x \<and> code x \<le> 122 \<and> v \<noteq> 0 \<and> v \<noteq> 36 \<and> v - 61 = n + 1 \<and> code x \<noteq> 61)"

lemma sextet_chars: "list_all sextet_ok [0..<64]"
  by (simp add: upt_conv_Cons sextet_ok_def b64_encode_def b64_decode_def Let_def)

lemma sextet_char:
  assumes "n < 64"
  shows "b64_next c (b64_encode ! n # s) = (code (b64_encode ! n), n + 1, s)"
    and "code (b64_encode ! n) \<noteq> 0" and "code (b64_encode ! n) \<noteq> 61"
proof -
  have "sextet_ok n" using sextet_chars assms by (simp add: list_all_iff)
  then show "b64_next c (b64_encode ! n # s) = (code (b64_encode ! n), n + 1, s)"
    and "code (b64_encode ! n) \<noteq> 0" and "code (b64_encode ! n) \<noteq> 61"
    by (auto simp: sextet_ok_def Let_def)
qed

lemma pad_skipped: "b64_next c [EQ] = (code EQ, 0, [])" "b64_next c [EQ, EQ] = (code EQ, 0, [])"
  by (simp_all add: b64_decode_def)

lemma byte_parts:
  "code a div 4 < 64" "code a div 16 < 16" "code a div 64 < 4" "code a mod 4 < 4" "code a mod 16 < 16" "code a mod 64 < 64"
  using code_lt [of a] by (auto simp: less_mult_imp_div_less)

lemma b64_quad_one:
  "b64_quad [a] = [b64_encode ! (code a div 4), b64_encode ! (code a mod 4 * 16), EQ, EQ]"
  by (simp add: b64_quad_def Let_def drop_bits and_low push_bit_eq_mult)

lemma b64_quad_two:
  "b64_quad [a, b] = [b64_encode ! (code a div 4), b64_encode ! (code a mod 4 * 16 + code b div 16),
     b64_encode ! (code b mod 16 * 4), EQ]"
  using push_or [of "code b div 16" 4 "code a mod 4"] byte_parts [of b]
  by (simp add: b64_quad_def Let_def drop_bits and_low) (simp add: push_bit_eq_mult)

lemma b64_quad_three:
  "b64_quad [a, b, c] = [b64_encode ! (code a div 4), b64_encode ! (code a mod 4 * 16 + code b div 16),
     b64_encode ! (code b mod 16 * 4 + code c div 64), b64_encode ! (code c mod 64)]"
  using push_or [of "code b div 16" 4 "code a mod 4"] push_or [of "code c div 64" 2 "code b mod 16"]
    byte_parts [of b] byte_parts [of c]
  by (simp add: b64_quad_def Let_def drop_bits and_low)

lemma sextet_bounds:
  "code a mod 4 * 16 + code b div 16 < 64" "code b mod 16 * 4 + code c div 64 < 64"
  "code a mod 4 * 16 < 64" "code b mod 16 * 4 < 64"
  using byte_parts [of a] byte_parts [of b] byte_parts [of c] by linarith+

lemma b64_out_first:
  assumes "r < 16"
  shows "char_of (push_bit 2 (code a div 4) OR drop_bit 4 (code a mod 4 * 16 + r)) = a"
proof -
  have "drop_bit 4 (code a mod 4 * 16 + r) = code a mod 4" using assms by (simp add: drop_bits)
  then show ?thesis using push_or [of "code a mod 4" 2 "code a div 4"] by simp
qed

lemma b64_out_second:
  assumes "r < 4"
  shows "char_of (push_bit 4 (q * 16 + code b div 16) OR drop_bit 2 (code b mod 16 * 4 + r)) = b"
proof -
  have "drop_bit 2 (code b mod 16 * 4 + r) = code b mod 16" using assms by (simp add: drop_bits)
  then have "push_bit 4 (q * 16 + code b div 16) OR drop_bit 2 (code b mod 16 * 4 + r) = q * 256 + code b"
    using push_or [of "code b mod 16" 4 "q * 16 + code b div 16"] by (simp add: distrib_right)
  moreover have "char_of (q * 256 + code b) = b"
    using char_of_mod_256 [of "q * 256 + code b"] code_lt [of b] by simp
  ultimately show ?thesis by simp
qed

lemma b64_out_third: "char_of ((push_bit 6 (q * 4 + code c div 64) AND 0xc0) OR code c mod 64) = c"
proof -
  have "push_bit 6 (q * 4 + code c div 64) AND 0xc0 = push_bit 6 ((q * 4 + code c div 64) AND 3)"
    using push_bit_and [of 6 "q * 4 + code c div 64" 3] by simp
  also have "(q * 4 + code c div 64) AND 3 = code c div 64" using byte_parts(3) [of c] by (simp add: and_low)
  finally show ?thesis using push_or [of "code c mod 64" 6 "code c div 64"] by simp
qed

text \<open>One round of the decoder on a full group, and on the two padded ones at the end.\<close>

abbreviation sx :: "nat \<Rightarrow> char" where
  "sx n \<equiv> b64_encode ! n"

lemma b64_group_sextet:
  "i < 4 \<Longrightarrow> n < 64 \<Longrightarrow> b64_group i quad len c (sx n # r) = b64_group (Suc i) (quad[i := n]) (len + 1) (code (sx n)) r"
  using sextet_char(2) [of n] b64_group_step [of i "sx n # r" "code (sx n)" "n + 1" r quad len c] sextet_char(1) [of n 0 r]
  by (simp del: b64_next.simps)

lemma four: "length xs = 4 \<Longrightarrow> \<exists>a b c d. xs = [a, b, c, d]"
  by (cases xs; cases "tl xs"; cases "tl (tl xs)"; cases "tl (tl (tl xs))") auto

lemma b64_group_two:
  assumes "length quad = 4" "s0 < 64" "s1 < 64"
  shows "\<exists>q2 q3. b64_group 0 quad 0 0 (sx s0 # sx s1 # r) = b64_group 2 [s0, s1, q2, q3] 2 (code (sx s1)) r"
proof -
  obtain q0 q1 q2 q3 where q: "quad = [q0, q1, q2, q3]" using four [OF assms(1)] by blast
  have "b64_group 0 quad 0 0 (sx s0 # sx s1 # r) = b64_group (Suc 0) [s0, q1, q2, q3] 1 (code (sx s0)) (sx s1 # r)"
    using b64_group_sextet [of 0 s0 quad 0 0] assms(2) q by simp
  also have "\<dots> = b64_group (Suc (Suc 0)) [s0, s1, q2, q3] 2 (code (sx s1)) r"
    using b64_group_sextet [of "Suc 0" s1 "[s0, q1, q2, q3]" 1] assms(3) by simp
  finally show ?thesis unfolding numeral_2_eq_2 by blast
qed

lemma b64_group_third:
  assumes "s2 < 64"
  shows "b64_group 2 [s0, s1, q2, q3] 2 c (sx s2 # r) = b64_group 3 [s0, s1, s2, q3] 3 (code (sx s2)) r"
  using b64_group_sextet [of 2 s2 "[s0, s1, q2, q3]" 2 c r] assms by (simp add: numeral_3_eq_3 numeral_2_eq_2)

lemma b64_group_full:
  assumes "length quad = 4" "s0 < 64" "s1 < 64" "s2 < 64" "s3 < 64"
  shows "b64_group 0 quad 0 0 (sx s0 # sx s1 # sx s2 # sx s3 # r) = ([s0, s1, s2, s3], 4, code (sx s3), r)"
proof -
  have "b64_group 3 [s0, s1, s2, q3] 3 c (sx s3 # r) = ([s0, s1, s2, s3], 4, code (sx s3), r)" for q3 c
    using b64_group_sextet [of 3 s3 "[s0, s1, s2, q3]" 3 c r] assms(5) by (simp add: b64_group_end)
  then show ?thesis using b64_group_two [OF assms(1-3), of "sx s2 # sx s3 # r"] b64_group_third [OF assms(4)] by metis
qed

lemma b64_group_pad:
  assumes "length quad = 4" "s0 < 64" "s1 < 64"
  shows "\<exists>q2 q3. b64_group 0 quad 0 0 [sx s0, sx s1, EQ, EQ] = ([s0, s1, q2, q3], 3, code EQ, [])"
    and "s2 < 64 \<Longrightarrow> \<exists>q3. b64_group 0 quad 0 0 [sx s0, sx s1, sx s2, EQ] = ([s0, s1, s2, q3], 4, code EQ, [])"
proof -
  have "b64_group 2 quad 2 c [EQ, EQ] = (quad, 3, code EQ, [])" for quad c
    using b64_group_step [of 2 "[EQ, EQ]" "code EQ" 0 "[]" quad 2 c] pad_skipped(2) [of 0]
    by (simp add: b64_group_end del: b64_next.simps)
  then show "\<exists>q2 q3. b64_group 0 quad 0 0 [sx s0, sx s1, EQ, EQ] = ([s0, s1, q2, q3], 3, code EQ, [])"
    using b64_group_two [OF assms, of "[EQ, EQ]"] by metis
  have "b64_group 3 quad 3 c [EQ] = (quad, 4, code EQ, [])" for quad c
    using b64_group_step [of 3 "[EQ]" "code EQ" 0 "[]" quad 3 c] pad_skipped(1) [of 0]
    by (simp add: b64_group_end del: b64_next.simps)
  then show "s2 < 64 \<Longrightarrow> \<exists>q3. b64_group 0 quad 0 0 [sx s0, sx s1, sx s2, EQ] = ([s0, s1, s2, q3], 4, code EQ, [])"
    using b64_group_two [OF assms, of "[sx s2, EQ]"] b64_group_third by metis
qed

text \<open>The encoder without its buffer, and what the decoder makes of its text.\<close>

function b64_text :: "string \<Rightarrow> string" where
  "b64_text inp = (if inp = [] then [] else b64_quad (take 3 inp) @ b64_text (drop 3 inp))"
  by pat_completeness auto
termination
  by (relation "measure length") auto

declare b64_text.simps [simp del]

lemma b64_chunks:
  "b64_text [] = []" "b64_text [a] = b64_quad [a]" "b64_text [a, b] = b64_quad [a, b]"
  "b64_text (a # b # c # r) = b64_quad [a, b, c] @ b64_text r"
  by (subst b64_text.simps; simp add: b64_text.simps [of "[]"] eval_nat_numeral)+

lemma chunks_cases [case_names none one two three]:
  assumes "P []" "\<And>a. P [a]" "\<And>a b. P [a, b]" "\<And>a b c r. P r \<Longrightarrow> P (a # b # c # r)"
  shows "P (inp :: string)"
proof (induction "length inp" arbitrary: inp rule: less_induct)
  case less
  show ?case
  proof (cases inp)
    case (Cons a r1)
    show ?thesis
    proof (cases r1)
      case (Cons b r2)
      show ?thesis
      proof (cases r2)
        case (Cons c r)
        then have "P r" using less \<open>inp = a # r1\<close> \<open>r1 = b # r2\<close> by simp
        then show ?thesis using assms(4) \<open>inp = a # r1\<close> \<open>r1 = b # r2\<close> Cons by simp
      qed (use assms \<open>inp = a # r1\<close> \<open>r1 = b # r2\<close> in simp)
    qed (use assms \<open>inp = a # r1\<close> in simp)
  qed (use assms in simp)
qed

lemma b64_encode_loop_text:
  "done + int (length (b64_text inp)) + 1 < out_size \<Longrightarrow>
     b64_encode_loop out_size done inp out = (done + int (length (b64_text inp)), out @ b64_text inp @ [NUL])"
proof (induction inp arbitrary: "done" out rule: chunks_cases)
  case (three a b c r)
  then show ?case by (subst b64_encode_loop.simps) (simp add: b64_chunks b64_quad_three)
qed (subst b64_encode_loop.simps, simp add: b64_chunks b64_quad_one b64_quad_two b64_encode_loop.simps [of _ _ "[]"])+

lemma b64_decode_loop_text:
  "length quad = 4 \<Longrightarrow> done + int (length inp) + 1 < out_size \<Longrightarrow>
     b64_decode_loop out_size quad done (b64_text inp) out = (done + int (length inp), out @ inp @ [NUL])"
proof (induction inp arbitrary: quad "done" out rule: chunks_cases)
  case none
  then show ?case by (simp add: b64_chunks b64_decode_loop.simps)
next
  case (one a)
  obtain q2 q3 where "b64_group 0 quad 0 0 (b64_quad [a]) = ([code a div 4, code a mod 4 * 16, q2, q3], 3, code EQ, [])"
    using b64_group_pad(1) [OF one(1) byte_parts(1) sextet_bounds(3), of a a] unfolding b64_quad_one by blast
  then show ?case using one b64_out_first [of 0 a]
    by (subst b64_decode_loop.simps) (simp add: b64_chunks b64_quad_one b64_decode_loop.simps [of _ _ _ "[]"])
next
  case (two a b)
  obtain q3 where "b64_group 0 quad 0 0 (b64_quad [a, b])
      = ([code a div 4, code a mod 4 * 16 + code b div 16, code b mod 16 * 4, q3], 4, code EQ, [])"
    using b64_group_pad(2) [OF two(1) byte_parts(1) sextet_bounds(1) sextet_bounds(4), of a a b b] unfolding b64_quad_two by blast
  then show ?case using two byte_parts [of b] b64_out_first [of "code b div 16" a] b64_out_second [of 0 "code a mod 4" b]
    by (subst b64_decode_loop.simps) (simp add: b64_chunks b64_quad_two b64_decode_loop.simps [of _ _ _ "[]"])
next
  case (three a b c r)
  let ?quad = "[code a div 4, code a mod 4 * 16 + code b div 16, code b mod 16 * 4 + code c div 64, code c mod 64]"
  have "b64_group 0 quad 0 0 (b64_quad [a, b, c] @ b64_text r) = (?quad, 4, code (sx (code c mod 64)), b64_text r)"
    using b64_group_full [OF three(2) byte_parts(1) sextet_bounds(1) sextet_bounds(2) byte_parts(6), of a a b b c c "b64_text r"]
    unfolding b64_quad_three by simp
  moreover have "code (sx (code c mod 64)) \<noteq> code EQ" using sextet_char(3) [OF byte_parts(6), of c] by simp
  ultimately show ?case using three(1) [of ?quad "done + 3" "out @ [a, b, c]"] three(3)
      b64_out_first [of "code b div 16" a] b64_out_second [of "code c div 64" "code a mod 4" b]
      b64_out_third [of "code b mod 16" c] byte_parts [of b] byte_parts [of c]
    by (subst b64_decode_loop.simps) (simp add: b64_chunks b64_quad_three)
qed

lemma sx_not_NUL: "n < 64 \<Longrightarrow> sx n \<noteq> NUL"
  using sextet_char(2) [of n] by auto

lemma b64_text_nul_free: "nul_free (b64_text inp)"
proof (induction inp rule: chunks_cases)
  case (three a b c r)
  then show ?case by (simp add: b64_chunks b64_quad_three sx_not_NUL byte_parts sextet_bounds)
qed (simp_all add: b64_chunks b64_quad_one b64_quad_two sx_not_NUL byte_parts sextet_bounds)

text \<open>
  C23: \<open>lws_b64_decode_string\<close> gives back, byte for byte, what \<open>lws_b64_encode_string\<close> was given,
  whatever its uninitialised array holds, if both output buffers are long enough.
\<close>

theorem b64_round_trip:
  assumes "int (length (b64_text inp)) + 1 < size1" and "int (length inp) + 1 < size2" and "length junk = 4"
  shows "lws_b64_encode_string inp size1 = (int (length (b64_text inp)), b64_text inp @ [NUL])
    \<and> lws_b64_decode_string junk (b64_text inp @ [NUL]) size2 = (int (length inp), inp @ [NUL])"
  using b64_encode_loop_text [of 0 inp size1 "[]"] b64_decode_loop_text [OF assms(3), of 0 inp size2 "[]"] assms(1,2)
    c_str_NUL [OF b64_text_nul_free, of inp "[]"]
  by (simp add: lws_b64_encode_string_def lws_b64_decode_string_def)

theorem b64_round_trip_witness:
  "lws_b64_encode_string ''any'' 10 = (4, b64_text ''any'' @ [NUL])
   \<and> lws_b64_decode_string [9, 9, 9, 9] (b64_text ''any'' @ [NUL]) 5 = (3, ''any'' @ [NUL])"
proof -
  have "length (b64_text ''any'') = 4" by (simp add: b64_chunks b64_quad_three)
  then show ?thesis using b64_round_trip [of "''any''" 10 5 "[9, 9, 9, 9]"] by simp
qed

lemma b64_next_c: "b64_next c s = (c', v, r) \<Longrightarrow> s \<noteq> [] \<Longrightarrow> nul_free s \<Longrightarrow> c' \<noteq> 0 \<and> nul_free r"
proof (induction c s rule: b64_next.induct)
  case (2 c x s)
  have "code x \<noteq> 0" using 2(4) of_char_eq_iff [of x NUL, where ?'a = nat] by simp
  then show ?case using 2 by (cases "s = []") (auto simp: Let_def split: if_splits)
qed simp

lemma b64_group_len:
  "b64_group i quad len c inp = (quad', len', c', r) \<Longrightarrow> nul_free inp \<Longrightarrow>
     nul_free r \<and> len \<le> len' \<and> (i < 4 \<and> inp \<noteq> [] \<longrightarrow> len < len')"
proof (induction "4 - i" arbitrary: i quad len c inp)
  case 0
  then show ?case by (simp add: b64_group_end)
next
  case (Suc k)
  show ?case
  proof (cases "inp = []")
    case False
    obtain c1 v r1 where n: "b64_next 0 inp = (c1, v, r1)" by (cases "b64_next 0 inp")
    then have "c1 \<noteq> 0 \<and> nul_free r1" using False Suc.prems(2) b64_next_c by blast
    then show ?thesis
      using Suc.prems(1) Suc.hyps(2) Suc.hyps(1) [of "i + 1"] b64_group_step [OF _ False n, of i quad len c] by fastforce
  qed (use Suc.prems in \<open>simp add: b64_group_end\<close>)
qed

text \<open>One round: what is written and how the count of it moves.\<close>

lemma b64_decode_loop_round:
  assumes "inp \<noteq> []" and "b64_group 0 quad 0 0 inp = (quad', len, c, r)" and "\<not> out_size < done + len - 1"
    and "len' = (if r = [] \<and> c = code EQ then len - 1 else len)"
  shows "\<exists>w. int (length w) \<le> max 0 (len' - 1) \<and>
    b64_decode_loop out_size quad done inp out = b64_decode_loop out_size quad' (done + (len' - 1)) r (out @ w)"
proof -
  let ?w = "(if len' \<ge> 2 then [char_of (push_bit 2 (quad' ! 0) OR drop_bit 4 (quad' ! 1))] else [])
    @ (if len' \<ge> 3 then [char_of (push_bit 4 (quad' ! 1) OR drop_bit 2 (quad' ! 2))] else [])
    @ (if len' \<ge> 4 then [char_of ((push_bit 6 (quad' ! 2) AND 0xc0) OR quad' ! 3)] else [])"
  have "b64_decode_loop out_size quad done inp out = b64_decode_loop out_size quad' (done + (len' - 1)) r (out @ ?w)"
    using assms by (subst b64_decode_loop.simps) (simp only: Let_def prod.case if_False if_True simp_thms append.assoc)
  moreover have "int (length ?w) \<le> max 0 (len' - 1)" by simp
  ultimately show ?thesis by blast
qed

lemma b64_decode_loop_fits:
  "b64_decode_loop out_size quad done inp out = (ret, out') \<Longrightarrow> int (length out) \<le> out_size \<Longrightarrow>
     int (length out) \<le> done \<or> inp = [] \<and> int (length out) \<le> done + 1 \<Longrightarrow> nul_free inp \<Longrightarrow>
     int (length out') \<le> out_size"
proof (induction "length inp" arbitrary: quad "done" inp out rule: less_induct)
  case less
  show ?case
  proof (cases "inp = []")
    case True
    then show ?thesis using less.prems by (subst (asm) b64_decode_loop.simps) (auto split: if_splits)
  next
    case False
    obtain quad1 len c r where g: "b64_group 0 quad 0 0 inp = (quad1, len, c, r)" by (cases "b64_group 0 quad 0 0 inp")
    have r: "nul_free r" "1 \<le> len" "length r < length inp"
      using b64_group_len [OF g less.prems(4)] b64_group_shorter [OF g False] False by auto
    show ?thesis
    proof (cases "out_size < done + len - 1")
      case True
      then have "b64_decode_loop out_size quad done inp out = (- 1, out)"
        using False g by (subst b64_decode_loop.simps) simp
      then show ?thesis using less.prems(1,2) by simp
    next
      case room: False
      define len' where "len' = (if r = [] \<and> c = code EQ then len - 1 else len)"
      obtain w where w: "int (length w) \<le> max 0 (len' - 1)"
        "b64_decode_loop out_size quad done inp out = b64_decode_loop out_size quad1 (done + (len' - 1)) r (out @ w)"
        using b64_decode_loop_round [OF False g room len'_def] by blast
      have out: "int (length out) \<le> done" using less.prems(3) False by simp
      have "len' = len \<or> r = [] \<and> len' = len - 1" unfolding len'_def by simp
      then have "int (length (out @ w)) \<le> done + (len' - 1) \<or> r = [] \<and> int (length (out @ w)) \<le> done + (len' - 1) + 1"
        and "int (length (out @ w)) \<le> out_size"
        using w(1) r(2) out room less.prems(2) by auto
      then show ?thesis using less.hyps [OF r(3)] less.prems(1) w(2) r(1) by metis
    qed
  qed
qed

lemma b64_encode_loop_fits:
  "b64_encode_loop out_size done inp out = (ret, out') \<Longrightarrow> int (length out) = done \<Longrightarrow> done \<le> out_size \<Longrightarrow>
     int (length out') \<le> out_size"
proof (induction out_size "done" inp out rule: b64_encode_loop.induct)
  case (1 out_size d inp out)
  have "length (b64_quad t) = 4" for t by (simp add: b64_quad_def Let_def)
  then show ?case using 1 by (subst (asm) (2) b64_encode_loop.simps) (auto split: if_splits)
qed

text \<open>
  C24: neither function writes behind its output buffer, whatever text it is given: at most
  \<open>out_size\<close> bytes, the closing NUL included.
\<close>

theorem b64_stays_in_buffer:
  assumes "0 \<le> out_size"
  shows "int (length (snd (lws_b64_encode_string inp out_size))) \<le> out_size
    \<and> int (length (snd (lws_b64_decode_string junk inp out_size))) \<le> out_size"
  using assms b64_encode_loop_fits [of out_size 0 inp "[]"] b64_decode_loop_fits [of out_size junk 0 "c_str inp" "[]"]
  by (cases "b64_encode_loop out_size 0 inp []"; cases "b64_decode_loop out_size junk 0 (c_str inp) []")
    (simp add: lws_b64_encode_string_def lws_b64_decode_string_def)

theorem b64_stays_in_buffer_witness:
  "int (length (snd (lws_b64_decode_string [0, 0, 0, 0] ''=Zz!'' 3))) \<le> 3 \<and> (0 :: int) \<le> 3"
  using b64_stays_in_buffer [of 3 "''=Zz!''" "[0, 0, 0, 0]"] by simp

end
