(* ===== verification/Lws_Sha1.thy ===== *)
theory Lws_Sha1
  imports Prelude "HOL-Library.Word"
begin

text \<open>
  SHA-1 as libwebsockets computes it for the handshake
  (\<open>src/libwebsockets-2.2.1/lib/sha-1.c\<close>), on a machine with the least significant byte first. A
  context holds the five words of the hash, the number of bits hashed so far, a block of 64 bytes
  and the number of bytes in it. The reference is the definition of the standard: the message
  schedule of 80 words, the padded message, one block after the other.
\<close>

unbundle bit_operations_syntax

section \<open>The code\<close>

record sha1_ctxt =
  ctxt_h :: "u32 list"
  ctxt_c :: "64 word"
  ctxt_m :: "u8 list"
  COUNT :: u8

definition K_table :: "u32 list" where
  "K_table = [0x5a827999, 0x6ed9eba1, 0x8f1bbcdc, 0xca62c1d6]"

definition K :: "nat \<Rightarrow> u32" where
  "K t = K_table ! (t div 20)"

definition F0 :: "u32 \<Rightarrow> u32 \<Rightarrow> u32 \<Rightarrow> u32" where
  "F0 b c d = (b AND c) OR (NOT b AND d)"

definition F1 :: "u32 \<Rightarrow> u32 \<Rightarrow> u32 \<Rightarrow> u32" where
  "F1 b c d = (b XOR c) XOR d"

definition F2 :: "u32 \<Rightarrow> u32 \<Rightarrow> u32 \<Rightarrow> u32" where
  "F2 b c d = (b AND c) OR (b AND d) OR (c AND d)"

definition F3 :: "u32 \<Rightarrow> u32 \<Rightarrow> u32 \<Rightarrow> u32" where
  "F3 b c d = (b XOR c) XOR d"

definition S :: "nat \<Rightarrow> u32 \<Rightarrow> u32" where
  "S n x = push_bit n x OR drop_bit (32 - n) x"

text \<open>The bytes of each word turned round, and the block read as words.\<close>

fun swap_bytes :: "u8 list \<Rightarrow> u8 list" where
  "swap_bytes (a # b # c # d # r) = d # c # b # a # swap_bytes r"
| "swap_bytes r = r"

fun as_b32 :: "u8 list \<Rightarrow> u32 list" where
  "as_b32 (a # b # c # d # r) =
     (ucast a OR push_bit 8 (ucast b) OR push_bit 16 (ucast c) OR push_bit 24 (ucast d)) # as_b32 r"
| "as_b32 r = []"

text \<open>
  A round: the words \<open>W\<close> of the block, used as a ring of the last 16 words of the schedule, and
  the five variables.
\<close>

type_synonym vars = "u32 \<times> u32 \<times> u32 \<times> u32 \<times> u32"

definition next_W :: "nat \<Rightarrow> u32 list \<Rightarrow> u32 list" where
  "next_W s W =
     W[s := S 1 (W ! ((s + 13) AND 0x0f) XOR W ! ((s + 8) AND 0x0f) XOR W ! ((s + 2) AND 0x0f) XOR W ! s)]"

definition mix :: "(u32 \<Rightarrow> u32 \<Rightarrow> u32 \<Rightarrow> u32) \<Rightarrow> nat \<Rightarrow> u32 \<Rightarrow> vars \<Rightarrow> vars" where
  "mix F t w = (\<lambda>(a, b, c, d, e). (S 5 a + F b c d + e + w + K t, a, S 30 b, c, d))"

definition first_round :: "nat \<Rightarrow> u32 list \<times> vars \<Rightarrow> u32 list \<times> vars" where
  "first_round t = (\<lambda>(W, v).
     let s = t AND 0x0f;
         W = (if t \<ge> 16 then next_W s W else W)
     in (W, mix F0 t (W ! s) v))"

definition later_round :: "(u32 \<Rightarrow> u32 \<Rightarrow> u32 \<Rightarrow> u32) \<Rightarrow> nat \<Rightarrow> u32 list \<times> vars \<Rightarrow> u32 list \<times> vars" where
  "later_round F t = (\<lambda>(W, v).
     let s = t AND 0x0f;
         W = next_W s W
     in (W, mix F t (W ! s) v))"

definition sha1_step :: "sha1_ctxt \<Rightarrow> sha1_ctxt" where
  "sha1_step ctxt =
     (let W = as_b32 (swap_bytes (ctxt_m ctxt));
          H = ctxt_h ctxt;
          st = (W, H ! 0, H ! 1, H ! 2, H ! 3, H ! 4);
          st = fold first_round [0..<20] st;
          st = fold (later_round F1) [20..<40] st;
          st = fold (later_round F2) [40..<60] st;
          (W, a, b, c, d, e) = fold (later_round F3) [60..<80] st
      in ctxt\<lparr>ctxt_h := [H ! 0 + a, H ! 1 + b, H ! 2 + c, H ! 3 + d, H ! 4 + e],
              ctxt_m := replicate 64 0\<rparr>)"

definition sha1_init :: sha1_ctxt where
  "sha1_init =
     \<lparr>ctxt_h = [0x67452301, 0xefcdab89, 0x98badcfe, 0x10325476, 0xc3d2e1f0],
      ctxt_c = 0, ctxt_m = replicate 64 0, COUNT = 0\<rparr>"

definition PUTPAD :: "u8 \<Rightarrow> sha1_ctxt \<Rightarrow> sha1_ctxt" where
  "PUTPAD x ctxt =
     (let ctxt = ctxt\<lparr>ctxt_m := (ctxt_m ctxt)[unat (COUNT ctxt mod 64) := x], COUNT := (COUNT ctxt + 1) mod 64\<rparr>
      in if COUNT ctxt mod 64 = 0 then sha1_step ctxt else ctxt)"

definition put_bytes :: "nat \<Rightarrow> u8 list \<Rightarrow> u8 list \<Rightarrow> u8 list" where
  "put_bytes i bs m = take i m @ bs @ drop (i + length bs) m"

definition c_byte :: "sha1_ctxt \<Rightarrow> nat \<Rightarrow> u8" where
  "c_byte ctxt n = ucast (drop_bit (8 * n) (ctxt_c ctxt))"

text \<open>\<open>sha1_pad\<close> fills the block with zeros up to the last eight bytes, if need be through a further
  block.\<close>

definition pad_zeros :: "sha1_ctxt \<Rightarrow> sha1_ctxt" where
  "pad_zeros ctxt =
     (let padstart = unat (COUNT ctxt mod 64);
          padlen = 64 - padstart;
          (ctxt, padstart, padlen) =
            (if padlen < 8 then
               let ctxt = ctxt\<lparr>ctxt_m := put_bytes padstart (replicate padlen 0) (ctxt_m ctxt),
                               COUNT := (COUNT ctxt + of_nat padlen) mod 64\<rparr>;
                   ctxt = sha1_step ctxt;
                   padstart = unat (COUNT ctxt mod 64)
               in (ctxt, padstart, 64 - padstart)
             else (ctxt, padstart, padlen))
      in ctxt\<lparr>ctxt_m := put_bytes padstart (replicate (padlen - 8) 0) (ctxt_m ctxt),
              COUNT := (COUNT ctxt + (of_nat padlen - 8)) mod 64\<rparr>)"

definition sha1_pad :: "sha1_ctxt \<Rightarrow> sha1_ctxt" where
  "sha1_pad ctxt =
     fold (\<lambda>n ctxt. PUTPAD (c_byte ctxt n) ctxt) [7, 6, 5, 4, 3, 2, 1, 0] (pad_zeros (PUTPAD 0x80 ctxt))"

function sha1_loop :: "u8 list \<Rightarrow> sha1_ctxt \<Rightarrow> sha1_ctxt" where
  "sha1_loop input ctxt =
     (if input = [] then ctxt
      else
        let gapstart = unat (COUNT ctxt mod 64);
            gaplen = 64 - gapstart;
            copysiz = (if gaplen < length input then gaplen else length input);
            ctxt = ctxt\<lparr>ctxt_m := put_bytes gapstart (take copysiz input) (ctxt_m ctxt),
                        COUNT := (COUNT ctxt + of_nat copysiz) mod 64,
                        ctxt_c := ctxt_c ctxt + of_nat (copysiz * 8)\<rparr>;
            ctxt = (if COUNT ctxt mod 64 = 0 then sha1_step ctxt else ctxt)
        in sha1_loop (drop copysiz input) ctxt)"
  by pat_completeness auto
termination
proof (relation "measure (\<lambda>(input, ctxt). length input)", goal_cases)
  case (2 input ctxt)
  have "unat (COUNT ctxt mod 64) < 64" by (simp add: unat_mod)
  then show ?case using 2 by auto
qed simp

declare sha1_loop.simps [simp del]

definition word_bytes :: "u32 \<Rightarrow> u8 list" where
  "word_bytes w = [ucast (drop_bit 24 w), ucast (drop_bit 16 w), ucast (drop_bit 8 w), ucast w]"

definition sha1_result :: "sha1_ctxt \<Rightarrow> u8 list" where
  "sha1_result ctxt = concat (map word_bytes (ctxt_h (sha1_pad ctxt)))"

definition lws_SHA1 :: "u8 list \<Rightarrow> u8 list" where
  "lws_SHA1 d = sha1_result (sha1_loop d sha1_init)"

section \<open>The standard\<close>

fun schedule :: "u32 list \<Rightarrow> nat \<Rightarrow> u32" where
  "schedule M t =
     (if t < 16 then M ! t
      else S 1 (schedule M (t - 3) XOR schedule M (t - 8) XOR schedule M (t - 14) XOR schedule M (t - 16)))"

declare schedule.simps [simp del]

fun big_endian :: "u8 list \<Rightarrow> u32 list" where
  "big_endian (a # b # c # d # r) =
     (push_bit 24 (ucast a) OR push_bit 16 (ucast b) OR push_bit 8 (ucast c) OR ucast d) # big_endian r"
| "big_endian r = []"

definition F_of :: "nat \<Rightarrow> u32 \<Rightarrow> u32 \<Rightarrow> u32 \<Rightarrow> u32" where
  "F_of t = (if t < 20 then F0 else if t < 40 then F1 else if t < 60 then F2 else F3)"

definition compress :: "u32 list \<Rightarrow> u8 list \<Rightarrow> u32 list" where
  "compress H block =
     (let (a, b, c, d, e) =
            fold (\<lambda>t. mix (F_of t) t (schedule (big_endian block) t)) [0..<80] (H ! 0, H ! 1, H ! 2, H ! 3, H ! 4)
      in [H ! 0 + a, H ! 1 + b, H ! 2 + c, H ! 3 + d, H ! 4 + e])"

fun blocks :: "u32 list \<Rightarrow> u8 list \<Rightarrow> u32 list \<times> u8 list" where
  "blocks H msg = (if length msg < 64 then (H, msg) else blocks (compress H (take 64 msg)) (drop 64 msg))"

declare blocks.simps [simp del]

definition padding :: "nat \<Rightarrow> u8 list" where
  "padding n =
     0x80 # replicate ((119 - n mod 64) mod 64) 0
       @ map (\<lambda>k. ucast (drop_bit (8 * k) (of_nat (n * 8) :: 64 word))) [7, 6, 5, 4, 3, 2, 1, 0]"

definition SHA1 :: "u8 list \<Rightarrow> u8 list" where
  "SHA1 msg =
     concat (map word_bytes
       (fst (blocks [0x67452301, 0xefcdab89, 0x98badcfe, 0x10325476, 0xc3d2e1f0] (msg @ padding (length msg)))))"

section \<open>One block\<close>

text \<open>The rounds of the four loops as one.\<close>

definition any_round :: "nat \<Rightarrow> u32 list \<times> vars \<Rightarrow> u32 list \<times> vars" where
  "any_round t = (\<lambda>(W, v).
     let W = (if t \<ge> 16 then next_W (t mod 16) W else W)
     in (W, mix (F_of t) t (W ! (t mod 16)) v))"

lemma and_15: "n AND 0x0f = n mod (16 :: nat)"
  using take_bit_eq_mask [of 4 n] by (simp add: take_bit_eq_mod mask_eq_exp_minus_1)

lemma loops_as_one:
  "fold (later_round F3) [60..<80] (fold (later_round F2) [40..<60] (fold (later_round F1) [20..<40] (fold first_round [0..<20] st)))
    = fold any_round [0..<80] st"
proof -
  have "fold first_round [0..<20] st = fold any_round [0..<20] st" for st
    by (rule fold_cong) (auto simp: first_round_def any_round_def F_of_def and_15 fun_eq_iff Let_def)
  moreover have "fold (later_round F1) [20..<40] st = fold any_round [20..<40] st" for st
    by (rule fold_cong) (auto simp: later_round_def any_round_def F_of_def and_15 fun_eq_iff Let_def)
  moreover have "fold (later_round F2) [40..<60] st = fold any_round [40..<60] st" for st
    by (rule fold_cong) (auto simp: later_round_def any_round_def F_of_def and_15 fun_eq_iff Let_def)
  moreover have "fold (later_round F3) [60..<80] st = fold any_round [60..<80] st" for st
    by (rule fold_cong) (auto simp: later_round_def any_round_def F_of_def and_15 fun_eq_iff Let_def)
  moreover have "[0..<80] = [0..<20] @ [20..<40] @ [40..<60] @ [60..<(80::nat)]"
    using upt_add_eq_append [of 0 20 60] upt_add_eq_append [of 20 40 40] upt_add_eq_append [of 40 60 20] by simp
  ultimately show ?thesis by (simp add: fold_append)
qed

text \<open>The ring holds the last 16 words of the schedule.\<close>

definition ring :: "u32 list \<Rightarrow> nat \<Rightarrow> u32 list \<Rightarrow> bool" where
  "ring M t W \<longleftrightarrow> length W = 16 \<and> (\<forall>k. k < max t 16 \<and> max t 16 \<le> k + 16 \<longrightarrow> W ! (k mod 16) = schedule M k)"

lemma schedule_block: "t < 16 \<Longrightarrow> schedule M t = M ! t"
  by (subst schedule.simps) simp

lemma ring_start: "length M = 16 \<Longrightarrow> ring M 0 M"
  by (simp add: ring_def schedule_block)

lemma mod_16_neq: "k < t \<Longrightarrow> t < k + 16 \<Longrightarrow> k mod 16 \<noteq> t mod (16 :: nat)"
proof
  assume "k < t" "t < k + 16" "k mod 16 = t mod 16"
  then have "16 dvd t - k" using mod_eq_dvd_iff_nat [of k t 16] by simp
  then show False using \<open>k < t\<close> \<open>t < k + 16\<close> by (auto dest: dvd_imp_le)
qed

lemma ring_index: "16 \<le> t \<Longrightarrow> i \<le> 16 \<Longrightarrow> (t mod 16 + (16 - i)) mod 16 = (t - i) mod (16 :: nat)"
proof -
  assume "16 \<le> t" "i \<le> 16"
  then have "t + (16 - i) = (t - i) + 16" by simp
  then have "(t + (16 - i)) mod 16 = (t - i) mod 16" by simp
  then show ?thesis by (simp add: mod_add_left_eq)
qed

lemma ring_next:
  assumes r: "ring M t W" and t: "16 \<le> t"
  shows "ring M (t + 1) (next_W (t mod 16) W)" "next_W (t mod 16) W ! (t mod 16) = schedule M t"
proof -
  have len: "length W = 16" using r by (simp add: ring_def)
  have old: "W ! (k mod 16) = schedule M k" if "k < t" "t \<le> k + 16" for k
    using r t that by (simp add: ring_def max_def)
  have "W ! ((t mod 16 + (16 - i)) mod 16) = schedule M (t - i)" if "0 < i" "i \<le> 16" for i
    unfolding ring_index [OF t that(2)] by (rule old) (use t that in simp_all)
  from this [of 3] this [of 8] this [of 14] this [of 16]
  have "W ! ((t mod 16 + 13) mod 16) = schedule M (t - 3)" "W ! ((t mod 16 + 8) mod 16) = schedule M (t - 8)"
    "W ! ((t mod 16 + 2) mod 16) = schedule M (t - 14)" "W ! (t mod 16) = schedule M (t - 16)" by simp_all
  then have nw: "next_W (t mod 16) W = W[t mod 16 := schedule M t]"
    using t by (subst schedule.simps) (simp add: next_W_def and_15)
  show "next_W (t mod 16) W ! (t mod 16) = schedule M t" by (simp add: nw len)
  show "ring M (t + 1) (next_W (t mod 16) W)"
    unfolding ring_def nw
  proof (intro conjI allI impI)
    show "length (W[t mod 16 := schedule M t]) = 16" by (simp add: len)
    fix k
    assume "k < max (t + 1) 16 \<and> max (t + 1) 16 \<le> k + 16"
    then have k: "k \<le> t" "t < k + 16" using t by auto
    show "W[t mod 16 := schedule M t] ! (k mod 16) = schedule M k"
    proof (cases "k = t")
      case True
      then show ?thesis by (simp add: len)
    next
      case False
      then show ?thesis using k old [of k] mod_16_neq [of k t] by (simp add: nth_list_update)
    qed
  qed
qed

lemma rounds_follow_schedule:
  assumes "length M = 16"
  shows "\<exists>W. ring M t W \<and> fold any_round [0..<t] (M, v)
    = (W, fold (\<lambda>t. mix (F_of t) t (schedule M t)) [0..<t] v)"
proof (induction t)
  case 0
  then show ?case using ring_start [OF assms] by simp
next
  case (Suc t)
  then obtain W where W: "ring M t W"
    "fold any_round [0..<t] (M, v) = (W, fold (\<lambda>t. mix (F_of t) t (schedule M t)) [0..<t] v)" by blast
  show ?case
  proof (cases "16 \<le> t")
    case True
    then have "any_round t (W, x) = (next_W (t mod 16) W, mix (F_of t) t (schedule M t) x)" for x
      using ring_next(2) [OF W(1) True] by (simp add: any_round_def Let_def)
    then show ?thesis using ring_next(1) [OF W(1) True] W(2) by simp
  next
    case False
    then have "W ! t = schedule M t" "ring M (Suc t) W" using W(1) by (simp_all add: ring_def)
    moreover from this have "any_round t (W, x) = (W, mix (F_of t) t (schedule M t) x)" for x
      using False by (simp add: any_round_def Let_def)
    ultimately show ?thesis using W(2) by simp
  qed
qed

lemma words_of_block: "as_b32 (swap_bytes m) = big_endian m"
  by (induction m rule: swap_bytes.induct) (simp_all add: ac_simps)

lemma length_big_endian: "length (big_endian m) = length m div 4"
  by (induction m rule: big_endian.induct) simp_all

lemma sha1_step_compress:
  assumes "length (ctxt_m ctxt) = 64"
  shows "sha1_step ctxt = ctxt\<lparr>ctxt_h := compress (ctxt_h ctxt) (ctxt_m ctxt), ctxt_m := replicate 64 0\<rparr>"
proof -
  let ?M = "big_endian (ctxt_m ctxt)" and ?H = "ctxt_h ctxt"
  let ?v = "(?H ! 0, ?H ! 1, ?H ! 2, ?H ! 3, ?H ! 4)"
  have "length ?M = 16" using assms by (simp add: length_big_endian)
  then obtain W where W: "fold any_round [0..<80] (?M, ?v) = (W, fold (\<lambda>t. mix (F_of t) t (schedule ?M t)) [0..<80] ?v)"
    using rounds_follow_schedule by blast
  obtain a b c d e where v: "fold (\<lambda>t. mix (F_of t) t (schedule ?M t)) [0..<80] ?v = (a, b, c, d, e)"
    by (rule prod_cases5)
  show ?thesis
    unfolding sha1_step_def compress_def Let_def words_of_block loops_as_one W v by (simp only: prod.case)
qed

section \<open>Block after block\<close>

lemma blocks_rest: "length (snd (blocks H a)) = length a mod 64"
proof (induction H a rule: blocks.induct)
  case (1 H a)
  then show ?case by (subst blocks.simps) (simp add: le_mod_geq)
qed

lemma blocks_append: "blocks (fst (blocks H a)) (snd (blocks H a) @ b) = blocks H (a @ b)"
proof (induction H a rule: blocks.induct)
  case (1 H a)
  show ?case
  proof (cases "length a < 64")
    case True
    then show ?thesis by (simp add: blocks.simps [of H a])
  next
    case False
    then have "blocks H (a @ b) = blocks (compress H (take 64 a)) (drop 64 a @ b)"
      by (subst blocks.simps) simp
    then show ?thesis using 1 False by (simp add: blocks.simps [of H a])
  qed
qed

lemma blocks_short: "length a < 64 \<Longrightarrow> blocks H a = (H, a)"
  by (simp add: blocks.simps)

lemma blocks_full: "length a = 64 \<Longrightarrow> blocks H a = (compress H a, [])"
  by (simp add: blocks.simps)

text \<open>A context with part of a block in it; the bytes behind it are zero.\<close>

definition holding :: "64 word \<Rightarrow> u32 list \<times> u8 list \<Rightarrow> sha1_ctxt" where
  "holding c = (\<lambda>(H, rest).
     \<lparr>ctxt_h = H, ctxt_c = c, ctxt_m = rest @ replicate (64 - length rest) 0, COUNT = of_nat (length rest)\<rparr>)"

lemma count_mod: "n \<le> 64 \<Longrightarrow> (of_nat n :: u8) mod 64 = of_nat (n mod 64)"
  by (simp add: word_unat_eq_iff unat_mod unsigned_of_nat take_bit_nat_eq_self)

lemma count_unat: "n \<le> 64 \<Longrightarrow> unat ((of_nat n :: u8) mod 64) = n mod 64"
  by (simp add: unat_mod unsigned_of_nat take_bit_nat_eq_self)

text \<open>Bytes are put behind those in the block.\<close>

lemma put_in_block:
  assumes "length rest < 64" "length rest + length bs \<le> 64"
  shows "(holding c (H, rest))\<lparr>ctxt_m := put_bytes (length rest) bs (ctxt_m (holding c (H, rest))),
      COUNT := (COUNT (holding c (H, rest)) + of_nat (length bs)) mod 64\<rparr>
    = (if length rest + length bs < 64 then holding c (H, rest @ bs)
       else \<lparr>ctxt_h = H, ctxt_c = c, ctxt_m = rest @ bs, COUNT = 0\<rparr>)"
proof -
  have "put_bytes (length rest) bs (rest @ replicate (64 - length rest) 0)
      = (rest @ bs) @ replicate (64 - length (rest @ bs)) 0"
    using assms by (simp add: put_bytes_def)
  moreover have "((of_nat (length rest) + of_nat (length bs)) mod 64 :: u8) = of_nat ((length rest + length bs) mod 64)"
    using count_mod [OF assms(2)] by simp
  ultimately show ?thesis using assms(2) by (auto simp: holding_def)
qed

lemma step_block:
  assumes "length block = 64"
  shows "sha1_step \<lparr>ctxt_h = H, ctxt_c = c, ctxt_m = block, COUNT = 0\<rparr> = holding c (blocks H block)"
  using sha1_step_compress [of "\<lparr>ctxt_h = H, ctxt_c = c, ctxt_m = block, COUNT = 0\<rparr>"] assms
  by (simp add: holding_def blocks_full)

lemma PUTPAD_holding:
  assumes "length rest < 64"
  shows "PUTPAD x (holding c (H, rest)) = holding c (blocks H (rest @ [x]))"
proof -
  have len: "unat (of_nat (length rest) mod 64 :: u8) = length rest" using assms count_unat [of "length rest"] by simp
  have upd: "(rest @ replicate (64 - length rest) 0)[length rest := x] = put_bytes (length rest) [x] (rest @ replicate (64 - length rest) 0)"
    using assms by (simp add: put_bytes_def list_update_append Cons_replicate_eq upd_conv_take_nth_drop)
  have "PUTPAD x (holding c (H, rest)) =
      (let ctxt = (if length rest + 1 < 64 then holding c (H, rest @ [x])
         else \<lparr>ctxt_h = H, ctxt_c = c, ctxt_m = rest @ [x], COUNT = 0\<rparr>)
       in if COUNT ctxt mod 64 = 0 then sha1_step ctxt else ctxt)"
    using put_in_block [OF assms, of "[x]" c H] assms len upd
    by (simp add: PUTPAD_def holding_def)
  also have "\<dots> = holding c (blocks H (rest @ [x]))"
  proof (cases "length rest + 1 < 64")
    case True
    then have "unat (COUNT (holding c (H, rest @ [x])) mod 64) = length rest + 1"
      using count_unat [of "length rest + 1"] by (simp add: holding_def)
    then have "COUNT (holding c (H, rest @ [x])) mod 64 \<noteq> 0" by (metis add_is_0 one_neq_zero unat_0)
    then show ?thesis using True blocks_short [of "rest @ [x]" H] by simp
  next
    case False
    then show ?thesis using assms step_block [of "rest @ [x]" H c] by simp
  qed
  finally show ?thesis .
qed

lemma feed_length:
  assumes "length rest < 64"
  shows "fold (\<lambda>n ctxt. PUTPAD (c_byte ctxt n) ctxt) ns (holding c (H, rest))
    = holding c (blocks H (rest @ map (\<lambda>n. ucast (drop_bit (8 * n) c)) ns))"
  using assms
proof (induction ns arbitrary: H rest)
  case Nil
  then show ?case by (simp add: blocks_short)
next
  case (Cons n ns)
  obtain H' rest' where b: "blocks H (rest @ [ucast (drop_bit (8 * n) c)]) = (H', rest')" by fastforce
  then have "length rest' < 64" using blocks_rest [of H "rest @ [ucast (drop_bit (8 * n) c)]"] by simp
  moreover have "c_byte (holding c (H, rest)) n = ucast (drop_bit (8 * n) c)" by (simp add: c_byte_def holding_def)
  ultimately show ?case
    using Cons PUTPAD_holding [OF Cons.prems] b
      blocks_append [of H "rest @ [ucast (drop_bit (8 * n) c)]" "map (\<lambda>n. ucast (drop_bit (8 * n) c)) ns"]
    by simp
qed

lemma sha1_loop_blocks:
  assumes "length rest < 64"
  shows "sha1_loop input (holding c (H, rest)) = holding (c + of_nat (8 * length input)) (blocks H (rest @ input))"
  using assms
proof (induction input arbitrary: c H rest rule: length_induct)
  case (1 input)
  show ?case
  proof (cases "input = []")
    case True
    then show ?thesis using "1.prems" by (simp add: sha1_loop.simps blocks_short)
  next
    case False
    have gap: "unat (COUNT (holding c (H, rest)) mod 64) = length rest"
      using "1.prems" count_unat [of "length rest"] by (simp add: holding_def)
    define k where "k = (if 64 - length rest < length input then 64 - length rest else length input)"
    have k: "0 < k" "k \<le> length input" "length rest + k \<le> 64" "length (take k input) = k"
      using "1.prems" False by (auto simp: k_def)
    let ?c = "c + of_nat (k * 8)"
    let ?X = "(holding c (H, rest))\<lparr>ctxt_m := put_bytes (length rest) (take k input) (ctxt_m (holding c (H, rest))),
        COUNT := (COUNT (holding c (H, rest)) + of_nat k) mod 64, ctxt_c := ctxt_c (holding c (H, rest)) + of_nat (k * 8)\<rparr>"
    have X: "?X = (if length rest + k < 64 then holding ?c (H, rest @ take k input)
        else \<lparr>ctxt_h = H, ctxt_c = ?c, ctxt_m = rest @ take k input, COUNT = 0\<rparr>)"
      using put_in_block [OF "1.prems", of "take k input" ?c H] k by (simp add: holding_def)
    have st: "(if COUNT ?X mod 64 = 0 then sha1_step ?X else ?X) = holding ?c (blocks H (rest @ take k input))"
    proof (cases "length rest + k < 64")
      case True
      then have "unat (COUNT (holding ?c (H, rest @ take k input)) mod 64) = length rest + k"
        using count_unat [of "length rest + k"] k by (simp add: holding_def)
      then have "COUNT (holding ?c (H, rest @ take k input)) mod 64 \<noteq> 0"
        using k(1) by (metis add_is_0 less_irrefl unat_0)
      then show ?thesis using True X blocks_short [of "rest @ take k input" H] k by simp
    next
      case F: False
      then have "length (rest @ take k input) = 64" using k by simp
      then show ?thesis using F X step_block [of "rest @ take k input" H ?c] by simp
    qed
    obtain H' rest' where b: "blocks H (rest @ take k input) = (H', rest')" by fastforce
    then have r: "length rest' < 64" using blocks_rest [of H "rest @ take k input"] by simp
    have "sha1_loop input (holding c (H, rest)) = sha1_loop (drop k input) (if COUNT ?X mod 64 = 0 then sha1_step ?X else ?X)"
      by (subst sha1_loop.simps) (simp only: False if_False Let_def gap k_def [symmetric])
    also have "\<dots> = sha1_loop (drop k input) (holding ?c (H', rest'))" by (simp only: st b)
    also have "\<dots> = holding (?c + of_nat (8 * length (drop k input))) (blocks H' (rest' @ drop k input))"
      using "1.IH" k r by (simp add: False)
    also have "blocks H' (rest' @ drop k input) = blocks H (rest @ input)"
      using blocks_append [of H "rest @ take k input" "drop k input"] b by simp
    also have "?c + of_nat (8 * length (drop k input)) = c + of_nat (8 * length input)"
    proof -
      have "k * 8 + 8 * length (drop k input) = 8 * length input" using k(2) by simp
      then have "(of_nat (k * 8) :: 64 word) + of_nat (8 * length (drop k input)) = of_nat (8 * length input)"
        by (metis of_nat_add)
      then show ?thesis by (simp only: add.assoc)
    qed
    finally show ?thesis .
  qed
qed

text \<open>The zeros up to the length of the message.\<close>

lemma fill_with_zeros:
  assumes "length rest < 64"
  defines "p \<equiv> length rest"
  shows "pad_zeros (holding c (H, rest))
    = holding c (blocks H (rest @ replicate ((120 - p) mod 64) 0))"
proof -
  have start: "unat (COUNT (holding c (H, rest)) mod 64) = p" if "length rest = p" "p < 64" for H rest p
    using that count_unat [of p] by (simp add: holding_def)
  have sub: "(of_nat n - 8 :: u8) = of_nat (n - 8)" if "8 \<le> n" for n using that by (simp add: of_nat_diff)
  show ?thesis
  proof (cases "64 - p < 8")
    case True
    let ?z = "replicate (64 - p) (0 :: u8)"
    have l: "length (rest @ ?z) = 64" using assms by simp
    have s1: "sha1_step ((holding c (H, rest))\<lparr>ctxt_m := put_bytes p ?z (ctxt_m (holding c (H, rest))),
        COUNT := (COUNT (holding c (H, rest)) + of_nat (64 - p)) mod 64\<rparr>) = holding c (blocks H (rest @ ?z))"
      using put_in_block [OF assms(1), of ?z c H] step_block [OF l] assms by simp
    have b: "blocks H (rest @ ?z) = (compress H (rest @ ?z), [])" using blocks_full [OF l] .
    have s2: "(holding c (compress H (rest @ ?z), []))\<lparr>ctxt_m := put_bytes 0 (replicate 56 0) (ctxt_m (holding c (compress H (rest @ ?z), []))),
        COUNT := (COUNT (holding c (compress H (rest @ ?z), [])) + of_nat 56) mod 64\<rparr> = holding c (compress H (rest @ ?z), replicate 56 0)"
      using put_in_block [of "[]" "replicate 56 0" c "compress H (rest @ ?z)"] by simp
    have "(120 - p) mod 64 = (64 - p) + 56" using True assms by (simp add: mod_if)
    then have "replicate ((120 - p) mod 64) 0 = ?z @ replicate 56 0" by (simp only: replicate_add)
    then have "blocks H (rest @ replicate ((120 - p) mod 64) 0) = (compress H (rest @ ?z), replicate 56 0)"
      using blocks_append [of H "rest @ ?z" "replicate 56 0"] b by (simp add: blocks_short)
    then show ?thesis
      using s1 s2 b True start [of rest p H] start [of "[]" 0 "compress H (rest @ ?z)"] assms sub [of 64]
      by (simp add: pad_zeros_def Let_def)
  next
    case False
    have "(120 - p) mod 64 = 56 - p" using False assms by (simp add: mod_if)
    moreover have "(holding c (H, rest))\<lparr>ctxt_m := put_bytes p (replicate (56 - p) 0) (ctxt_m (holding c (H, rest))),
        COUNT := (COUNT (holding c (H, rest)) + of_nat (56 - p)) mod 64\<rparr> = holding c (H, rest @ replicate (56 - p) 0)"
      using put_in_block [OF assms(1), of "replicate (56 - p) 0" c H] False assms by simp
    moreover have "64 - p - 8 = 56 - p" by simp
    ultimately show ?thesis using False start [of rest p H] assms sub [of "64 - p"] False
      by (simp add: pad_zeros_def Let_def blocks_short)
  qed
qed

lemma sha1_pad_blocks:
  assumes "length rest < 64"
  shows "sha1_pad (holding c (H, rest)) = holding c (blocks H (rest @ 0x80 # replicate ((119 - length rest) mod 64) 0
    @ map (\<lambda>n. ucast (drop_bit (8 * n) c)) [7, 6, 5, 4, 3, 2, 1, 0]))"
proof -
  let ?len = "map (\<lambda>n. ucast (drop_bit (8 * n) c)) [7, 6, 5, 4, 3, 2, 1, 0]"
  let ?z = "replicate ((119 - length rest) mod 64) 0"
  obtain H1 r1 where 1: "blocks H (rest @ [0x80]) = (H1, r1)" by fastforce
  have r1: "length r1 = (length rest + 1) mod 64" using blocks_rest [of H "rest @ [0x80]"] 1 by simp
  then have l1: "length r1 < 64" by simp
  have "length rest = 63 \<or> length rest + 1 < 64" using assms by auto
  then have "(120 - length r1) mod 64 = (119 - length rest) mod 64" using r1 by auto
  then have z: "pad_zeros (holding c (H1, r1)) = holding c (blocks H1 (r1 @ ?z))" using fill_with_zeros [OF l1] by simp
  obtain H2 r2 where 2: "blocks H1 (r1 @ ?z) = (H2, r2)" by fastforce
  have l2: "length r2 < 64" using blocks_rest [of H1 "r1 @ ?z"] 2 by simp
  have "blocks H1 (r1 @ ?z @ ?len) = blocks H (rest @ 0x80 # ?z @ ?len)"
    using blocks_append [of H "rest @ [0x80]" "?z @ ?len"] 1 by simp
  moreover have "blocks H2 (r2 @ ?len) = blocks H1 (r1 @ ?z @ ?len)"
    using blocks_append [of H1 "r1 @ ?z" ?len] 2 by simp
  ultimately have "blocks H2 (r2 @ ?len) = blocks H (rest @ 0x80 # ?z @ ?len)" by simp
  moreover have "sha1_pad (holding c (H, rest)) = holding c (blocks H2 (r2 @ ?len))"
    unfolding sha1_pad_def PUTPAD_holding [OF assms] 1 z 2 by (rule feed_length [OF l2])
  ultimately show ?thesis by (simp only:)
qed

lemma lws_SHA1_blocks:
  "lws_SHA1 d = concat (map word_bytes
    (fst (blocks [0x67452301, 0xefcdab89, 0x98badcfe, 0x10325476, 0xc3d2e1f0] (d @ padding (length d)))))"
proof -
  let ?H = "[0x67452301, 0xefcdab89, 0x98badcfe, 0x10325476, 0xc3d2e1f0] :: u32 list"
  let ?c = "of_nat (8 * length d) :: 64 word"
  have init: "sha1_init = holding 0 (?H, [])" by (simp add: sha1_init_def holding_def)
  obtain H rest where b: "blocks ?H d = (H, rest)" by fastforce
  have len: "length rest = length d mod 64" using blocks_rest [of ?H d] b by simp
  then have "length rest < 64" by simp
  note pad = sha1_pad_blocks [OF this, of ?c H]
  have loop: "sha1_loop d sha1_init = holding ?c (H, rest)"
    unfolding init using sha1_loop_blocks [of "[]" d 0 ?H] b by simp
  have "0x80 # replicate ((119 - length rest) mod 64) 0 @ map (\<lambda>n. ucast (drop_bit (8 * n) ?c)) [7, 6, 5, 4, 3, 2, 1, 0]
      = padding (length d)"
    unfolding padding_def len by (simp only: mult.commute)
  then have "blocks H (rest @ 0x80 # replicate ((119 - length rest) mod 64) 0
      @ map (\<lambda>n. ucast (drop_bit (8 * n) ?c)) [7, 6, 5, 4, 3, 2, 1, 0]) = blocks ?H (d @ padding (length d))"
    using blocks_append [of ?H d "padding (length d)"] b by simp
  then show ?thesis
    unfolding lws_SHA1_def sha1_result_def loop pad by (simp only: holding_def split_beta sha1_ctxt.simps)
qed

lemma length_lws_SHA1: "length (lws_SHA1 d) = 20"
proof -
  have "length (fst (blocks H m)) = 5" if "length H = 5" for H m
    using that
  proof (induction H m rule: blocks.induct)
    case (1 H m)
    then show ?case by (subst blocks.simps) (auto simp: compress_def split: prod.split)
  qed
  then show ?thesis unfolding lws_SHA1_blocks
    by (simp add: length_concat word_bytes_def o_def sum_list_triv)
qed

section \<open>Properties\<close>


end
