(* ===== verification/Lws_Lex.thy ===== *)
theory Lws_Lex
  imports Prelude "HOL-Library.Sublist"
begin

text \<open>
  How libwebsockets recognises the names of HTTP headers, one character after the other: the
  generated table \<open>src/libwebsockets-2.2.1/lib/lextable.h\<close> and \<open>lextable_decode\<close> in \<open>parsers.c\<close>, which
  walks through it. The table was generated from the list of names in \<open>lextable-strings.h\<close>.
\<close>

unbundle bit_operations_syntax

section \<open>The table\<close>

text \<open>The bytes of the table in pages of 112.\<close>

definition lex_page0 :: "nat list" where
  "lex_page0 = [
    0x67, 0x40, 0x00, 0x70, 0x42, 0x00, 0x6F, 0x51, 0x00, 0x68, 0x5D, 0x00, 0x63, 0x66, 0x00, 0x75,
    0x87, 0x00, 0x73, 0x9D, 0x00, 0x0D, 0xD6, 0x00, 0x61, 0x2E, 0x01, 0x69, 0x6D, 0x01, 0x64, 0x16,
    0x02, 0x72, 0x1F, 0x02, 0x3A, 0x50, 0x02, 0x65, 0xDC, 0x02, 0x66, 0xF8, 0x02, 0x6C, 0x1A, 0x03,
    0x6D, 0x3D, 0x03, 0x74, 0xAC, 0x03, 0x76, 0xC7, 0x03, 0x77, 0xD4, 0x03, 0x78, 0xFB, 0x03, 0x08,
    0xE5, 0xF4, 0xA0, 0x00, 0x00, 0x6F, 0x0D, 0x00, 0x72, 0x92, 0x01, 0x61, 0xD4, 0x03, 0x75, 0xD6,
    0x03, 0x08, 0xF3, 0xF4, 0xA0, 0x00, 0x01, 0x70, 0x07, 0x00, 0x72, 0x4E, 0x00, 0x08, 0xF4, 0xE9,
    0xEF, 0xEE, 0xF3, 0xA0, 0x00, 0x02, 0x6F, 0x07, 0x00, 0x74, 0xBC, 0x00, 0x08, 0xF3, 0xF4, 0xBA]"

definition lex_page1 :: "nat list" where
  "lex_page1 = [
    0x00, 0x03, 0x6F, 0x07, 0x00, 0x61, 0x72, 0x01, 0x08, 0x6E, 0x07, 0x00, 0x6F, 0x87, 0x01, 0x08,
    0x6E, 0x07, 0x00, 0x74, 0x86, 0x01, 0x08, 0xE5, 0xE3, 0xF4, 0x69, 0x07, 0x00, 0x20, 0xCC, 0x03,
    0x08, 0xEF, 0xEE, 0xBA, 0x00, 0x04, 0x70, 0x0A, 0x00, 0x73, 0x59, 0x03, 0x72, 0x91, 0x03, 0x08,
    0xE7, 0xF2, 0xE1, 0xE4, 0xE5, 0xBA, 0x00, 0x05, 0xE9, 0xE7, 0xE9, 0xEE, 0xBA, 0x00, 0x06, 0x65,
    0x07, 0x00, 0x74, 0x13, 0x03, 0x08, 0x63, 0x0A, 0x00, 0x72, 0xFC, 0x02, 0x74, 0xFF, 0x02, 0x08,
    0xAD, 0xF7, 0xE5, 0xE2, 0xF3, 0xEF, 0xE3, 0xEB, 0xE5, 0xF4, 0xAD, 0x64, 0x19, 0x00, 0x65, 0x20,
    0x00, 0x6B, 0x29, 0x00, 0x70, 0x38, 0x00, 0x61, 0x3F, 0x00, 0x6E, 0x44, 0x00, 0x76, 0x86, 0x01]"

definition lex_page2 :: "nat list" where
  "lex_page2 = [
    0x6F, 0x8C, 0x01, 0x08, 0xF2, 0xE1, 0xE6, 0xF4, 0xBA, 0x00, 0x07, 0x8A, 0x00, 0x08, 0xF8, 0xF4,
    0xE5, 0xEE, 0xF3, 0xE9, 0xEF, 0xEE, 0xF3, 0xBA, 0x00, 0x09, 0xE5, 0xF9, 0x31, 0x0A, 0x00, 0x32,
    0x0A, 0x00, 0x3A, 0x5F, 0x01, 0x08, 0xBA, 0x00, 0x0A, 0xBA, 0x00, 0x0B, 0xF2, 0xEF, 0xF4, 0xEF,
    0xE3, 0xEF, 0xEC, 0xBA, 0x00, 0x0C, 0xE3, 0xE3, 0xE5, 0xF0, 0xF4, 0xBA, 0x00, 0x0D, 0xEF, 0xEE,
    0xE3, 0xE5, 0xBA, 0x00, 0x0E, 0xF4, 0xF0, 0x2F, 0x07, 0x00, 0x32, 0x10, 0x00, 0x08, 0xB1, 0xAE,
    0x31, 0x07, 0x00, 0x30, 0x15, 0x03, 0x08, 0xA0, 0x00, 0x0F, 0xAD, 0xF3, 0xE5, 0xF4, 0xF4, 0xE9,
    0xEE, 0xE7, 0xF3, 0xBA, 0x00, 0x10, 0x63, 0x0D, 0x00, 0x75, 0xAC, 0x00, 0x67, 0x7D, 0x01, 0x6C]"

definition lex_page3 :: "nat list" where
  "lex_page3 = [
    0x7E, 0x01, 0x08, 0xE3, 0xE5, 0x70, 0x07, 0x00, 0x73, 0x0E, 0x00, 0x08, 0xF4, 0x3A, 0x07, 0x00,
    0x2D, 0x59, 0x00, 0x08, 0x00, 0x11, 0xF3, 0xAD, 0xE3, 0xEF, 0xEE, 0xF4, 0xF2, 0xEF, 0xEC, 0xAD,
    0x72, 0x07, 0x00, 0x61, 0x48, 0x01, 0x08, 0xE5, 0xF1, 0xF5, 0xE5, 0xF3, 0xF4, 0xAD, 0xE8, 0xE5,
    0xE1, 0xE4, 0xE5, 0xF2, 0xF3, 0xBA, 0x00, 0x12, 0xE6, 0xAD, 0x6D, 0x0D, 0x00, 0x6E, 0x20, 0x00,
    0x72, 0x9E, 0x01, 0x75, 0xA2, 0x01, 0x08, 0x6F, 0x07, 0x00, 0x61, 0x8E, 0x01, 0x08, 0xE4, 0xE9,
    0xE6, 0xE9, 0xE5, 0xE4, 0xAD, 0xF3, 0xE9, 0xEE, 0xE3, 0xE5, 0xBA, 0x00, 0x13, 0xEF, 0xEE, 0xE5,
    0xAD, 0xED, 0xE1, 0xF4, 0xE3, 0xE8, 0xBA, 0x00, 0x14, 0x65, 0x0D, 0x00, 0x6C, 0x14, 0x00, 0x63]"

definition lex_page4 :: "nat list" where
  "lex_page4 = [
    0xEB, 0x00, 0x72, 0xF1, 0x00, 0x08, 0xEE, 0xE3, 0xEF, 0xE4, 0xE9, 0xEE, 0xE7, 0xBA, 0x00, 0x15,
    0xE1, 0xEE, 0xE7, 0xF5, 0xE1, 0xE7, 0xE5, 0xBA, 0x00, 0x16, 0x61, 0x07, 0x00, 0x6F, 0x9E, 0x01,
    0x08, 0xE7, 0xED, 0xE1, 0xBA, 0x00, 0x17, 0xE3, 0xE8, 0xE5, 0xAD, 0xE3, 0xEF, 0xEE, 0xF4, 0xF2,
    0xEF, 0xEC, 0xBA, 0x00, 0x18, 0xF4, 0xE8, 0xEF, 0xF2, 0xE9, 0xFA, 0xE1, 0xF4, 0xE9, 0xEF, 0xEE,
    0xBA, 0x00, 0x19, 0xEB, 0xE9, 0xE5, 0xBA, 0x00, 0x1A, 0xE5, 0xEE, 0xF4, 0xAD, 0x6C, 0x10, 0x00,
    0x74, 0x1E, 0x00, 0x64, 0xC0, 0x00, 0x65, 0xCA, 0x00, 0x72, 0xE3, 0x00, 0x08, 0x65, 0x0A, 0x00,
    0x61, 0xCA, 0x00, 0x6F, 0xD0, 0x00, 0x08, 0xEE, 0xE7, 0xF4, 0xE8, 0xBA, 0x00, 0x1B, 0xF9, 0xF0]"

definition lex_page5 :: "nat list" where
  "lex_page5 = [
    0xE5, 0xBA, 0x00, 0x1C, 0x61, 0x07, 0x00, 0x65, 0xF0, 0x01, 0x08, 0xF4, 0xE5, 0xBA, 0x00, 0x1D,
    0x61, 0x07, 0x00, 0x65, 0x0A, 0x00, 0x08, 0xEE, 0xE7, 0xE5, 0xBA, 0x00, 0x1E, 0x66, 0x07, 0x00,
    0x74, 0x5A, 0x01, 0x08, 0x65, 0x07, 0x00, 0x72, 0x4D, 0x01, 0x08, 0xF2, 0xE5, 0xF2, 0xBA, 0x00,
    0x1F, 0x00, 0x20, 0xE5, 0xF2, 0xF3, 0xE9, 0xEF, 0xEE, 0xBA, 0x00, 0x21, 0xF2, 0xE9, 0xE7, 0xE9,
    0xEE, 0xBA, 0x00, 0x22, 0x61, 0x0D, 0x00, 0x6D, 0x14, 0x00, 0x70, 0x18, 0x00, 0x73, 0x1A, 0x00,
    0x08, 0xF5, 0xF4, 0xE8, 0xEF, 0xF2, 0xE9, 0xF4, 0xF9, 0x00, 0x23, 0xE5, 0xF4, 0xE8, 0xEF, 0xE4,
    0x00, 0x24, 0xE1, 0xF4, 0xE8, 0x00, 0x25, 0x63, 0x07, 0x00, 0x74, 0x0A, 0x00, 0x08, 0xE8, 0xE5]"

definition lex_page6 :: "nat list" where
  "lex_page6 = [
    0xED, 0xE5, 0x00, 0x26, 0xE1, 0xF4, 0xF5, 0xF3, 0x00, 0x27, 0xE8, 0xE1, 0xF2, 0xF3, 0xE5, 0xF4,
    0xBA, 0x00, 0x28, 0xE1, 0xEE, 0xE7, 0xE5, 0xF3, 0xBA, 0x00, 0x29, 0xEC, 0xEC, 0xEF, 0xF7, 0xAD,
    0xEF, 0xF2, 0xE9, 0xE7, 0xE9, 0xEE, 0xBA, 0x00, 0x2A, 0xE5, 0xBA, 0x00, 0x2B, 0xEC, 0xEF, 0xF7,
    0xBA, 0x00, 0x2C, 0xE9, 0xF3, 0xF0, 0xEF, 0xF3, 0xE9, 0xF4, 0xE9, 0xEF, 0xEE, 0xBA, 0x00, 0x2D,
    0xEE, 0xE3, 0xEF, 0xE4, 0xE9, 0xEE, 0xE7, 0xBA, 0x00, 0x2E, 0xEE, 0xE7, 0xF5, 0xE1, 0xE7, 0xE5,
    0xBA, 0x00, 0x2F, 0xE3, 0xE1, 0xF4, 0xE9, 0xEF, 0xEE, 0xBA, 0x00, 0x30, 0xE1, 0xEE, 0xE7, 0xE5,
    0xBA, 0x00, 0x31, 0x74, 0x07, 0x00, 0x78, 0x09, 0x00, 0x08, 0xE1, 0xE7, 0xBA, 0x00, 0x32, 0xF0]"

definition lex_page7 :: "nat list" where
  "lex_page7 = [
    0x65, 0x07, 0x00, 0x69, 0x09, 0x00, 0x08, 0xE3, 0xF4, 0xBA, 0x00, 0x33, 0xF2, 0xE5, 0xF3, 0xBA,
    0x00, 0x34, 0xF2, 0xEF, 0xED, 0xBA, 0x00, 0x35, 0xF4, 0xE3, 0xE8, 0xBA, 0x00, 0x36, 0xE1, 0xEE,
    0xE7, 0xE5, 0xBA, 0x00, 0x37, 0xEE, 0xED, 0xEF, 0xE4, 0xE9, 0xE6, 0xE9, 0xE5, 0xE4, 0xAD, 0xF3,
    0xE9, 0xEE, 0xE3, 0xE5, 0xBA, 0x00, 0x38, 0x61, 0x0A, 0x00, 0x69, 0x15, 0x00, 0x6F, 0x17, 0x00,
    0x08, 0xF3, 0xF4, 0xAD, 0xED, 0xEF, 0xE4, 0xE9, 0xE6, 0xE9, 0xE5, 0xE4, 0xBA, 0x00, 0x39, 0xEE,
    0xEB, 0xBA, 0x00, 0x3A, 0xE3, 0xE1, 0xF4, 0xE9, 0xEF, 0xEE, 0xBA, 0x00, 0x3B, 0xE1, 0xF8, 0xAD,
    0xE6, 0xEF, 0xF2, 0xF7, 0xE1, 0xF2, 0xE4, 0xF3, 0xBA, 0x00, 0x3C, 0xF8, 0xF9, 0x2D, 0x07, 0x00]"

definition lex_page8 :: "nat list" where
  "lex_page8 = [
    0x20, 0xB5, 0x00, 0x08, 0xE1, 0xF5, 0xF4, 0xE8, 0x65, 0x07, 0x00, 0x6F, 0x0E, 0x00, 0x08, 0xEE,
    0xF4, 0xE9, 0xE3, 0xE1, 0xF4, 0xE5, 0xBA, 0x00, 0x3D, 0xF2, 0xE9, 0xFA, 0xE1, 0xF4, 0xE9, 0xEF,
    0xEE, 0xBA, 0x00, 0x3E, 0xE5, 0xF3, 0xE8, 0xBA, 0x00, 0x3F, 0xF2, 0xF9, 0xAD, 0xE1, 0xE6, 0xF4,
    0xE5, 0xF2, 0xBA, 0x00, 0x40, 0xF6, 0xE5, 0xF2, 0xBA, 0x00, 0x41, 0xAD, 0xE3, 0xEF, 0xEF, 0xEB,
    0xE9, 0xE5, 0xBA, 0x00, 0x42, 0xF2, 0xE9, 0xE3, 0xF4, 0xAD, 0xF4, 0xF2, 0xE1, 0xEE, 0xF3, 0xF0,
    0xEF, 0xF2, 0xF4, 0xAD, 0xF3, 0xE5, 0xE3, 0xF5, 0xF2, 0xE9, 0xF4, 0xF9, 0xBA, 0x00, 0x43, 0xF2,
    0xE1, 0xEE, 0xF3, 0xE6, 0xE5, 0xF2, 0xAD, 0xE5, 0xEE, 0xE3, 0xEF, 0xE4, 0xE9, 0xEE, 0xE7, 0xBA]"

definition lex_page9 :: "nat list" where
  "lex_page9 = [
    0x00, 0x44, 0xE5, 0xF2, 0xAD, 0xE1, 0xE7, 0xE5, 0xEE, 0xF4, 0xBA, 0x00, 0x45, 0x61, 0x07, 0x00,
    0x69, 0x09, 0x00, 0x08, 0xF2, 0xF9, 0xBA, 0x00, 0x46, 0xE1, 0xBA, 0x00, 0x47, 0xF7, 0xF7, 0xAD,
    0xE1, 0xF5, 0xF4, 0xE8, 0xE5, 0xEE, 0xF4, 0xE9, 0xE3, 0xE1, 0xF4, 0xE5, 0xBA, 0x00, 0x48, 0xF4,
    0xE3, 0xE8, 0x00, 0x49, 0xF4, 0x00, 0x4A, 0xEC, 0xE5, 0xF4, 0xE5, 0x00, 0x4B, 0xE9, 0xAD, 0xE1,
    0xF2, 0xE7, 0xF3, 0x00, 0x4C, 0x00, 0x4D, 0xAD, 0x72, 0x07, 0x00, 0x66, 0x10, 0x00, 0x08, 0xE5,
    0xE1, 0xEC, 0xAD, 0xE9, 0xF0, 0xBA, 0x00, 0x4E, 0xA0, 0x00, 0x4F, 0xEF, 0xF2, 0xF7, 0xE1, 0xF2,
    0xE4, 0xE5, 0xE4, 0xAD, 0xE6, 0xEF, 0xF2, 0x00, 0x50, 0x00, 0x51]"

definition lextable :: "nat list" where
  "lextable =
     lex_page0 @ lex_page1 @ lex_page2 @ lex_page3 @ lex_page4 @ lex_page5 @ lex_page6 @ lex_page7 @ lex_page8 @ lex_page9"

text \<open>The names it was generated from; the last one stands for no token.\<close>

definition lextable_set :: "string list" where
  "lextable_set = [
    ''get '', ''post '', ''options '', ''host:'', ''connection:'', ''upgrade:'', ''origin:'',
    ''sec-websocket-draft:'', [CHR 0x0D, CHR 0x0A], ''sec-websocket-extensions:'',
    ''sec-websocket-key1:'', ''sec-websocket-key2:'', ''sec-websocket-protocol:'',
    ''sec-websocket-accept:'', ''sec-websocket-nonce:'', ''http/1.1 '', ''http2-settings:'',
    ''accept:'', ''access-control-request-headers:'', ''if-modified-since:'', ''if-none-match:'',
    ''accept-encoding:'', ''accept-language:'', ''pragma:'', ''cache-control:'',
    ''authorization:'', ''cookie:'', ''content-length:'', ''content-type:'', ''date:'', ''range:'',
    ''referer:'', ''sec-websocket-key:'', ''sec-websocket-version:'', ''sec-websocket-origin:'',
    '':authority'', '':method'', '':path'', '':scheme'', '':status'', ''accept-charset:'',
    ''accept-ranges:'', ''access-control-allow-origin:'', ''age:'', ''allow:'',
    ''content-disposition:'', ''content-encoding:'', ''content-language:'', ''content-location:'',
    ''content-range:'', ''etag:'', ''expect:'', ''expires:'', ''from:'', ''if-match:'',
    ''if-range:'', ''if-unmodified-since:'', ''last-modified:'', ''link:'', ''location:'',
    ''max-forwards:'', ''proxy-authenticate:'', ''proxy-authorization:'', ''refresh:'',
    ''retry-after:'', ''server:'', ''set-cookie:'', ''strict-transport-security:'',
    ''transfer-encoding:'', ''user-agent:'', ''vary:'', ''via:'', ''www-authenticate:'', ''patch'',
    ''put'', ''delete'', ''uri-args'', ''proxy '', ''x-real-ip:'', ''http/1.0 '',
    ''x-forwarded-for'', ''connect '', '''']"

section \<open>The walk\<close>

definition FAIL_CHAR :: nat where
  "FAIL_CHAR = 0x08"

definition to_lower :: "char \<Rightarrow> char" where
  "to_lower c = (if (0x41 :: nat) \<le> of_char c \<and> (of_char c :: nat) \<le> 0x5A then char_of ((of_char c :: nat) + 0x20) else c)"

text \<open>
  From a position to the next, \<open>None\<close> being \<open>- 1\<close>. A byte with its top bit set is a character that
  has to match; an entry of three bytes is a character with the distance to go; a byte below
  \<open>FAIL_CHAR\<close> starts the number of a token.
\<close>

function lex_from :: "nat list \<Rightarrow> nat \<Rightarrow> nat \<Rightarrow> nat option result" where
  "lex_from t pos c =
     (if length t \<le> pos then Inl Out_Of_Range
      else if bit (t ! pos) 7 then
        if t ! pos AND 0x7f \<noteq> c then Inr None
        else if length t \<le> pos + 1 then Inl Out_Of_Range
        else if t ! (pos + 1) = FAIL_CHAR then Inr None
        else Inr (Some (pos + 1))
      else if t ! pos = FAIL_CHAR then Inr None
      else if t ! pos < FAIL_CHAR then Inr (Some pos)
      else if t ! pos = c then
        if length t \<le> pos + 2 then Inl Out_Of_Range
        else Inr (Some (pos + t ! (pos + 1) + push_bit 8 (t ! (pos + 2))))
      else lex_from t (pos + 3) c)"
  by pat_completeness auto
termination
  by (relation "measure (\<lambda>(t, pos, c). length t - pos)") auto

declare lex_from.simps [simp del]

definition lextable_decode :: "nat \<Rightarrow> char \<Rightarrow> nat option result" where
  "lextable_decode pos c = lex_from lextable pos (of_char (to_lower c))"

section \<open>What the table says\<close>

text \<open>The byte at every position, as rules for rewriting, from the pages.\<close>

primrec spells :: "nat list \<Rightarrow> nat \<Rightarrow> nat list \<Rightarrow> bool" where
  "spells t k [] \<longleftrightarrow> True"
| "spells t k (y # ys) \<longleftrightarrow> t ! k = y \<and> spells t (k + 1) ys"

lemma spells_part: "t = a @ ys @ b \<Longrightarrow> length a = k \<Longrightarrow> spells t k ys"
proof (induction ys arbitrary: a k)
  case (Cons y ys)
  then show ?case using Cons.IH [of "a @ [y]" "k + 1"] by (auto simp: nth_append)
qed simp

lemma page_lengths:
  "length lex_page0 = 112"
  "length lex_page1 = 112"
  "length lex_page2 = 112"
  "length lex_page3 = 112"
  "length lex_page4 = 112"
  "length lex_page5 = 112"
  "length lex_page6 = 112"
  "length lex_page7 = 112"
  "length lex_page8 = 112"
  "length lex_page9 = 107"
  by (simp_all add: lex_page0_def lex_page1_def lex_page2_def lex_page3_def lex_page4_def 
    lex_page5_def lex_page6_def lex_page7_def lex_page8_def lex_page9_def)

lemma length_lextable: "length lextable = 1115"
  by (simp add: lextable_def page_lengths)

lemma spells_page0: "spells lextable 0 lex_page0"
  by (rule spells_part [of _ "[]" _ "lex_page1 @ lex_page2 @ lex_page3 @ lex_page4 @ lex_page5 @ lex_page6 @ lex_page7 @ lex_page8 @ lex_page9"]) (simp_all add: lextable_def page_lengths)

lemma spells_page1: "spells lextable 112 lex_page1"
  by (rule spells_part [of _ "lex_page0" _ "lex_page2 @ lex_page3 @ lex_page4 @ lex_page5 @ lex_page6 @ lex_page7 @ lex_page8 @ lex_page9"]) (simp_all add: lextable_def page_lengths)

lemma spells_page2: "spells lextable 224 lex_page2"
  by (rule spells_part [of _ "lex_page0 @ lex_page1" _ "lex_page3 @ lex_page4 @ lex_page5 @ lex_page6 @ lex_page7 @ lex_page8 @ lex_page9"]) (simp_all add: lextable_def page_lengths)

lemma spells_page3: "spells lextable 336 lex_page3"
  by (rule spells_part [of _ "lex_page0 @ lex_page1 @ lex_page2" _ "lex_page4 @ lex_page5 @ lex_page6 @ lex_page7 @ lex_page8 @ lex_page9"]) (simp_all add: lextable_def page_lengths)

lemma spells_page4: "spells lextable 448 lex_page4"
  by (rule spells_part [of _ "lex_page0 @ lex_page1 @ lex_page2 @ lex_page3" _ "lex_page5 @ lex_page6 @ lex_page7 @ lex_page8 @ lex_page9"]) (simp_all add: lextable_def page_lengths)

lemma spells_page5: "spells lextable 560 lex_page5"
  by (rule spells_part [of _ "lex_page0 @ lex_page1 @ lex_page2 @ lex_page3 @ lex_page4" _ "lex_page6 @ lex_page7 @ lex_page8 @ lex_page9"]) (simp_all add: lextable_def page_lengths)

lemma spells_page6: "spells lextable 672 lex_page6"
  by (rule spells_part [of _ "lex_page0 @ lex_page1 @ lex_page2 @ lex_page3 @ lex_page4 @ lex_page5" _ "lex_page7 @ lex_page8 @ lex_page9"]) (simp_all add: lextable_def page_lengths)

lemma spells_page7: "spells lextable 784 lex_page7"
  by (rule spells_part [of _ "lex_page0 @ lex_page1 @ lex_page2 @ lex_page3 @ lex_page4 @ lex_page5 @ lex_page6" _ "lex_page8 @ lex_page9"]) (simp_all add: lextable_def page_lengths)

lemma spells_page8: "spells lextable 896 lex_page8"
  by (rule spells_part [of _ "lex_page0 @ lex_page1 @ lex_page2 @ lex_page3 @ lex_page4 @ lex_page5 @ lex_page6 @ lex_page7" _ "lex_page9"]) (simp_all add: lextable_def page_lengths)

lemma spells_page9: "spells lextable 1008 lex_page9"
  by (rule spells_part [of _ "lex_page0 @ lex_page1 @ lex_page2 @ lex_page3 @ lex_page4 @ lex_page5 @ lex_page6 @ lex_page7 @ lex_page8" _ "[]"]) (simp_all add: lextable_def page_lengths)

lemmas byte_rules = spells.simps add_num_simps numeral_plus_one one_plus_numeral one_add_one add_0 simp_thms

lemmas lextable_bytes =
  spells_page0 [unfolded lex_page0_def byte_rules]
  spells_page1 [unfolded lex_page1_def byte_rules]
  spells_page2 [unfolded lex_page2_def byte_rules]
  spells_page3 [unfolded lex_page3_def byte_rules]
  spells_page4 [unfolded lex_page4_def byte_rules]
  spells_page5 [unfolded lex_page5_def byte_rules]
  spells_page6 [unfolded lex_page6_def byte_rules]
  spells_page7 [unfolded lex_page7_def byte_rules]
  spells_page8 [unfolded lex_page8_def byte_rules]
  spells_page9 [unfolded lex_page9_def byte_rules]

text \<open>
  A check of the table against a list of names with their numbers: \<open>heads\<close> are the names that go
  on with a character, without it, \<open>others\<close> the names that do not.
\<close>

type_synonym names = "(string \<times> nat) list"

fun heads :: "nat \<Rightarrow> nat \<Rightarrow> names \<Rightarrow> names" where
  "heads k c [] = []"
| "heads k c (([], n) # ns) = heads k c ns"
| "heads k c ((d # s, n) # ns) = (if of_char d + k = c then (s, n) # heads k c ns else heads k c ns)"

fun others :: "nat \<Rightarrow> nat \<Rightarrow> names \<Rightarrow> names" where
  "others k c [] = []"
| "others k c (([], n) # ns) = ([], n) # others k c ns"
| "others k c ((d # s, n) # ns) = (if of_char d + k = c then others k c ns else (d # s, n) # others k c ns)"

primrec numbered :: "nat \<Rightarrow> string list \<Rightarrow> names" where
  "numbered n [] = []"
| "numbered n (k # ks) = (k, n) # numbered (n + 1) ks"

function agrees :: "nat \<Rightarrow> names \<Rightarrow> bool" where
  "agrees pos ns \<longleftrightarrow>
     (if length lextable \<le> pos + 1 then False
      else if lextable ! pos < FAIL_CHAR then ns = [([], lextable ! pos * 256 + lextable ! (pos + 1))]
      else if lextable ! pos = FAIL_CHAR then ns = []
      else if length lextable \<le> pos + 2 then False
      else if 128 \<le> lextable ! pos
      then lextable ! (pos + 1) \<noteq> FAIL_CHAR \<and> others 128 (lextable ! pos) ns = []
        \<and> agrees (pos + 1) (heads 128 (lextable ! pos) ns)
      else if lextable ! (pos + 1) + lextable ! (pos + 2) * 256 = 0 then False
      else if lextable ! (pos + 3) < FAIL_CHAR then False
      else agrees (pos + lextable ! (pos + 1) + lextable ! (pos + 2) * 256) (heads 0 (lextable ! pos) ns)
        \<and> agrees (pos + 3) (others 0 (lextable ! pos) ns))"
  by pat_completeness auto
termination
  by (relation "measure (\<lambda>(pos, ns). length lextable - pos)") auto

declare agrees.simps [simp del]

lemma char_codes:
  "(of_char (CHR 0x0D) :: nat) = 13" "(of_char (CHR 0x0A) :: nat) = 10"
  "(of_char (CHR '' '') :: nat) = 32"
  "(of_char (CHR ''-'') :: nat) = 45"
  "(of_char (CHR ''.'') :: nat) = 46"
  "(of_char (CHR ''/'') :: nat) = 47"
  "(of_char (CHR ''0'') :: nat) = 48"
  "(of_char (CHR ''1'') :: nat) = 49"
  "(of_char (CHR ''2'') :: nat) = 50"
  "(of_char (CHR ''3'') :: nat) = 51"
  "(of_char (CHR '':'') :: nat) = 58"
  "(of_char (CHR ''a'') :: nat) = 97"
  "(of_char (CHR ''b'') :: nat) = 98"
  "(of_char (CHR ''c'') :: nat) = 99"
  "(of_char (CHR ''d'') :: nat) = 100"
  "(of_char (CHR ''e'') :: nat) = 101"
  "(of_char (CHR ''f'') :: nat) = 102"
  "(of_char (CHR ''g'') :: nat) = 103"
  "(of_char (CHR ''h'') :: nat) = 104"
  "(of_char (CHR ''i'') :: nat) = 105"
  "(of_char (CHR ''j'') :: nat) = 106"
  "(of_char (CHR ''k'') :: nat) = 107"
  "(of_char (CHR ''l'') :: nat) = 108"
  "(of_char (CHR ''m'') :: nat) = 109"
  "(of_char (CHR ''n'') :: nat) = 110"
  "(of_char (CHR ''o'') :: nat) = 111"
  "(of_char (CHR ''p'') :: nat) = 112"
  "(of_char (CHR ''q'') :: nat) = 113"
  "(of_char (CHR ''r'') :: nat) = 114"
  "(of_char (CHR ''s'') :: nat) = 115"
  "(of_char (CHR ''t'') :: nat) = 116"
  "(of_char (CHR ''u'') :: nat) = 117"
  "(of_char (CHR ''v'') :: nat) = 118"
  "(of_char (CHR ''w'') :: nat) = 119"
  "(of_char (CHR ''x'') :: nat) = 120"
  "(of_char (CHR ''y'') :: nat) = 121"
  "(of_char (CHR ''z'') :: nat) = 122"
  by simp_all

lemmas agrees_rules = lextable_bytes length_lextable FAIL_CHAR_def char_codes heads.simps others.simps
  if_True if_False add_num_simps numeral_plus_one one_plus_numeral one_add_one add_0 add_0_right numeral_plus_numeral
  mult_num_simps numeral_times_numeral mult_0 mult_0_right mult_1 mult_1_right
  le_num_simps less_num_simps eq_num_simps numeral_le_iff numeral_less_iff numeral_eq_iff
  zero_less_numeral zero_le_numeral not_numeral_le_zero not_numeral_less_zero one_le_numeral one_less_numeral_iff numeral_le_one_iff
  not_numeral_less_one zero_neq_numeral numeral_neq_zero one_eq_numeral_iff numeral_eq_one_iff zero_neq_one one_neq_zero
  simp_thms list.simps prod.simps numbered.simps

lemma table_agrees: "agrees 0 (numbered 0 (butlast lextable_set))"
  by (simp only: agrees.simps agrees_rules lextable_set_def butlast.simps cong: if_weak_cong)

lemma lextable_byte:
  assumes "pos < length lextable"
  shows "lextable ! pos < 256"
proof -
  have "list_all (\<lambda>x. x < 256) lextable"
    by (simp only: list_all_append list.pred_inject numeral_less_iff less_num_simps zero_less_numeral one_less_numeral_iff simp_thms
        lextable_def lex_page0_def lex_page1_def lex_page2_def lex_page3_def lex_page4_def
        lex_page5_def lex_page6_def lex_page7_def lex_page8_def lex_page9_def)
  then show ?thesis using assms by (simp add: list_all_length)
qed

lemma top_bit_set: "x < 256 \<Longrightarrow> bit x 7 \<longleftrightarrow> 128 \<le> (x :: nat)"
  by (cases "x < 128") (simp_all add: bit_iff_odd div_if)

lemma low_bits: "x < 256 \<Longrightarrow> 128 \<le> x \<Longrightarrow> x AND 0x7f = x - (128 :: nat)"
proof -
  assume "x < 256" "128 \<le> x"
  then have "x mod 128 = x - 128" using le_mod_geq [of 128 x] by simp
  then show ?thesis using take_bit_eq_mask [of 7 x] by (simp add: take_bit_eq_mod mask_eq_exp_minus_1)
qed

lemma map_of_heads: "of_char d + k = x \<Longrightarrow> map_of (heads k x ns) cs = map_of ns (d # cs)"
  by (induction k x ns rule: heads.induct) auto

lemma map_of_others: "of_char d + k \<noteq> x \<Longrightarrow> map_of (others k x ns) (d # cs) = map_of ns (d # cs)"
  "map_of (others k x ns) [] = map_of ns []"
  by (induction k x ns rule: others.induct) auto

lemma no_name_ends_here: "agrees pos ns \<Longrightarrow> FAIL_CHAR \<le> lextable ! pos \<Longrightarrow> map_of ns [] = None"
proof (induction pos ns rule: agrees.induct)
  case (1 pos ns)
  from "1.prems" show ?case
    using "1.IH"(3) map_of_others(2) [of "128" "lextable ! pos" ns] map_of_others(2) [of 0 "lextable ! pos" ns]
    by (subst (asm) agrees.simps) (auto split: if_splits)
qed

text \<open>A step of the walk leads to the names that go on with the character.\<close>

lemma agrees_step:
  assumes "agrees pos ns" "FAIL_CHAR \<le> lextable ! pos"
  obtains r where "lex_from lextable pos (of_char d) = Inr r"
    "case r of None \<Rightarrow> \<forall>cs. map_of ns (d # cs) = None
     | Some p \<Rightarrow> \<exists>ns'. agrees p ns' \<and> (\<forall>cs. map_of ns' cs = map_of ns (d # cs))"
proof -
  have "\<exists>r. lex_from lextable pos (of_char d) = Inr r \<and> (case r of None \<Rightarrow> \<forall>cs. map_of ns (d # cs) = None
     | Some p \<Rightarrow> \<exists>ns'. agrees p ns' \<and> (\<forall>cs. map_of ns' cs = map_of ns (d # cs)))"
    using assms
  proof (induction pos ns rule: agrees.induct)
    case (1 pos ns)
    let ?x = "lextable ! pos"
    note ag = "1.prems"(1) [unfolded agrees.simps [of pos ns]]
    have len: "pos + 1 < length lextable" using ag by (auto split: if_splits)
    have x: "?x < 256" using lextable_byte [of pos] len by simp
    consider (fail) "?x = FAIL_CHAR" | (one) "128 \<le> ?x" | (three) "FAIL_CHAR < ?x" "?x < 128"
      using "1.prems"(2) by force
    then show ?case
    proof cases
      case fail
      then have "ns = []" using ag by (auto split: if_splits)
      moreover have "lex_from lextable pos (of_char d) = Inr None"
        using fail len top_bit_set [OF x] by (subst lex_from.simps) (simp add: FAIL_CHAR_def)
      ultimately show ?thesis by simp
    next
      case one
      then have a: "lextable ! (pos + 1) \<noteq> FAIL_CHAR" "others 128 ?x ns = []" "agrees (pos + 1) (heads 128 ?x ns)"
        using ag by (auto simp: FAIL_CHAR_def split: if_splits)
      have step: "lex_from lextable pos (of_char d) = Inr (if of_char d + 128 = ?x then Some (pos + 1) else None)"
        using one len top_bit_set [OF x] low_bits [OF x] a(1) by (subst lex_from.simps) auto
      show ?thesis
        using step a(3) map_of_heads [of d 128 ?x ns] map_of_others(1) [of d 128 ?x ns] a(2) by auto
    next
      case three
      then have a: "pos + 2 < length lextable" "FAIL_CHAR \<le> lextable ! (pos + 3)"
        "agrees (pos + lextable ! (pos + 1) + lextable ! (pos + 2) * 256) (heads 0 ?x ns)" "agrees (pos + 3) (others 0 ?x ns)"
        "lextable ! (pos + 1) + lextable ! (pos + 2) * 256 \<noteq> 0"
        using ag by (auto simp: FAIL_CHAR_def split: if_splits)
      show ?thesis
      proof (cases "of_char d = ?x")
        case True
        have "lex_from lextable pos (of_char d) = Inr (Some (pos + lextable ! (pos + 1) + lextable ! (pos + 2) * 256))"
          using three len a(1) top_bit_set [OF x] True by (subst lex_from.simps) (simp add: push_bit_eq_mult)
        then show ?thesis using a(3) map_of_heads [of d 0 ?x ns] True by auto
      next
        case False
        have step: "lex_from lextable pos (of_char d) = lex_from lextable (pos + 3) (of_char d)"
          using three len top_bit_set [OF x] False by (subst lex_from.simps) simp
        have eq: "map_of (others 0 ?x ns) (d # cs) = map_of ns (d # cs)" for cs
          using map_of_others(1) [of d 0 ?x ns] False by simp
        show ?thesis using "1.IH"(3) a three unfolding step eq by simp
      qed
    qed
  qed
  then show thesis using that by blast
qed

text \<open>
  What \<open>lws_parse\<close> makes of the characters of a name: it goes on from position to position until
  a token is reached.
\<close>

fun lex_token :: "nat \<Rightarrow> string \<Rightarrow> nat option result" where
  "lex_token pos [] =
     Inr (if lextable ! pos < FAIL_CHAR then Some (push_bit 8 (lextable ! pos) OR lextable ! (pos + 1)) else None)"
| "lex_token pos (c # cs) =
     (if lextable ! pos < FAIL_CHAR then Inr None
      else rbind (lextable_decode pos c) (\<lambda>r. case r of None \<Rightarrow> Inr None | Some p \<Rightarrow> lex_token p cs))"

lemma token_number: "y < 256 \<Longrightarrow> push_bit 8 x OR y = x * 256 + (y :: nat)"
proof -
  assume y: "y < 256"
  have "\<not> bit (push_bit 8 x) n \<or> \<not> bit y n" for n
  proof (cases "n < 8")
    case True
    then show ?thesis by (simp add: bit_push_bit_iff)
  next
    case False
    then have "y < 2 ^ n" using y power_increasing [of 8 n "2 :: nat"] by simp
    then show ?thesis by (simp add: bit_iff_odd)
  qed
  then have "push_bit 8 x + y = push_bit 8 x OR y" by (rule disjunctive_add)
  then show ?thesis by (simp add: push_bit_eq_mult)
qed

lemma agrees_token: "agrees pos ns \<Longrightarrow> lex_token pos s = Inr (map_of ns (map to_lower s))"
proof (induction s arbitrary: pos ns)
  case Nil
  show ?case
  proof (cases "lextable ! pos < FAIL_CHAR")
    case True
    then have "ns = [([], lextable ! pos * 256 + lextable ! (pos + 1))]" "pos + 1 < length lextable"
      using Nil [unfolded agrees.simps [of pos ns]] by (auto split: if_splits)
    then show ?thesis using True lextable_byte [of "pos + 1"] by (simp add: token_number)
  next
    case False
    then show ?thesis using no_name_ends_here [OF Nil] by simp
  qed
next
  case (Cons c s)
  show ?case
  proof (cases "lextable ! pos < FAIL_CHAR")
    case True
    then have "ns = [([], lextable ! pos * 256 + lextable ! (pos + 1))]"
      using Cons.prems [unfolded agrees.simps [of pos ns]] by (auto split: if_splits)
    then show ?thesis using True by simp
  next
    case False
    then obtain r where "lextable_decode pos c = Inr r" "case r of None \<Rightarrow> \<forall>cs. map_of ns (to_lower c # cs) = None
        | Some p \<Rightarrow> \<exists>ns'. agrees p ns' \<and> (\<forall>cs. map_of ns' cs = map_of ns (to_lower c # cs))"
      using agrees_step [OF Cons.prems, of "to_lower c"] by (auto simp: lextable_decode_def)
    then show ?thesis using False Cons.IH by (cases r) auto
  qed
qed

lemma numbered_zip: "numbered n ks = zip ks [n..<n + length ks]"
  by (induction ks arbitrary: n) (simp_all add: upt_conv_Cons del: upt_Suc)

text \<open>
  C10: the table recognises exactly the names it was generated from, in capital or small letters,
  each with its number, and whatever the characters, no byte outside the table is read.
\<close>

theorem lextable_recognises:
  "lex_token 0 s = Inr (map_of (zip (butlast lextable_set) [0..<82]) (map to_lower s))"
proof -
  have "length (butlast lextable_set) = 82" by (simp add: lextable_set_def)
  then show ?thesis using agrees_token [OF table_agrees, of s] by (simp only: numbered_zip add_0)
qed

end
