(* ===== verification/Lws_Http.thy ===== *)
theory Lws_Http
  imports Lws_Lex Lws_Uri Lws_Codec
begin

text \<open>
  The parser for HTTP headers of libwebsockets (\<open>lws_parse\<close> in
  \<open>src/libwebsockets-2.2.1/lib/parsers.c\<close>), which both ends of a web socket use in the handshake,
  one character at a time. The headers found are in the table \<open>allocated_headers\<close>: their text in
  \<open>data\<close>, for each token the number of its first fragment in \<open>frag_index\<close>, where 0 is none, and the
  fragments in \<open>frags\<close>. A read or write outside one of these arrays is the fault \<open>Out_Of_Range\<close>. As in
  the program no limits for single tokens are set.
\<close>

section \<open>The table of the headers\<close>

definition WSI_TOKEN_GET_URI :: nat where "WSI_TOKEN_GET_URI = 0"
definition WSI_TOKEN_HOST :: nat where "WSI_TOKEN_HOST = 3"
definition WSI_TOKEN_UPGRADE :: nat where "WSI_TOKEN_UPGRADE = 5"
definition WSI_TOKEN_ORIGIN :: nat where "WSI_TOKEN_ORIGIN = 6"
definition WSI_TOKEN_CHALLENGE :: nat where "WSI_TOKEN_CHALLENGE = 8"
definition WSI_TOKEN_PROTOCOL :: nat where "WSI_TOKEN_PROTOCOL = 12"
definition WSI_TOKEN_ACCEPT :: nat where "WSI_TOKEN_ACCEPT = 13"
definition WSI_TOKEN_HTTP :: nat where "WSI_TOKEN_HTTP = 15"
definition WSI_TOKEN_KEY :: nat where "WSI_TOKEN_KEY = 32"
definition WSI_TOKEN_VERSION :: nat where "WSI_TOKEN_VERSION = 33"
definition WSI_TOKEN_SWORIGIN :: nat where "WSI_TOKEN_SWORIGIN = 34"
definition WSI_TOKEN_HTTP_URI_ARGS :: nat where "WSI_TOKEN_HTTP_URI_ARGS = 76"
definition WSI_TOKEN_COUNT :: nat where "WSI_TOKEN_COUNT = 88"

definition methods :: "nat list" where
  "methods = [0, 1, 2, 74, 73, 75, 81]"

record lws_fragments =
  offset :: nat
  frag_len :: nat
  next_frag :: nat

record allocated_headers =
  data :: string
  frags :: "lws_fragments list"
  frag_index :: "nat list"
  pos :: nat
  nfrag :: nat

datatype uri_path_states =
    URIPS_IDLE
  | URIPS_SEEN_SLASH
  | URIPS_SEEN_SLASH_DOT
  | URIPS_SEEN_SLASH_DOT_DOT

datatype uri_esc_states =
    URIES_IDLE
  | URIES_SEEN_PERCENT
  | URIES_SEEN_PERCENT_H1

text \<open>The states of the parser: in the text of a token, or one of the states behind the tokens.\<close>

datatype parser_states =
    In_token nat
  | WSI_TOKEN_NAME_PART
  | WSI_TOKEN_SKIPPING
  | WSI_TOKEN_SKIPPING_SAW_CR
  | WSI_PARSING_COMPLETE

text \<open>The part of \<open>struct lws\<close> the parser uses; \<open>serving\<close> is that the mode is \<open>LWSCM_HTTP_SERVING\<close>.\<close>

record lws_header_related =
  ah :: allocated_headers
  ups :: uri_path_states
  ues :: uri_esc_states
  lextable_pos :: nat
  current_token_limit :: nat
  esc_stash :: char
  post_literal_equal :: bool
  parser_state :: parser_states
  serving :: bool
  fallback_to_raw :: bool
  max_http_header_data :: nat
  ietf_spec_revision :: int
  hdr_parsing_completed :: bool

definition lws_header_table_reset :: "allocated_headers \<Rightarrow> allocated_headers" where
  "lws_header_table_reset a = a\<lparr>frag_index := replicate WSI_TOKEN_COUNT 0, nfrag := 0, pos := 0\<rparr>"

text \<open>Reads and writes of the arrays. The length of a fragment has 16 bits.\<close>

definition frag_at :: "nat \<Rightarrow> allocated_headers \<Rightarrow> lws_fragments result" where
  "frag_at n a = (if n < length (frags a) then Inr (frags a ! n) else Inl Out_Of_Range)"

definition put_frag :: "nat \<Rightarrow> lws_fragments \<Rightarrow> allocated_headers \<Rightarrow> allocated_headers result" where
  "put_frag n f a = (if n < length (frags a) then Inr (a\<lparr>frags := (frags a)[n := f]\<rparr>) else Inl Out_Of_Range)"

definition index_at :: "nat \<Rightarrow> allocated_headers \<Rightarrow> nat result" where
  "index_at t a = (if t < length (frag_index a) then Inr (frag_index a ! t) else Inl Out_Of_Range)"

definition put_index :: "nat \<Rightarrow> nat \<Rightarrow> allocated_headers \<Rightarrow> allocated_headers result" where
  "put_index t n a = (if t < length (frag_index a) then Inr (a\<lparr>frag_index := (frag_index a)[t := n]\<rparr>) else Inl Out_Of_Range)"

definition store_char :: "char \<Rightarrow> allocated_headers \<Rightarrow> allocated_headers result" where
  "store_char c a =
     (if pos a < length (data a) then Inr (a\<lparr>data := (data a)[pos a := c], pos := pos a + 1\<rparr>) else Inl Out_Of_Range)"

definition add_len :: "nat \<Rightarrow> allocated_headers \<Rightarrow> allocated_headers result" where
  "add_len k a = rbind (frag_at (nfrag a) a) (\<lambda>f. put_frag (nfrag a) (f\<lparr>frag_len := (frag_len f + k) mod 2 ^ 16\<rparr>) a)"

text \<open>The fragments of a token, from the first on. The links lead to higher numbers.\<close>

fun frag_chain :: "nat \<Rightarrow> nat \<Rightarrow> allocated_headers \<Rightarrow> nat list result" where
  "frag_chain 0 n a = Inl Out_Of_Range"
| "frag_chain (Suc k) n a =
     rbind (frag_at n a) (\<lambda>f.
       if next_frag f = 0 then Inr [n] else rbind (frag_chain k (next_frag f) a) (\<lambda>ns. Inr (n # ns)))"

definition chain_of :: "nat \<Rightarrow> allocated_headers \<Rightarrow> nat list result" where
  "chain_of h a =
     rbind (index_at h a) (\<lambda>n. if n = 0 then Inr [] else frag_chain (length (frags a)) n a)"

definition lws_hdr_total_length :: "nat \<Rightarrow> allocated_headers \<Rightarrow> nat result" where
  "lws_hdr_total_length h a =
     rbind (chain_of h a) (\<lambda>ns. Inr (sum_list (map (\<lambda>n. frag_len (frags a ! n)) ns)))"

text \<open>The pointer to the text of the first fragment: what is in front of the NUL there.\<close>

definition lws_hdr_simple_ptr :: "nat \<Rightarrow> allocated_headers \<Rightarrow> string option result" where
  "lws_hdr_simple_ptr h a =
     rbind (index_at h a) (\<lambda>n.
       if n = 0 then Inr None
       else rbind (frag_at n a) (\<lambda>f.
         if NUL \<in> set (drop (offset f) (data a)) then Inr (Some (c_str (drop (offset f) (data a))))
         else Inl Out_Of_Range))"

definition lws_pos_in_bounds :: "lws_header_related \<Rightarrow> bool result" where
  "lws_pos_in_bounds w =
     (if pos (ah w) < max_http_header_data w then Inr True
      else if pos (ah w) = max_http_header_data w then Inr False
      else Inl Assertion_Failed)"

text \<open>\<open>issue_char\<close> answers \<open>None\<close> for \<open>- 1\<close>, whether the limit of the token was met otherwise.\<close>

definition issue_char :: "char \<Rightarrow> lws_header_related \<Rightarrow> (bool option \<times> lws_header_related) result" where
  "issue_char c w =
     rbind (lws_pos_in_bounds w) (\<lambda>ok.
       if \<not> ok then Inr (None, w)
       else rbind (frag_at (nfrag (ah w)) (ah w)) (\<lambda>f.
         if frag_len f < current_token_limit w then
           rbind (store_char c (ah w)) (\<lambda>a.
           rbind (if c \<noteq> NUL then add_len 1 a else Inr a) (\<lambda>a.
           Inr (Some False, w\<lparr>ah := a\<rparr>)))
         else if frag_len f = current_token_limit w then
           rbind (store_char NUL (ah w)) (\<lambda>a. Inr (Some True, w\<lparr>ah := a\<rparr>))
         else Inr (Some True, w)))"

section \<open>The parser\<close>

text \<open>The answer: go on, the connection is dropped, is forbidden with a status, or becomes raw.\<close>

datatype answer = Go_On | Drop | Forbid | Raw

type_synonym parsed = "(answer \<times> lws_header_related) result"

definition issue :: "char \<Rightarrow> lws_header_related \<Rightarrow> (lws_header_related \<Rightarrow> parsed) \<Rightarrow> parsed" where
  "issue c w k = rbind (issue_char c w) (\<lambda>(r, w). if r = None then Inr (Drop, w) else k w)"

text \<open>The labels \<open>start_fragment\<close> and \<open>excessive\<close>.\<close>

definition excessive :: "nat \<Rightarrow> lws_header_related \<Rightarrow> parsed" where
  "excessive t w =
     (let a = ah w
      in if nfrag a = length (frags a) then Inr (Drop, w)
         else
           rbind (put_frag (nfrag a) \<lparr>offset = pos a, frag_len = 0, next_frag = 0\<rparr> a) (\<lambda>a.
           rbind (chain_of t a) (\<lambda>ns.
             if ns = [] then rbind (put_index t (nfrag a) a) (\<lambda>a. Inr (Go_On, w\<lparr>ah := a\<rparr>))
             else
               rbind (frag_at (last ns) a) (\<lambda>f.
               rbind (put_frag (last ns) (f\<lparr>next_frag := nfrag a\<rparr>) a) (\<lambda>a.
               issue (CHR '' '') (w\<lparr>ah := a\<rparr>) (\<lambda>w. Inr (Go_On, w)))))))"

definition start_fragment :: "nat \<Rightarrow> lws_header_related \<Rightarrow> parsed" where
  "start_fragment t w = excessive t (w\<lparr>ah := (ah w)\<lparr>nfrag := nfrag (ah w) + 1\<rparr>\<rparr>)"

text \<open>The label \<open>set_parsing_complete\<close>.\<close>

definition set_parsing_complete :: "lws_header_related \<Rightarrow> parsed" where
  "set_parsing_complete w =
     (if ues w \<noteq> URIES_IDLE then Inr (Forbid, w)
      else
        rbind (lws_hdr_total_length WSI_TOKEN_UPGRADE (ah w)) (\<lambda>u.
        rbind (lws_hdr_total_length WSI_TOKEN_VERSION (ah w)) (\<lambda>v.
        rbind (if u \<noteq> 0 \<and> v \<noteq> 0
               then rbind (lws_hdr_simple_ptr WSI_TOKEN_VERSION (ah w)) (\<lambda>p.
                      case p of None \<Rightarrow> Inl Null_Pointer | Some s \<Rightarrow> Inr (w\<lparr>ietf_spec_revision := atoi s\<rparr>))
               else Inr w) (\<lambda>w.
        Inr (Go_On, w\<lparr>parser_state := WSI_PARSING_COMPLETE, hdr_parsing_completed := True\<rparr>)))))"

text \<open>The label \<open>check_eol\<close>, with the text of a token up to the end of the line.\<close>

definition check_eol :: "nat \<Rightarrow> char \<Rightarrow> lws_header_related \<Rightarrow> parsed" where
  "check_eol t c w =
     (if t \<noteq> WSI_TOKEN_CHALLENGE \<and> c = CHR 0x0D \<and> ues w \<noteq> URIES_IDLE then Inr (Forbid, w)
      else
        let (c, w) = (if t \<noteq> WSI_TOKEN_CHALLENGE \<and> c = CHR 0x0D
                      then (NUL, w\<lparr>parser_state := WSI_TOKEN_SKIPPING_SAW_CR\<rparr>) else (c, w))
        in rbind (issue_char c w) (\<lambda>(r, w).
             if r = None then Inr (Drop, w)
             else
               let w = (if r = Some True then w\<lparr>parser_state := WSI_TOKEN_SKIPPING\<rparr> else w)
               in if parser_state w = In_token WSI_TOKEN_CHALLENGE then set_parsing_complete w else Inr (Go_On, w)))"

text \<open>One directory level up: back to the last slash in the fragment.\<close>

fun back_to_slash :: "nat \<Rightarrow> nat \<Rightarrow> string \<Rightarrow> nat \<times> nat" where
  "back_to_slash len p d =
     (let p = p - 1; len = len - 1
      in if len > 1 \<and> d ! p \<noteq> CHR ''/'' then back_to_slash len p d else (len, p))"

declare back_to_slash.simps [simp del]

definition up_one_level :: "lws_header_related \<Rightarrow> lws_header_related result" where
  "up_one_level w =
     (let a = ah w
      in rbind (frag_at (nfrag a) a) (\<lambda>f.
           if frag_len f > 2 then
             let (len, p) = back_to_slash (frag_len f - 1) (pos a - 1) (data a)
             in rbind (put_frag (nfrag a) (f\<lparr>frag_len := len\<rparr>) (a\<lparr>pos := p\<rparr>)) (\<lambda>a. Inr (w\<lparr>ah := a\<rparr>))
           else Inr w))"

text \<open>
  What a character of a URI leads to: an answer at once, the label \<open>swallow\<close>, the label \<open>excessive\<close>,
  or on with a character.
\<close>

datatype uri_next = Answer answer | Swallow | Excessive | On char

text \<open>The first priority: escapes.\<close>

definition uri_escape :: "char \<Rightarrow> lws_header_related \<Rightarrow> uri_next \<times> bool \<times> lws_header_related" where
  "uri_escape c w =
     (case ues w of
        URIES_IDLE \<Rightarrow>
          if c = CHR ''%'' then (Swallow, False, w\<lparr>ues := URIES_SEEN_PERCENT\<rparr>) else (On c, False, w)
      | URIES_SEEN_PERCENT \<Rightarrow>
          if char_to_hex c < 0 then (Answer Forbid, False, w)
          else (Swallow, False, w\<lparr>esc_stash := c, ues := URIES_SEEN_PERCENT_H1\<rparr>)
      | URIES_SEEN_PERCENT_H1 \<Rightarrow>
          if char_to_hex c < 0 then (Answer Forbid, False, w)
          else (On (char_of (nat (char_to_hex (esc_stash w) * 16 + char_to_hex c))), True, w\<lparr>ues := URIES_IDLE\<rparr>))"

text \<open>A new fragment at the \<open>&\<close> or \<open>;\<close> of a URI.\<close>

definition next_argument :: "char \<Rightarrow> lws_header_related \<Rightarrow> (uri_next \<times> lws_header_related) result" where
  "next_argument c w =
     rbind (issue_char c w) (\<lambda>(r, w).
       if r = None then Inr (Answer Drop, w)
       else
         rbind (add_len (2 ^ 16 - 1) (ah w)) (\<lambda>a.
         rbind (frag_at (nfrag a) a) (\<lambda>f.
         rbind (put_frag (nfrag a) (f\<lparr>next_frag := nfrag a + 1\<rparr>) a) (\<lambda>a.
           let a = a\<lparr>nfrag := nfrag a + 1\<rparr>
           in if nfrag a \<ge> length (frags a) then Inr (Excessive, w\<lparr>ah := a\<rparr>)
              else
                rbind (put_frag (nfrag a) \<lparr>offset = pos a, frag_len = 0, next_frag = 0\<rparr> a) (\<lambda>a.
                Inr (Swallow, w\<lparr>ah := a, post_literal_equal := False\<rparr>))))))"

text \<open>The second priority: slashes and dots.\<close>

definition uri_path :: "char \<Rightarrow> bool \<Rightarrow> lws_header_related \<Rightarrow> (uri_next \<times> lws_header_related) result" where
  "uri_path c enc w =
     rbind (index_at WSI_TOKEN_HTTP_URI_ARGS (ah w)) (\<lambda>args.
     case ups w of
       URIPS_IDLE \<Rightarrow>
         if c = NUL then Inr (Answer Drop, w)
         else if (c = CHR ''&'' \<or> c = CHR '';'') \<and> \<not> enc then next_argument c w
         else
           let c = (if c = CHR ''='' \<and> enc \<and> args \<noteq> 0 \<and> \<not> post_literal_equal w then CHR ''_'' else c);
               w = (if c = CHR ''='' \<and> \<not> enc then w\<lparr>post_literal_equal := True\<rparr> else w);
               c = (if c = CHR ''+'' \<and> \<not> enc then CHR '' '' else c);
               w = (if c = CHR ''/'' \<and> args = 0 then w\<lparr>ups := URIPS_SEEN_SLASH\<rparr> else w)
           in Inr (On c, w)
     | URIPS_SEEN_SLASH \<Rightarrow>
         if c = CHR ''/'' then Inr (Swallow, w)
         else if c = CHR ''.'' then Inr (Swallow, w\<lparr>ups := URIPS_SEEN_SLASH_DOT\<rparr>)
         else Inr (On c, w\<lparr>ups := URIPS_IDLE\<rparr>)
     | URIPS_SEEN_SLASH_DOT \<Rightarrow>
         if c = CHR ''.'' then Inr (Swallow, w\<lparr>ups := URIPS_SEEN_SLASH_DOT_DOT\<rparr>)
         else if c = CHR ''/'' then Inr (Swallow, w\<lparr>ups := URIPS_SEEN_SLASH\<rparr>)
         else
           rbind (issue_char (CHR ''.'') (w\<lparr>ups := URIPS_IDLE\<rparr>)) (\<lambda>(r, w).
           Inr (if r = None then Answer Drop else On c, w))
     | URIPS_SEEN_SLASH_DOT_DOT \<Rightarrow>
         if c = CHR ''/'' \<or> c = CHR ''?'' then
           rbind (up_one_level w) (\<lambda>w.
           let w = w\<lparr>ups := URIPS_SEEN_SLASH\<rparr>
           in rbind (frag_at (nfrag (ah w)) (ah w)) (\<lambda>f.
              Inr (if frag_len f > 1 then On c else Swallow, w)))
         else
           rbind (issue_char (CHR ''.'') w) (\<lambda>(r, w).
           if r = None then Inr (Answer Drop, w)
           else rbind (issue_char (CHR ''.'') w) (\<lambda>(r, w).
             if r = None then Inr (Answer Drop, w) else Inr (On c, w\<lparr>ups := URIPS_IDLE\<rparr>))))"

text \<open>The \<open>?\<close> in front of the arguments.\<close>

definition uri_args :: "lws_header_related \<Rightarrow> (uri_next \<times> lws_header_related) result" where
  "uri_args w =
     (if ues w \<noteq> URIES_IDLE then Inr (Answer Forbid, w)
      else rbind (issue_char NUL w) (\<lambda>(r, w).
        if r = None then Inr (Answer Drop, w)
        else
          let a = (ah w)\<lparr>nfrag := nfrag (ah w) + 1\<rparr>
          in if nfrag a \<ge> length (frags a) then Inr (Excessive, w\<lparr>ah := a\<rparr>)
             else
               rbind (put_frag (nfrag a) \<lparr>offset = pos a, frag_len = 0, next_frag = 0\<rparr> a) (\<lambda>a.
               rbind (put_index WSI_TOKEN_HTTP_URI_ARGS (nfrag a) a) (\<lambda>a.
               Inr (Swallow, w\<lparr>ah := a, post_literal_equal := False, ups := URIPS_IDLE\<rparr>)))))"

definition uri_char :: "char \<Rightarrow> lws_header_related \<Rightarrow> (uri_next \<times> lws_header_related) result" where
  "uri_char c w =
     (case uri_escape c w of
        (On c, enc, w) \<Rightarrow>
          rbind (uri_path c enc w) (\<lambda>(x, w).
            case x of
              On c \<Rightarrow>
                rbind (index_at WSI_TOKEN_HTTP_URI_ARGS (ah w)) (\<lambda>args.
                if c = CHR ''?'' \<and> \<not> enc \<and> args = 0 then uri_args w else Inr (On c, w))
            | _ \<Rightarrow> Inr (x, w))
      | (x, enc, w) \<Rightarrow> Inr (x, w))"

text \<open>The space behind a URI.\<close>

definition uri_end :: "lws_header_related \<Rightarrow> parsed" where
  "uri_end w =
     rbind (frag_at (nfrag (ah w)) (ah w)) (\<lambda>f.
     (if frag_len f = 0 then issue (CHR ''/'') w else (\<lambda>k. k w)) (\<lambda>w.
     rbind (if ups w = URIPS_SEEN_SLASH_DOT_DOT then up_one_level w else Inr w) (\<lambda>w.
     issue NUL w (\<lambda>w. start_fragment WSI_TOKEN_HTTP (w\<lparr>parser_state := In_token WSI_TOKEN_HTTP\<rparr>)))))"

text \<open>The text of a token.\<close>

definition token_char :: "nat \<Rightarrow> char \<Rightarrow> lws_header_related \<Rightarrow> parsed" where
  "token_char t c w =
     rbind (index_at t (ah w)) (\<lambda>n.
     rbind (frag_at n (ah w)) (\<lambda>f.
       if frag_len f = 0 \<and> c = CHR '' '' then Inr (Go_On, w)
       else if t \<notin> set methods then check_eol t c w
       else if c = CHR '' '' then uri_end w
       else
         rbind (uri_char c w) (\<lambda>(x, w).
           case x of
             Answer r \<Rightarrow> Inr (r, w)
           | Swallow \<Rightarrow> if t = WSI_TOKEN_CHALLENGE then set_parsing_complete w else Inr (Go_On, w)
           | Excessive \<Rightarrow> excessive t w
           | On c \<Rightarrow> check_eol t c w)))"

text \<open>The name of a header or a method. The place \<open>- 1\<close> for an unknown name is not kept, since the next name starts at 0.\<close>

definition had_method :: "allocated_headers \<Rightarrow> bool" where
  "had_method a \<longleftrightarrow> (\<exists>m \<in> set methods. frag_index a ! m \<noteq> 0)"

definition name_char :: "char \<Rightarrow> lws_header_related \<Rightarrow> parsed" where
  "name_char c w =
     rbind (lextable_decode (lextable_pos w) c) (\<lambda>p.
       case p of
         None \<Rightarrow>
           if serving w then
             if had_method (ah w) then Inr (Go_On, w\<lparr>parser_state := WSI_TOKEN_SKIPPING\<rparr>)
             else if fallback_to_raw w then Inr (Raw, w)
             else Inr (Forbid, w)
           else Inr (Go_On, w\<lparr>parser_state := WSI_TOKEN_SKIPPING\<rparr>)
       | Some p \<Rightarrow>
           let w = w\<lparr>lextable_pos := p\<rparr>
           in if lextable ! p < FAIL_CHAR then
                let n = push_bit 8 (lextable ! p) OR lextable ! (p + 1)
                in if n \<in> set methods \<and> frag_index (ah w) ! n \<noteq> 0 then Inr (Drop, w)
                   else
                     let n = (if n = WSI_TOKEN_SWORIGIN then WSI_TOKEN_ORIGIN else n);
                         w = w\<lparr>parser_state := In_token n, current_token_limit := max_http_header_data w\<rparr>
                     in if n = WSI_TOKEN_CHALLENGE then set_parsing_complete w else start_fragment n w
              else Inr (Go_On, w))"

definition lws_parse :: "char \<Rightarrow> lws_header_related \<Rightarrow> parsed" where
  "lws_parse c w =
     (case parser_state w of
        In_token t \<Rightarrow> token_char t c w
      | WSI_TOKEN_NAME_PART \<Rightarrow> name_char c w
      | WSI_TOKEN_SKIPPING \<Rightarrow>
          Inr (Go_On, if c = CHR 0x0D then w\<lparr>parser_state := WSI_TOKEN_SKIPPING_SAW_CR\<rparr> else w)
      | WSI_TOKEN_SKIPPING_SAW_CR \<Rightarrow>
          if ues w \<noteq> URIES_IDLE then Inr (Forbid, w)
          else if c = CHR 0x0A then Inr (Go_On, w\<lparr>parser_state := WSI_TOKEN_NAME_PART, lextable_pos := 0\<rparr>)
          else Inr (Go_On, w\<lparr>parser_state := WSI_TOKEN_SKIPPING\<rparr>)
      | WSI_PARSING_COMPLETE \<Rightarrow> Inr (Go_On, w))"

text \<open>
  The loop of the client over the bytes that come in, up to the end of the headers or a refusal; with
  what is left of the bytes. The loop of the server is the same up to there.
\<close>

fun parse_headers :: "string \<Rightarrow> lws_header_related \<Rightarrow> (answer \<times> string \<times> lws_header_related) result" where
  "parse_headers [] w = Inr (Go_On, [], w)"
| "parse_headers (c # s) w =
     (if parser_state w = WSI_PARSING_COMPLETE then Inr (Go_On, c # s, w)
      else rbind (lws_parse c w) (\<lambda>(r, w). if r \<noteq> Go_On then Inr (r, s, w) else parse_headers s w))"

text \<open>A header put into the table by the program itself, which answers whether there was room.\<close>

fun create_loop :: "string \<Rightarrow> lws_header_related \<Rightarrow> (bool \<times> lws_header_related) result" where
  "create_loop s w =
     rbind (lws_pos_in_bounds w) (\<lambda>ok.
       if \<not> ok then Inr (False, w)
       else
         case s of
           [] \<Rightarrow> rbind (store_char NUL (ah w)) (\<lambda>a. Inr (True, w\<lparr>ah := a\<rparr>))
         | c # s \<Rightarrow>
             rbind (store_char c (ah w)) (\<lambda>a.
             rbind (add_len 1 a) (\<lambda>a. create_loop s (w\<lparr>ah := a\<rparr>))))"

declare create_loop.simps [simp del]

definition lws_hdr_simple_create :: "nat \<Rightarrow> string \<Rightarrow> lws_header_related \<Rightarrow> (bool \<times> lws_header_related) result" where
  "lws_hdr_simple_create h s w =
     (let a = (ah w)\<lparr>nfrag := nfrag (ah w) + 1\<rparr>
      in if nfrag a = length (frags a) then Inr (False, w\<lparr>ah := a\<rparr>)
         else
           rbind (put_index h (nfrag a) a) (\<lambda>a.
           rbind (put_frag (nfrag a) \<lparr>offset = pos a, frag_len = 0, next_frag = 0\<rparr> a) (\<lambda>a.
           create_loop (c_str s) (w\<lparr>ah := a\<rparr>))))"

section \<open>Places in the table of names\<close>

definition good_pos :: "nat \<Rightarrow> bool" where
  "good_pos p \<longleftrightarrow> (\<exists>ns. agrees p ns \<and> (\<forall>s n. map_of ns s = Some n \<longrightarrow> n < 82))"

lemma map_of_numbered_bound: "map_of (numbered k ks) s = Some n \<Longrightarrow> n < k + length ks"
  by (induction ks arbitrary: k) (fastforce split: if_splits)+

lemma good_pos_0: "good_pos 0"
proof -
  have "length (butlast lextable_set) = 82" by (simp add: lextable_set_def)
  then show ?thesis
    using table_agrees map_of_numbered_bound [of 0 "butlast lextable_set"] unfolding good_pos_def by force
qed

lemma good_pos_step:
  assumes "good_pos p" "FAIL_CHAR \<le> lextable ! p"
  obtains r where "lextable_decode p c = Inr r" "\<And>q. r = Some q \<Longrightarrow> good_pos q"
proof -
  obtain ns where ns: "agrees p ns" "\<And>s n. map_of ns s = Some n \<Longrightarrow> n < 82" using assms(1) by (auto simp: good_pos_def)
  obtain r where r: "lex_from lextable p (of_char (to_lower c)) = Inr r"
    "case r of None \<Rightarrow> \<forall>cs. map_of ns (to_lower c # cs) = None
     | Some p \<Rightarrow> \<exists>ns'. agrees p ns' \<and> (\<forall>cs. map_of ns' cs = map_of ns (to_lower c # cs))"
    using agrees_step [OF ns(1) assms(2), of "to_lower c"] .
  have "good_pos q" if "r = Some q" for q using r(2) that ns(2) by (auto simp: good_pos_def)
  then show thesis using that [of r] r(1) by (simp add: lextable_decode_def)
qed

lemma good_pos_token:
  assumes "good_pos p" "lextable ! p < FAIL_CHAR"
  shows "push_bit 8 (lextable ! p) OR lextable ! (p + 1) < 82"
proof -
  obtain ns where ns: "agrees p ns" "\<And>s n. map_of ns s = Some n \<Longrightarrow> n < 82" using assms(1) by (auto simp: good_pos_def)
  have "lex_token p [] = Inr (map_of ns [])" using agrees_token [OF ns(1), of "[]"] by simp
  then show ?thesis using assms(2) ns(2) [of "[]"] by auto
qed

section \<open>The invariant\<close>

definition links_ok :: "nat \<Rightarrow> allocated_headers \<Rightarrow> bool" where
  "links_ok k a \<longleftrightarrow> (\<forall>n. 1 \<le> n \<and> n \<le> k \<longrightarrow> next_frag (frags a ! n) = 0 \<or> n < next_frag (frags a ! n) \<and> next_frag (frags a ! n) \<le> k)"

definition ah_ok :: "nat \<Rightarrow> allocated_headers \<Rightarrow> bool" where
  "ah_ok m a \<longleftrightarrow> m < 2 ^ 15 \<and> length (data a) = m \<and> pos a \<le> m \<and> length (frags a) = 2 * WSI_TOKEN_COUNT
     \<and> nfrag a < 2 * WSI_TOKEN_COUNT \<and> length (frag_index a) = WSI_TOKEN_COUNT
     \<and> (\<forall>t < WSI_TOKEN_COUNT. frag_index a ! t \<le> nfrag a) \<and> links_ok (nfrag a) a
     \<and> (\<forall>n. 1 \<le> n \<and> n < nfrag a \<longrightarrow> offset (frags a ! n) + frag_len (frags a ! n) \<le> offset (frags a ! nfrag a))
     \<and> (1 \<le> nfrag a \<longrightarrow> offset (frags a ! nfrag a) + frag_len (frags a ! nfrag a) \<le> pos a)"

text \<open>Between two headers all text ends with a NUL.\<close>

definition closed :: "allocated_headers \<Rightarrow> bool" where
  "closed a \<longleftrightarrow> nfrag a = 0 \<or> (offset (frags a ! nfrag a) < pos a \<and> data a ! (pos a - 1) = NUL)"

definition hdr_ok :: "lws_header_related \<Rightarrow> bool" where
  "hdr_ok w \<longleftrightarrow> ah_ok (max_http_header_data w) (ah w) \<and>
     (case parser_state w of
        In_token t \<Rightarrow> t < 82 \<and> t \<noteq> WSI_TOKEN_CHALLENGE \<and> frag_index (ah w) ! t \<noteq> 0
          \<and> current_token_limit w = max_http_header_data w
      | WSI_TOKEN_NAME_PART \<Rightarrow> closed (ah w) \<and> good_pos (lextable_pos w) \<and> FAIL_CHAR \<le> lextable ! lextable_pos w
      | _ \<Rightarrow> closed (ah w))"

lemma token_counts: "WSI_TOKEN_COUNT = 88"
  by (simp add: WSI_TOKEN_COUNT_def)

text \<open>A character at the end of the text.\<close>

definition appended :: "char \<Rightarrow> allocated_headers \<Rightarrow> allocated_headers" where
  "appended c a = a\<lparr>data := (data a)[pos a := c], pos := pos a + 1,
     frags := (frags a)[nfrag a := (frags a ! nfrag a)\<lparr>frag_len := frag_len (frags a ! nfrag a) + of_bool (c \<noteq> NUL)\<rparr>]\<rparr>"

lemma appended_simps [simp]:
  "pos (appended c a) = pos a + 1" "nfrag (appended c a) = nfrag a" "frag_index (appended c a) = frag_index a"
  "length (frags (appended c a)) = length (frags a)" "length (data (appended c a)) = length (data a)"
  "data (appended c a) = (data a)[pos a := c]"
  by (simp_all add: appended_def)

lemma frag_appended:
  "nfrag a < length (frags a) \<Longrightarrow> frags (appended c a) ! n
    = (if n = nfrag a then (frags a ! n)\<lparr>frag_len := frag_len (frags a ! n) + of_bool (c \<noteq> NUL)\<rparr> else frags a ! n)"
  by (auto simp: appended_def nth_list_update)

lemma ah_ok_appended:
  assumes "ah_ok m a" "pos a < m" "1 \<le> nfrag a"
  shows "ah_ok m (appended c a)"
  using assms by (auto simp: ah_ok_def links_ok_def frag_appended)

lemma issue_char_eq:
  assumes "ah_ok (max_http_header_data w) (ah w)" "1 \<le> nfrag (ah w)" "current_token_limit w = max_http_header_data w"
  shows "issue_char c w = Inr (if pos (ah w) < max_http_header_data w then (Some False, w\<lparr>ah := appended c (ah w)\<rparr>) else (None, w))"
proof -
  let ?a = "ah w" and ?m = "max_http_header_data w"
  have a: "nfrag ?a < length (frags ?a)" "pos ?a \<le> ?m" "length (data ?a) = ?m" "frag_len (frags ?a ! nfrag ?a) \<le> pos ?a" "?m < 2 ^ 15"
    using assms(1,2) by (auto simp: ah_ok_def)
  show ?thesis
  proof (cases "pos ?a < ?m")
    case True
    then have "(frag_len (frags ?a ! nfrag ?a) + 1) mod 2 ^ 16 = frag_len (frags ?a ! nfrag ?a) + 1" using a by simp
    then show ?thesis using True a assms(3)
      by (simp add: issue_char_def lws_pos_in_bounds_def frag_at_def store_char_def add_len_def put_frag_def appended_def)
  next
    case False
    then show ?thesis using a by (simp add: issue_char_def lws_pos_in_bounds_def)
  qed
qed

text \<open>A new fragment, and a link to the last one.\<close>

definition new_frag :: "allocated_headers \<Rightarrow> allocated_headers" where
  "new_frag a = a\<lparr>nfrag := nfrag a + 1, frags := (frags a)[nfrag a + 1 := \<lparr>offset = pos a, frag_len = 0, next_frag = 0\<rparr>]\<rparr>"

lemma new_frag_simps [simp]:
  "pos (new_frag a) = pos a" "nfrag (new_frag a) = nfrag a + 1" "frag_index (new_frag a) = frag_index a"
  "length (frags (new_frag a)) = length (frags a)" "data (new_frag a) = data a"
  by (simp_all add: new_frag_def)

lemma frag_new_frag:
  "nfrag a + 1 < length (frags a) \<Longrightarrow> frags (new_frag a) ! n
     = (if n = nfrag a + 1 then \<lparr>offset = pos a, frag_len = 0, next_frag = 0\<rparr> else frags a ! n)"
  by (auto simp: new_frag_def nth_list_update)

lemma ah_ok_last:
  assumes "ah_ok m a" "1 \<le> nfrag a"
  shows "offset (frags a ! nfrag a) + frag_len (frags a ! nfrag a) \<le> pos a"
  using assms by (simp add: ah_ok_def)

lemma ah_ok_frag:
  assumes "ah_ok m a" "1 \<le> n" "n \<le> nfrag a"
  shows "offset (frags a ! n) + frag_len (frags a ! n) \<le> pos a"
proof (cases "n = nfrag a")
  case False
  then have "offset (frags a ! n) + frag_len (frags a ! n) \<le> offset (frags a ! nfrag a)"
    using assms by (simp add: ah_ok_def)
  then show ?thesis using ah_ok_last [OF assms(1)] assms by linarith
qed (use assms ah_ok_last in simp)

lemma ah_ok_new_frag:
  assumes a: "ah_ok m a" and n: "nfrag a + 1 < 2 * WSI_TOKEN_COUNT"
  shows "ah_ok m (new_frag a)"
proof -
  note o = ah_ok_frag [OF a]
  have l: "links_ok (nfrag a + 1) (new_frag a)"
    using a n unfolding links_ok_def ah_ok_def by (auto simp: frag_new_frag le_Suc_eq)
  have "\<forall>t<WSI_TOKEN_COUNT. frag_index a ! t \<le> nfrag a + 1" using a by (auto simp: ah_ok_def le_SucI)
  then show ?thesis using a n o l unfolding ah_ok_def by (auto simp: frag_new_frag le_Suc_eq)
qed

definition linked :: "nat \<Rightarrow> nat \<Rightarrow> allocated_headers \<Rightarrow> allocated_headers" where
  "linked n k a = a\<lparr>frags := (frags a)[n := (frags a ! n)\<lparr>next_frag := k\<rparr>]\<rparr>"

lemma linked_simps [simp]:
  "pos (linked n k a) = pos a" "nfrag (linked n k a) = nfrag a" "frag_index (linked n k a) = frag_index a"
  "length (frags (linked n k a)) = length (frags a)" "data (linked n k a) = data a"
  by (simp_all add: linked_def)

lemma frag_linked:
  "n < length (frags a) \<Longrightarrow> frags (linked n k a) ! i = (if i = n then (frags a ! i)\<lparr>next_frag := k\<rparr> else frags a ! i)"
  by (auto simp: linked_def nth_list_update)

lemma ah_ok_linked:
  assumes "ah_ok m a" "1 \<le> n" "n < nfrag a"
  shows "ah_ok m (linked n (nfrag a) a)"
  using assms ah_ok_last [OF assms(1)] unfolding ah_ok_def by (auto simp: links_ok_def frag_linked)

definition indexed :: "nat \<Rightarrow> allocated_headers \<Rightarrow> allocated_headers" where
  "indexed t a = a\<lparr>frag_index := (frag_index a)[t := nfrag a]\<rparr>"

lemma indexed_simps [simp]:
  "pos (indexed t a) = pos a" "nfrag (indexed t a) = nfrag a" "frags (indexed t a) = frags a" "data (indexed t a) = data a"
  "length (frag_index (indexed t a)) = length (frag_index a)"
  by (simp_all add: indexed_def)

lemma index_indexed:
  "t < length (frag_index a) \<Longrightarrow> frag_index (indexed t a) ! i = (if i = t then nfrag a else frag_index a ! i)"
  by (simp add: indexed_def nth_list_update)

lemma ah_ok_indexed:
  assumes "ah_ok m a" "t < WSI_TOKEN_COUNT"
  shows "ah_ok m (indexed t a)"
  using assms unfolding ah_ok_def by (simp add: links_ok_def index_indexed)

section \<open>Chains\<close>

lemma frag_chain_ok:
  assumes "links_ok k a" "k < length (frags a)" "1 \<le> n" "n \<le> k" "k - n < fuel"
  obtains ns where "frag_chain fuel n a = Inr ns" "ns \<noteq> []" "\<And>x. x \<in> set ns \<Longrightarrow> 1 \<le> x \<and> x \<le> k"
proof -
  have "\<exists>ns. frag_chain fuel n a = Inr ns \<and> ns \<noteq> [] \<and> (\<forall>x \<in> set ns. 1 \<le> x \<and> x \<le> k)"
    using assms(3-)
  proof (induction fuel arbitrary: n)
    case (Suc fuel)
    let ?x = "next_frag (frags a ! n)"
    have at: "frag_at n a = Inr (frags a ! n)" using Suc.prems assms(2) by (simp add: frag_at_def)
    have x: "?x = 0 \<or> n < ?x \<and> ?x \<le> k" using assms(1) Suc.prems by (simp add: links_ok_def)
    show ?case
    proof (cases "?x = 0")
      case True
      then show ?thesis using Suc.prems at by simp
    next
      case False
      then have "1 \<le> ?x" "?x \<le> k" "k - ?x < fuel" using x Suc.prems by auto
      from Suc.IH [OF this] obtain ns where "frag_chain fuel ?x a = Inr ns" "\<forall>x \<in> set ns. 1 \<le> x \<and> x \<le> k"
        by blast
      then show ?thesis using False at Suc.prems by simp
    qed
  qed simp
  then show thesis using that by blast
qed

lemma chain_of_ok:
  assumes "links_ok k a" "k < length (frags a)" "t < length (frag_index a)" "frag_index a ! t \<le> k"
  obtains ns where "chain_of t a = Inr ns" "ns = [] \<longleftrightarrow> frag_index a ! t = 0" "\<And>x. x \<in> set ns \<Longrightarrow> 1 \<le> x \<and> x \<le> k"
proof (cases "frag_index a ! t = 0")
  case True
  then show thesis using that [of "[]"] assms by (simp add: chain_of_def index_at_def)
next
  case False
  then have "1 \<le> frag_index a ! t" "k - frag_index a ! t < length (frags a)" using assms by auto
  then obtain ns where "frag_chain (length (frags a)) (frag_index a ! t) a = Inr ns" "ns \<noteq> []"
    "\<And>x. x \<in> set ns \<Longrightarrow> 1 \<le> x \<and> x \<le> k"
    using frag_chain_ok [OF assms(1,2) _ assms(4)] by blast
  then show thesis using that [of ns] assms False by (simp add: chain_of_def index_at_def)
qed

lemma ah_ok_chain:
  assumes "ah_ok m a" "t < WSI_TOKEN_COUNT"
  shows "links_ok (nfrag a) a" "nfrag a < length (frags a)" "t < length (frag_index a)" "frag_index a ! t \<le> nfrag a"
  using assms by (simp_all add: ah_ok_def)

lemma lws_hdr_total_length_ok:
  assumes "ah_ok m a" "t < WSI_TOKEN_COUNT"
  obtains n where "lws_hdr_total_length t a = Inr n"
proof -
  obtain ns where "chain_of t a = Inr ns" using chain_of_ok [OF ah_ok_chain [OF assms]] .
  then show thesis using that by (simp add: lws_hdr_total_length_def)
qed

lemma lws_hdr_total_length_absent:
  "t < length (frag_index a) \<Longrightarrow> frag_index a ! t = 0 \<Longrightarrow> lws_hdr_total_length t a = Inr 0"
  by (simp add: lws_hdr_total_length_def chain_of_def index_at_def)

lemma nth_in_drop:
  assumes "i \<le> j" "j < length xs"
  shows "xs ! j \<in> set (drop i xs)"
proof -
  have "drop i xs ! (j - i) \<in> set (drop i xs)" using assms by (intro nth_mem) simp
  then show ?thesis using assms by simp
qed

text \<open>The text of every token ends inside the table, once it is closed.\<close>

lemma lws_hdr_simple_ptr_ok:
  assumes a: "ah_ok m a" and c: "closed a" and t: "t < WSI_TOKEN_COUNT"
  obtains s where "lws_hdr_simple_ptr t a = Inr s" "s = None \<longleftrightarrow> frag_index a ! t = 0"
proof (cases "frag_index a ! t = 0")
  case True
  then show thesis using that [of None] a t by (simp add: lws_hdr_simple_ptr_def index_at_def ah_ok_def)
next
  case False
  let ?n = "frag_index a ! t"
  have n: "1 \<le> ?n" "?n \<le> nfrag a" "nfrag a < length (frags a)" using False a t by (auto simp: ah_ok_def)
  have "offset (frags a ! ?n) \<le> offset (frags a ! nfrag a)"
    using n a by (cases "?n = nfrag a") (auto simp: ah_ok_def dest: add_leD1)
  then have o: "offset (frags a ! ?n) \<le> pos a - 1" "pos a - 1 < length (data a)" "data a ! (pos a - 1) = NUL"
    using c n a False by (auto simp: closed_def ah_ok_def)
  have "data a ! (pos a - 1) \<in> set (drop (offset (frags a ! ?n)) (data a))"
    using o(1,2) by (rule nth_in_drop)
  then have "NUL \<in> set (drop (offset (frags a ! ?n)) (data a))" using o(3) by simp
  then show thesis using that False n a t by (simp add: lws_hdr_simple_ptr_def index_at_def frag_at_def ah_ok_def)
qed

section \<open>Every step stays inside the table\<close>

definition in_token :: "nat \<Rightarrow> lws_header_related \<Rightarrow> bool" where
  "in_token t w \<longleftrightarrow> ah_ok (max_http_header_data w) (ah w) \<and> t < 82 \<and> t \<noteq> WSI_TOKEN_CHALLENGE \<and> frag_index (ah w) ! t \<noteq> 0
     \<and> current_token_limit w = max_http_header_data w"

definition keeps :: "parsed \<Rightarrow> bool" where
  "keeps r \<longleftrightarrow> (\<exists>x w. r = Inr (x, w) \<and> (x = Go_On \<longrightarrow> hdr_ok w))"

lemma keepsI: "x \<noteq> Go_On \<Longrightarrow> keeps (Inr (x, w))" "hdr_ok w \<Longrightarrow> keeps (Inr (x, w))"
  by (simp_all add: keeps_def)

lemma in_token_nfrag: "in_token t w \<Longrightarrow> 1 \<le> nfrag (ah w)"
  using ah_ok_chain(4) [of "max_http_header_data w" "ah w" t] by (simp add: in_token_def WSI_TOKEN_COUNT_def)

lemma hdr_ok_in_token: "in_token t w \<Longrightarrow> parser_state w = In_token t \<Longrightarrow> hdr_ok w"
  by (simp add: hdr_ok_def in_token_def)

lemma issue_char_in_token:
  assumes "in_token t w"
  shows "issue_char c w = Inr (if pos (ah w) < max_http_header_data w then (Some False, w\<lparr>ah := appended c (ah w)\<rparr>) else (None, w))"
  using issue_char_eq in_token_nfrag [OF assms] assms by (simp add: in_token_def)

lemma in_token_appended:
  "in_token t w \<Longrightarrow> pos (ah w) < max_http_header_data w \<Longrightarrow> in_token t (w\<lparr>ah := appended c (ah w)\<rparr>)"
  using in_token_nfrag [of t w] by (simp add: in_token_def ah_ok_appended)

lemma closed_appended:
  assumes "ah_ok m a" "pos a < m" "1 \<le> nfrag a"
  shows "closed (appended NUL a)"
  using ah_ok_last [OF assms(1,3)] assms by (simp add: closed_def ah_ok_def frag_appended)

lemma keeps_issue:
  assumes "in_token t w" "\<And>w'. pos (ah w) < max_http_header_data w \<Longrightarrow> w' = w\<lparr>ah := appended c (ah w)\<rparr> \<Longrightarrow> in_token t w' \<Longrightarrow> keeps (k w')"
  shows "keeps (issue c w k)"
  using assms(2) [OF _ refl in_token_appended [OF assms(1)]]
  by (simp add: issue_def issue_char_in_token [OF assms(1)] keepsI)

lemma set_parsing_complete_keeps:
  assumes a: "ah_ok (max_http_header_data w) (ah w)" and c: "closed (ah w)"
  shows "keeps (set_parsing_complete w)"
proof -
  have t: "WSI_TOKEN_UPGRADE < WSI_TOKEN_COUNT" "WSI_TOKEN_VERSION < WSI_TOKEN_COUNT"
    by (simp_all add: WSI_TOKEN_COUNT_def WSI_TOKEN_UPGRADE_def WSI_TOKEN_VERSION_def)
  obtain u where u: "lws_hdr_total_length WSI_TOKEN_UPGRADE (ah w) = Inr u" using lws_hdr_total_length_ok [OF a t(1)] .
  obtain v where v: "lws_hdr_total_length WSI_TOKEN_VERSION (ah w) = Inr v" using lws_hdr_total_length_ok [OF a t(2)] .
  obtain s where s: "lws_hdr_simple_ptr WSI_TOKEN_VERSION (ah w) = Inr s" "s = None \<longleftrightarrow> frag_index (ah w) ! WSI_TOKEN_VERSION = 0"
    using lws_hdr_simple_ptr_ok [OF a c t(2)] .
  have "v = 0" if "s = None"
    using v s(2) that lws_hdr_total_length_absent [OF ah_ok_chain(3) [OF a t(2)]] by simp
  then show ?thesis using a c u v s(1) by (cases s) (auto simp: set_parsing_complete_def keeps_def hdr_ok_def)
qed

lemma check_eol_keeps:
  assumes w: "in_token t w" and s: "parser_state w = In_token t"
  shows "keeps (check_eol t c w)"
proof (cases "c = CHR 0x0D")
  case True
  let ?w = "w\<lparr>parser_state := WSI_TOKEN_SKIPPING_SAW_CR\<rparr>"
  have i: "in_token t ?w" using w by (simp add: in_token_def)
  have "closed (appended NUL (ah w))" if "pos (ah w) < max_http_header_data w"
    using closed_appended [OF _ that in_token_nfrag [OF w]] w by (simp add: in_token_def)
  then show ?thesis using w True in_token_appended [OF i, of NUL]
    by (simp add: check_eol_def issue_char_in_token [OF i] in_token_def keeps_def hdr_ok_def)
next
  case False
  have "hdr_ok (w\<lparr>ah := appended c (ah w)\<rparr>)" if "pos (ah w) < max_http_header_data w"
    using in_token_appended [OF w that] s by (intro hdr_ok_in_token [of t]) simp_all
  then show ?thesis using False w s by (simp add: check_eol_def issue_char_in_token [OF w] in_token_def keeps_def)
qed

subsection \<open>A new fragment\<close>

lemma start_fragment_keeps:
  assumes a: "ah_ok (max_http_header_data w) (ah w)" and t: "t < 82" "t \<noteq> WSI_TOKEN_CHALLENGE"
    and s: "parser_state w = In_token t" and l: "current_token_limit w = max_http_header_data w"
  shows "keeps (start_fragment t w)"
proof (cases "nfrag (ah w) + 1 = length (frags (ah w))")
  case True
  then show ?thesis by (simp add: start_fragment_def excessive_def keeps_def)
next
  case False
  let ?a = "new_frag (ah w)"
  have n: "nfrag (ah w) + 1 < length (frags (ah w))" "length (frags (ah w)) = 2 * WSI_TOKEN_COUNT" "t < WSI_TOKEN_COUNT"
    using a False t by (auto simp: ah_ok_def WSI_TOKEN_COUNT_def)
  have na: "ah_ok (max_http_header_data w) ?a" using ah_ok_new_frag [OF a] n by simp
  note c = ah_ok_chain [OF a n(3)]
  have "links_ok (nfrag (ah w)) ?a" using c(1) n by (simp add: links_ok_def frag_new_frag)
  then obtain ns where ns: "chain_of t ?a = Inr ns" "ns = [] \<longleftrightarrow> frag_index (ah w) ! t = 0"
    "\<And>x. x \<in> set ns \<Longrightarrow> 1 \<le> x \<and> x \<le> nfrag (ah w)"
    using chain_of_ok [of "nfrag (ah w)" ?a t] c(2-) by auto
  have p: "put_frag (nfrag (ah w) + 1) \<lparr>offset = pos (ah w), frag_len = 0, next_frag = 0\<rparr> ((ah w)\<lparr>nfrag := nfrag (ah w) + 1\<rparr>) = Inr ?a"
    using n by (simp add: put_frag_def new_frag_def)
  show ?thesis
  proof (cases "ns = []")
    case True
    have "in_token t (w\<lparr>ah := indexed t ?a\<rparr>)"
      using ah_ok_indexed [OF na n(3)] c(3) t l by (simp add: in_token_def index_indexed)
    then have "hdr_ok (w\<lparr>ah := indexed t ?a\<rparr>)" using s by (intro hdr_ok_in_token) simp_all
    then show ?thesis using n p ns(1) True c(3)
      by (simp add: start_fragment_def excessive_def put_index_def indexed_def keeps_def)
  next
    case False
    let ?b = "linked (last ns) (nfrag ?a) ?a"
    have x: "1 \<le> last ns" "last ns \<le> nfrag (ah w)" using ns(3) False by auto
    have i: "in_token t (w\<lparr>ah := ?b\<rparr>)"
      using ah_ok_linked [OF na x(1)] x(2) ns(2) False t l by (simp add: in_token_def)
    have "keeps (issue (CHR '' '') (w\<lparr>ah := ?b\<rparr>) (\<lambda>w. Inr (Go_On, w)))"
      by (rule keeps_issue [OF i]) (use s in \<open>auto intro!: keepsI hdr_ok_in_token\<close>)
    then show ?thesis using n p ns(1) False x
      by (simp add: start_fragment_def excessive_def put_frag_def frag_at_def linked_def)
  qed
qed

subsection \<open>URIs\<close>

lemma back_to_slash_shift:
  assumes "back_to_slash len p d = (len', p')" "1 < len" "len \<le> p"
  shows "1 \<le> len'" "len' < len" "p' + len = p + len'"
proof -
  have "1 \<le> len' \<and> len' < len \<and> p' + len = p + len'" using assms
  proof (induction len p d rule: back_to_slash.induct)
    case (1 len p d)
    show ?case
    proof (cases "len - 1 > 1 \<and> d ! (p - 1) \<noteq> CHR ''/''")
      case True
      then have "back_to_slash (len - 1) (p - 1) d = (len', p')"
        using "1.prems"(1) by (simp add: back_to_slash.simps [of len p] Let_def)
      then have "1 \<le> len' \<and> len' < len - 1 \<and> p' + (len - 1) = p - 1 + len'"
        using "1.IH" [OF refl refl True] True "1.prems" by auto
      then show ?thesis using "1.prems" by auto
    next
      case False
      then show ?thesis using "1.prems" by (auto simp: back_to_slash.simps [of len p] Let_def split: if_splits)
    qed
  qed
  then show "1 \<le> len'" "len' < len" "p' + len = p + len'" by simp_all
qed

definition shortened :: "nat \<Rightarrow> nat \<Rightarrow> allocated_headers \<Rightarrow> allocated_headers" where
  "shortened len p a = a\<lparr>pos := p, frags := (frags a)[nfrag a := (frags a ! nfrag a)\<lparr>frag_len := len\<rparr>]\<rparr>"

lemma shortened_simps [simp]:
  "pos (shortened l p a) = p" "nfrag (shortened l p a) = nfrag a" "frag_index (shortened l p a) = frag_index a"
  "length (frags (shortened l p a)) = length (frags a)" "data (shortened l p a) = data a"
  by (simp_all add: shortened_def)

lemma frag_shortened:
  "nfrag a < length (frags a) \<Longrightarrow> frags (shortened l p a) ! n
    = (if n = nfrag a then (frags a ! n)\<lparr>frag_len := l\<rparr> else frags a ! n)"
  by (auto simp: shortened_def nth_list_update)

lemma ah_ok_shortened:
  assumes a: "ah_ok m a" and "offset (frags a ! nfrag a) + l \<le> p" "p \<le> pos a"
  shows "ah_ok m (shortened l p a)"
  using assms by (auto simp: ah_ok_def links_ok_def frag_shortened)

lemma up_one_level_in_token:
  assumes w: "in_token t w"
  obtains l p where "up_one_level w = Inr (w\<lparr>ah := shortened l p (ah w)\<rparr>)" "in_token t (w\<lparr>ah := shortened l p (ah w)\<rparr>)"
proof -
  let ?a = "ah w" and ?f = "frags (ah w) ! nfrag (ah w)"
  have a: "ah_ok (max_http_header_data w) ?a" using w by (simp add: in_token_def)
  have f: "offset ?f + frag_len ?f \<le> pos ?a" using ah_ok_last [OF a in_token_nfrag [OF w]] .
  have n: "nfrag ?a < length (frags ?a)" using a by (simp add: ah_ok_def)
  show thesis
  proof (cases "frag_len ?f > 2")
    case True
    obtain l p where b: "back_to_slash (frag_len ?f - 1) (pos ?a - 1) (data ?a) = (l, p)" by fastforce
    have s: "l < frag_len ?f - 1" "p + (frag_len ?f - 1) = pos ?a - 1 + l"
      using back_to_slash_shift [OF b] True f by auto
    have "ah_ok (max_http_header_data w) (shortened l p ?a)" by (rule ah_ok_shortened [OF a]) (use s f True in auto)
    then show thesis using that [of l p] w b True n
      by (simp add: up_one_level_def frag_at_def put_frag_def shortened_def in_token_def Let_def)
  next
    case False
    have "shortened (frag_len ?f) (pos ?a) ?a = ?a" by (simp add: shortened_def)
    then show thesis using that [of "frag_len ?f" "pos ?a"] w n False by (simp add: up_one_level_def frag_at_def Let_def)
  qed
qed

definition uri_keeps :: "nat \<Rightarrow> parser_states \<Rightarrow> (uri_next \<times> lws_header_related) result \<Rightarrow> bool" where
  "uri_keeps t s r \<longleftrightarrow> (\<exists>x w. r = Inr (x, w) \<and>
     (case x of Answer r \<Rightarrow> r \<noteq> Go_On
      | Excessive \<Rightarrow> nfrag (ah w) = length (frags (ah w))
      | _ \<Rightarrow> in_token t w \<and> parser_state w = s))"

lemma uri_keepsI:
  "r \<noteq> Go_On \<Longrightarrow> uri_keeps t s (Inr (Answer r, w))"
  "in_token t w \<Longrightarrow> parser_state w = s \<Longrightarrow> uri_keeps t s (Inr (On c, w))"
  "in_token t w \<Longrightarrow> parser_state w = s \<Longrightarrow> uri_keeps t s (Inr (Swallow, w))"
  "nfrag (ah w) = length (frags (ah w)) \<Longrightarrow> uri_keeps t s (Inr (Excessive, w))"
  by (simp_all add: uri_keeps_def)

lemma in_token_other [simp]:
  "in_token t (w\<lparr>ups := u\<rparr>) = in_token t w" "in_token t (w\<lparr>ues := e\<rparr>) = in_token t w"
  "in_token t (w\<lparr>esc_stash := c\<rparr>) = in_token t w" "in_token t (w\<lparr>post_literal_equal := b\<rparr>) = in_token t w"
  "in_token t (w\<lparr>parser_state := s\<rparr>) = in_token t w"
  by (simp_all add: in_token_def)

lemma next_argument_keeps:
  assumes w: "in_token t w" and c: "c \<noteq> NUL" and s: "parser_state w = s"
  shows "uri_keeps t s (next_argument c w)"
proof (cases "pos (ah w) < max_http_header_data w")
  case False
  then show ?thesis by (simp add: next_argument_def issue_char_in_token [OF w] uri_keepsI)
next
  case True
  let ?a = "appended c (ah w)"
  let ?f = "frags (ah w) ! nfrag (ah w)"
  let ?b = "shortened (frag_len ?f) (pos ?a) ?a"
  have a: "ah_ok (max_http_header_data w) (ah w)" and i: "1 \<le> nfrag (ah w)" and n: "nfrag (ah w) < length (frags (ah w))"
    using w in_token_nfrag [OF w] by (auto simp: in_token_def ah_ok_def)
  have f: "offset ?f + frag_len ?f \<le> pos (ah w)" "frag_len ?f < 2 ^ 16 - 1"
    using ah_ok_last [OF a i] a by (auto simp: ah_ok_def)
  have b: "ah_ok (max_http_header_data w) ?b"
    by (rule ah_ok_shortened) (use ah_ok_appended [OF a True i] f n in \<open>auto simp: frag_appended\<close>)
  have m: "Suc (frag_len ?f + 65535) mod 65536 = frag_len ?f" using f(2) by simp
  have l: "add_len (2 ^ 16 - 1) ?a = Inr ?b"
    using n c m by (simp add: add_len_def frag_at_def put_frag_def frag_appended shortened_def add.commute)
  show ?thesis
  proof (cases "nfrag (ah w) + 1 < length (frags (ah w))")
    case False
    then show ?thesis using n True l by (simp add: next_argument_def issue_char_in_token [OF w] frag_at_def put_frag_def uri_keepsI)
  next
    case x: True
    let ?d = "linked (nfrag (ah w)) (nfrag (ah w) + 1) (new_frag ?b)"
    have fb: "frags (new_frag ?b) ! nfrag (ah w) = frags ?b ! nfrag (ah w)" using x by (subst frag_new_frag) simp_all
    have "ah_ok (max_http_header_data w) (new_frag ?b)" by (rule ah_ok_new_frag [OF b]) (use x a in \<open>simp add: ah_ok_def\<close>)
    from ah_ok_linked [OF this i] have "ah_ok (max_http_header_data w) ?d" by simp
    then have "in_token t (w\<lparr>ah := ?d, post_literal_equal := False\<rparr>)" using w by (simp add: in_token_def)
    moreover have "next_argument c w = Inr (Swallow, w\<lparr>ah := ?d, post_literal_equal := False\<rparr>)"
      using True n x l fb
      by (simp add: next_argument_def issue_char_in_token [OF w] frag_at_def put_frag_def linked_def new_frag_def list_update_swap)
    ultimately show ?thesis using s by (simp add: uri_keepsI)
  qed
qed

lemma uri_keeps_issue:
  assumes w: "in_token t w" and k: "\<And>w'. in_token t w' \<Longrightarrow> parser_state w' = parser_state w \<Longrightarrow> uri_keeps t s (k w')"
  shows "uri_keeps t s (rbind (issue_char c w) (\<lambda>(r, w). if r = None then Inr (Answer Drop, w) else k w))"
  using k [OF in_token_appended [OF w]] by (simp add: issue_char_in_token [OF w] uri_keepsI)

lemma index_at_ok: "in_token t w \<Longrightarrow> h < WSI_TOKEN_COUNT \<Longrightarrow> index_at h (ah w) = Inr (frag_index (ah w) ! h)"
  by (simp add: in_token_def ah_ok_def index_at_def)

lemma frag_at_last: "in_token t w \<Longrightarrow> frag_at (nfrag (ah w)) (ah w) = Inr (frags (ah w) ! nfrag (ah w))"
  by (simp add: in_token_def ah_ok_def frag_at_def)

lemma uri_path_keeps:
  assumes w: "in_token t w" and s: "parser_state w = s"
  shows "uri_keeps t s (uri_path c enc w)"
proof -
  have i: "index_at WSI_TOKEN_HTTP_URI_ARGS (ah w) = Inr (frag_index (ah w) ! WSI_TOKEN_HTTP_URI_ARGS)"
    using index_at_ok [OF w] by (simp add: WSI_TOKEN_COUNT_def WSI_TOKEN_HTTP_URI_ARGS_def)
  show ?thesis
  proof (cases "ups w")
    case URIPS_IDLE
    have "uri_keeps t s (next_argument c w)" if "c = CHR ''&'' \<or> c = CHR '';''"
      using next_argument_keeps [OF w _ s] that by auto
    then show ?thesis using w s i URIPS_IDLE by (simp add: uri_path_def Let_def uri_keepsI)
  next
    case URIPS_SEEN_SLASH
    then show ?thesis using w s i by (simp add: uri_path_def uri_keepsI)
  next
    case URIPS_SEEN_SLASH_DOT
    let ?w = "w\<lparr>ups := URIPS_IDLE\<rparr>"
    have j: "in_token t ?w" using w by simp
    show ?thesis using in_token_appended [OF j, of "CHR ''.''"] w s i URIPS_SEEN_SLASH_DOT
      by (simp add: uri_path_def issue_char_in_token [OF j] uri_keepsI)
  next
    case URIPS_SEEN_SLASH_DOT_DOT
    obtain l p where u: "up_one_level w = Inr (w\<lparr>ah := shortened l p (ah w)\<rparr>)" "in_token t (w\<lparr>ah := shortened l p (ah w)\<rparr>)"
      using up_one_level_in_token [OF w] .
    have "uri_keeps t s (rbind (issue_char (CHR ''.'') w) (\<lambda>(r, w). if r = None then Inr (Answer Drop, w)
            else rbind (issue_char (CHR ''.'') w) (\<lambda>(r, w).
              if r = None then Inr (Answer Drop, w) else Inr (On c, w\<lparr>ups := URIPS_IDLE\<rparr>))))"
      by (rule uri_keeps_issue [OF w], rule uri_keeps_issue) (use s in \<open>simp_all add: uri_keepsI\<close>)
    then show ?thesis using s i u frag_at_last [OF u(2)] URIPS_SEEN_SLASH_DOT_DOT by (simp add: uri_path_def Let_def uri_keepsI)
  qed
qed

lemma uri_args_keeps:
  assumes w: "in_token t w" and s: "parser_state w = s"
  shows "uri_keeps t s (uri_args w)"
proof (cases "ues w = URIES_IDLE \<and> pos (ah w) < max_http_header_data w")
  case False
  then show ?thesis by (auto simp: uri_args_def issue_char_in_token [OF w] uri_keepsI)
next
  case True
  let ?a = "appended NUL (ah w)"
  have a: "ah_ok (max_http_header_data w) ?a" using in_token_appended [OF w] True by (simp add: in_token_def)
  show ?thesis
  proof (cases "nfrag (ah w) + 1 < length (frags (ah w))")
    case False
    then have "nfrag (ah w) + 1 = length (frags (ah w))" using a by (simp add: ah_ok_def)
    then show ?thesis using True by (simp add: uri_args_def issue_char_in_token [OF w] uri_keepsI)
  next
    case n: True
    let ?b = "indexed WSI_TOKEN_HTTP_URI_ARGS (new_frag ?a)"
    have i: "WSI_TOKEN_HTTP_URI_ARGS < WSI_TOKEN_COUNT" "length (frag_index (ah w)) = WSI_TOKEN_COUNT"
      using a by (simp_all add: ah_ok_def WSI_TOKEN_COUNT_def WSI_TOKEN_HTTP_URI_ARGS_def)
    have "ah_ok (max_http_header_data w) (new_frag ?a)" by (rule ah_ok_new_frag [OF a]) (use n a in \<open>simp add: ah_ok_def\<close>)
    then have "ah_ok (max_http_header_data w) ?b" using i by (simp add: ah_ok_indexed)
    then have "in_token t (w\<lparr>ah := ?b\<rparr>)" using w i by (simp add: in_token_def index_indexed)
    moreover have "uri_args w = Inr (Swallow, w\<lparr>ah := ?b, post_literal_equal := False, ups := URIPS_IDLE\<rparr>)"
      using True n i by (simp add: uri_args_def issue_char_in_token [OF w] put_frag_def put_index_def indexed_def new_frag_def)
    ultimately show ?thesis using s by (simp add: uri_keepsI)
  qed
qed

lemma uri_char_keeps:
  assumes w: "in_token t w" and s: "parser_state w = s"
  shows "uri_keeps t s (uri_char c w)"
proof -
  obtain x enc v where e: "uri_escape c w = (x, enc, v)" by (metis prod_cases3)
  have v: "in_token t v" "parser_state v = s" and x: "x \<noteq> Excessive" "x \<noteq> Answer Go_On"
    using e w s by (auto simp: uri_escape_def split: uri_esc_states.splits if_splits)
  show ?thesis
  proof (cases x)
    case (On d)
    obtain y u where y: "uri_path d enc v = Inr (y, u)"
      "case y of Answer r \<Rightarrow> r \<noteq> Go_On | Excessive \<Rightarrow> nfrag (ah u) = length (frags (ah u)) | _ \<Rightarrow> in_token t u \<and> parser_state u = s"
      using uri_path_keeps [OF v] unfolding uri_keeps_def by blast
    show ?thesis
    proof (cases y)
      case (On d')
      then have u: "in_token t u" "parser_state u = s" using y(2) by simp_all
      have "index_at WSI_TOKEN_HTTP_URI_ARGS (ah u) = Inr (frag_index (ah u) ! WSI_TOKEN_HTTP_URI_ARGS)"
        using index_at_ok [OF u(1)] by (simp add: WSI_TOKEN_COUNT_def WSI_TOKEN_HTTP_URI_ARGS_def)
      then show ?thesis using e y(1) \<open>x = On d\<close> On u uri_args_keeps [OF u] by (simp add: uri_char_def uri_keepsI)
    qed (use e y \<open>x = On d\<close> in \<open>simp_all add: uri_char_def uri_keeps_def\<close>)
  qed (use e x v in \<open>auto simp: uri_char_def uri_keeps_def\<close>)
qed

lemma uri_end_keeps:
  assumes w: "in_token t w" and s: "parser_state w = In_token t"
  shows "keeps (uri_end w)"
proof -
  let ?last = "\<lambda>w. issue NUL w (\<lambda>w. start_fragment WSI_TOKEN_HTTP (w\<lparr>parser_state := In_token WSI_TOKEN_HTTP\<rparr>))"
  let ?up = "\<lambda>w. rbind (if ups w = URIPS_SEEN_SLASH_DOT_DOT then up_one_level w else Inr w) ?last"
  have last: "keeps (?last w)" if "in_token t w" for w
  proof (rule keeps_issue [OF that])
    fix w' assume "in_token t w'"
    then show "keeps (start_fragment WSI_TOKEN_HTTP (w'\<lparr>parser_state := In_token WSI_TOKEN_HTTP\<rparr>))"
      by (intro start_fragment_keeps) (simp_all add: in_token_def WSI_TOKEN_HTTP_def WSI_TOKEN_CHALLENGE_def)
  qed
  have up: "keeps (?up w)" if i: "in_token t w" for w
  proof -
    obtain l p where u: "up_one_level w = Inr (w\<lparr>ah := shortened l p (ah w)\<rparr>)" "in_token t (w\<lparr>ah := shortened l p (ah w)\<rparr>)"
      using up_one_level_in_token [OF i] .
    show ?thesis using last [OF i] last [OF u(2)] u(1) by simp
  qed
  have "keeps (issue (CHR ''/'') w ?up)" by (rule keeps_issue [OF w]) (rule up)
  then show ?thesis using up [OF w] frag_at_last [OF w] by (simp add: uri_end_def)
qed

lemma token_char_keeps:
  assumes w: "in_token t w" and s: "parser_state w = In_token t"
  shows "keeps (token_char t c w)"
proof -
  have t: "t < WSI_TOKEN_COUNT" and c: "t \<noteq> WSI_TOKEN_CHALLENGE" using w by (simp_all add: in_token_def WSI_TOKEN_COUNT_def)
  have i: "index_at t (ah w) = Inr (frag_index (ah w) ! t)" using index_at_ok [OF w t] .
  have f: "frag_at (frag_index (ah w) ! t) (ah w) = Inr (frags (ah w) ! (frag_index (ah w) ! t))"
    using ah_ok_chain [of "max_http_header_data w" "ah w" t] w t by (simp add: in_token_def frag_at_def)
  obtain x u where x: "uri_char c w = Inr (x, u)"
      "case x of Answer r \<Rightarrow> r \<noteq> Go_On | Excessive \<Rightarrow> nfrag (ah u) = length (frags (ah u)) | _ \<Rightarrow> in_token t u \<and> parser_state u = In_token t"
      using uri_char_keeps [OF w s] unfolding uri_keeps_def by blast
  have "keeps (case x of Answer r \<Rightarrow> Inr (r, u)
           | Swallow \<Rightarrow> if t = WSI_TOKEN_CHALLENGE then set_parsing_complete u else Inr (Go_On, u)
           | Excessive \<Rightarrow> excessive t u
           | On c \<Rightarrow> check_eol t c u)"
    using x(2) c by (cases x) (auto simp: excessive_def intro: keepsI check_eol_keeps hdr_ok_in_token)
  then show ?thesis
    using i f x(1) check_eol_keeps [OF w s] uri_end_keeps [OF w s] hdr_ok_in_token [OF w s] by (simp add: token_char_def keepsI)
qed

lemma name_char_keeps:
  assumes w: "hdr_ok w" and s: "parser_state w = WSI_TOKEN_NAME_PART"
  shows "keeps (name_char c w)"
proof -
  have a: "ah_ok (max_http_header_data w) (ah w)" "closed (ah w)" "good_pos (lextable_pos w)" "FAIL_CHAR \<le> lextable ! lextable_pos w"
    using w s by (simp_all add: hdr_ok_def)
  obtain p where p: "lextable_decode (lextable_pos w) c = Inr p" "\<And>q. p = Some q \<Longrightarrow> good_pos q"
    using good_pos_step [OF a(3,4)] by blast
  show ?thesis
  proof (cases p)
    case None
    then show ?thesis using p(1) a by (simp add: name_char_def keeps_def hdr_ok_def)
  next
    case (Some q)
    show ?thesis
    proof (cases "lextable ! q < FAIL_CHAR")
      case False
      then show ?thesis using p Some a s by (simp add: name_char_def Let_def keeps_def hdr_ok_def)
    next
      case True
      define n where "n = push_bit 8 (lextable ! q) OR lextable ! (q + 1)"
      define h where "h = (if n = WSI_TOKEN_SWORIGIN then WSI_TOKEN_ORIGIN else n)"
      let ?w = "w\<lparr>lextable_pos := q, parser_state := In_token h, current_token_limit := max_http_header_data w\<rparr>"
      have h: "h < 82" using good_pos_token [OF p(2) True] Some by (simp add: n_def h_def WSI_TOKEN_ORIGIN_def)
      have "keeps (set_parsing_complete ?w)" by (rule set_parsing_complete_keeps) (use a in simp_all)
      moreover have "keeps (start_fragment h ?w)" if "h \<noteq> WSI_TOKEN_CHALLENGE"
        by (rule start_fragment_keeps) (use a h that in simp_all)
      moreover have "name_char c w = (if n \<in> set methods \<and> frag_index (ah w) ! n \<noteq> 0 then Inr (Drop, w\<lparr>lextable_pos := q\<rparr>)
          else if h = WSI_TOKEN_CHALLENGE then set_parsing_complete ?w else start_fragment h ?w)"
        unfolding h_def n_def using p(1) Some True by (simp add: name_char_def Let_def)
      ultimately show ?thesis by (auto intro: keepsI)
    qed
  qed
qed

lemma lextable_start: "FAIL_CHAR \<le> lextable ! 0"
  by (simp add: lextable_def lex_page0_def FAIL_CHAR_def)

lemma lws_parse_keeps:
  assumes w: "hdr_ok w"
  shows "keeps (lws_parse c w)"
proof (cases "parser_state w")
  case (In_token t)
  then have "in_token t w" using w by (simp add: hdr_ok_def in_token_def)
  then show ?thesis using token_char_keeps In_token by (simp add: lws_parse_def)
next
  case WSI_TOKEN_NAME_PART
  then show ?thesis using name_char_keeps [OF w] by (simp add: lws_parse_def)
qed (use w good_pos_0 lextable_start in \<open>auto simp: lws_parse_def keeps_def hdr_ok_def\<close>)

lemma parse_headers_keeps:
  assumes "hdr_ok w"
  shows "\<exists>r rest w'. parse_headers s w = Inr (r, rest, w') \<and> (r = Go_On \<longrightarrow> hdr_ok w')"
  using assms
proof (induction s arbitrary: w)
  case (Cons c s)
  obtain x v where "lws_parse c w = Inr (x, v)" "x = Go_On \<longrightarrow> hdr_ok v"
    using lws_parse_keeps [OF Cons.prems, of c] unfolding keeps_def by blast
  then show ?case using Cons by auto
qed simp

lemma hdr_ok_reset:
  assumes "length (data a) = max_http_header_data w" "max_http_header_data w < 2 ^ 15"
    and "length (frags a) = 2 * WSI_TOKEN_COUNT" and "parser_state w = WSI_TOKEN_NAME_PART" "lextable_pos w = 0"
  shows "hdr_ok (w\<lparr>ah := lws_header_table_reset a\<rparr>)"
  using assms good_pos_0 lextable_start
  by (simp add: hdr_ok_def ah_ok_def links_ok_def closed_def lws_header_table_reset_def WSI_TOKEN_COUNT_def)


definition new_connection :: "nat \<Rightarrow> bool \<Rightarrow> lws_header_related" where
  "new_connection m server =
     \<lparr>ah = \<lparr>data = replicate m NUL, frags = replicate (2 * WSI_TOKEN_COUNT) \<lparr>offset = 0, frag_len = 0, next_frag = 0\<rparr>,
             frag_index = replicate WSI_TOKEN_COUNT 0, pos = 0, nfrag = 0\<rparr>,
      ups = URIPS_IDLE, ues = URIES_IDLE, lextable_pos = 0, current_token_limit = 0, esc_stash = NUL,
      post_literal_equal = False, parser_state = WSI_TOKEN_NAME_PART, serving = server, fallback_to_raw = False,
      max_http_header_data = m, ietf_spec_revision = 0, hdr_parsing_completed = False\<rparr>"


end
