(* ===== verification/Web_Socket.thy ===== *)
theory Web_Socket
  imports Lws_Uri
begin

text \<open>
  The web socket layer (\<open>src/dev/trunk/UCClient/websocket.cpp\<close>): the class \<open>WebSocketClient\<close>
  with its send queue, the table \<open>WSClientSet\<close> from connections to clients, and
  \<open>callback_lws\<close>, through which libwebsockets reports everything that happens on a
  connection.

  A connection (\<open>struct lws *\<close>) and a client object are natural numbers, 0 being the null
  pointer; \<open>heap\<close> holds the live objects, and \<open>new\<close> takes the next number, so that an
  object never comes back once deleted. The state is an extensible record: the components
  above add theirs to it. The virtual methods are a table of functions on that state, which
  the deriving class supplies; the base class's own methods only write to the log. What
  libwebsockets does is seen in the list of calls made to it, and what it answers is a
  function of those calls. Threads are not modelled: each operation runs to its end.
\<close>

section \<open>State\<close>

datatype Status = CONNECTING | OPEN | CLOSING | CLOSED

record connect_info =
  ci_address :: string
  ci_port :: int
  ci_path :: string
  ci_ssl_connection :: int
  ci_host :: string
  ci_origin :: string

text \<open>\<open>derived\<close> tells whether \<open>typeid\<close> of the object differs from \<open>WebSocketClient\<close>.\<close>

record WebSocketClient =
  derived :: bool
  m_state :: Status
  ws_wsi :: nat
  m_url :: string
  m_sendBuf :: "byte list list"
  con_info :: connect_info

text \<open>\<open>lws_write\<close> is recorded with the number it returned.\<close>

datatype lws_call =
    lws_callback_on_writable nat
  | lws_cancel_service
  | lws_write nat "byte list" int
  | lws_client_connect_via_info connect_info nat

record ws_world =
  WSClientSet :: "(nat \<times> nat) list"
  heap :: "nat \<Rightarrow> WebSocketClient option"
  next_obj :: nat
  lws_calls :: "lws_call list"

text \<open>The answers of libwebsockets, which may depend on everything asked of it before.\<close>

record lws_lib =
  write_answer :: "lws_call list \<Rightarrow> nat \<Rightarrow> byte list \<Rightarrow> int"
  connect_answer :: "lws_call list \<Rightarrow> connect_info \<Rightarrow> nat"

definition LWS_PRE :: nat where
  "LWS_PRE = 16"

definition lws_do :: "lws_call \<Rightarrow> 'z ws_world_scheme \<Rightarrow> 'z ws_world_scheme" where
  "lws_do c w = w\<lparr>lws_calls := lws_calls w @ [c]\<rparr>"

definition client_at :: "nat \<Rightarrow> 'z ws_world_scheme \<Rightarrow> WebSocketClient result" where
  "client_at ob w = (case heap w ob of None \<Rightarrow> Inl Dangling_Pointer | Some c \<Rightarrow> Inr c)"

definition put_client :: "nat \<Rightarrow> WebSocketClient \<Rightarrow> 'z ws_world_scheme \<Rightarrow> 'z ws_world_scheme" where
  "put_client ob c w = w\<lparr>heap := (heap w)(ob \<mapsto> c)\<rparr>"

definition registered :: "'z ws_world_scheme \<Rightarrow> nat \<Rightarrow> bool" where
  "registered w k \<longleftrightarrow> map_of (WSClientSet w) k \<noteq> None"

text \<open>\<open>std::map::insert\<close> leaves an entry that is already there.\<close>

definition register :: "nat \<Rightarrow> nat \<Rightarrow> 'z ws_world_scheme \<Rightarrow> 'z ws_world_scheme" where
  "register k ob w =
     (if registered w k then w else w\<lparr>WSClientSet := map_put k ob (WSClientSet w)\<rparr>)"

definition unregister :: "nat \<Rightarrow> 'z ws_world_scheme \<Rightarrow> 'z ws_world_scheme" where
  "unregister k w = w\<lparr>WSClientSet := map_erase k (WSClientSet w)\<rparr>"

section \<open>WebSocketClient\<close>

definition no_info :: connect_info where
  "no_info = \<lparr>ci_address = [], ci_port = 0, ci_path = [], ci_ssl_connection = 0,
              ci_host = [], ci_origin = []\<rparr>"

definition new_client :: "bool \<Rightarrow> nat \<Rightarrow> string \<Rightarrow> WebSocketClient" where
  "new_client d k url =
     \<lparr>derived = d, m_state = CONNECTING, ws_wsi = k, m_url = url, m_sendBuf = [],
      con_info = no_info\<rparr>"

text \<open>The constructor from a URL, and the one from an accepted connection.\<close>

definition WebSocketClient_url ::
    "bool \<Rightarrow> string \<Rightarrow> 'z ws_world_scheme \<Rightarrow> nat \<times> 'z ws_world_scheme" where
  "WebSocketClient_url d url w =
     (next_obj w,
      w\<lparr>heap := (heap w)(next_obj w \<mapsto> new_client d 0 url), next_obj := next_obj w + 1\<rparr>)"

definition WebSocketClient_wsi ::
    "bool \<Rightarrow> nat \<Rightarrow> 'z ws_world_scheme \<Rightarrow> nat \<times> 'z ws_world_scheme" where
  "WebSocketClient_wsi d k w =
     (next_obj w,
      register k (next_obj w)
        (w\<lparr>heap := (heap w)(next_obj w \<mapsto> new_client d k []), next_obj := next_obj w + 1\<rparr>))"

definition Close :: "nat \<Rightarrow> 'z ws_world_scheme \<Rightarrow> 'z ws_world_scheme result" where
  "Close ob w =
     rbind (client_at ob w) (\<lambda>c.
       if registered w (ws_wsi c) \<and> ws_wsi c \<noteq> 0 \<and> m_state c = OPEN
       then Inr (lws_do lws_cancel_service
                  (lws_do (lws_callback_on_writable (ws_wsi c))
                    (put_client ob (c\<lparr>m_state := CLOSING\<rparr>) w)))
       else Inr w)"

definition destroy_WebSocketClient :: "nat \<Rightarrow> 'z ws_world_scheme \<Rightarrow> 'z ws_world_scheme result" where
  "destroy_WebSocketClient ob w =
     rbind (client_at ob w) (\<lambda>c.
     rbind (if registered w (ws_wsi c) then Close ob w else Inr w) (\<lambda>w.
       Inr ((unregister (ws_wsi c) w)\<lparr>heap := (heap w)(ob := None)\<rparr>)))"

definition Send :: "nat \<Rightarrow> byte list \<Rightarrow> 'z ws_world_scheme \<Rightarrow> 'z ws_world_scheme result" where
  "Send ob lpBuf w =
     rbind (client_at ob w) (\<lambda>c.
       let w = put_client ob (c\<lparr>m_sendBuf := m_sendBuf c @ [replicate LWS_PRE NUL @ lpBuf]\<rparr>) w
       in Inr (if registered w (ws_wsi c) \<and> ws_wsi c \<noteq> 0 \<and> m_state c = OPEN
               then lws_do lws_cancel_service (lws_do (lws_callback_on_writable (ws_wsi c)) w)
               else w))"

text \<open>
  \<open>strncpy_s\<close> into \<open>char m_urlbuff[1024]\<close> ends the program when the URL does not fit with its
  NUL. The path gets a slash in front unless it has one.
\<close>

definition connect_info_of :: "connect_info \<Rightarrow> uri \<Rightarrow> connect_info" where
  "connect_info_of ci u =
     ci\<lparr>ci_address := ads u, ci_port := port u,
        ci_path := (if path u \<noteq> [] \<and> hd (path u) \<noteq> CHR ''/'' then ''/'' @ path u else path u),
        ci_ssl_connection :=
          (if prot u = ''https'' \<or> prot u = ''wss'' then 1
           else if prot u = ''http'' \<or> prot u = ''ws'' then 0 else ci_ssl_connection ci),
        ci_host := ads u, ci_origin := ads u\<rparr>"

definition Open :: "lws_lib \<Rightarrow> nat \<Rightarrow> 'z ws_world_scheme \<Rightarrow> 'z ws_world_scheme result" where
  "Open L ob w =
     rbind (client_at ob w) (\<lambda>c.
       if ws_wsi c \<noteq> 0 then Inr w
       else if 1024 \<le> length (c_str (m_url c)) then Inl (Runtime_Error ''strncpy_s'')
       else
         let ci = connect_info_of (con_info c) (lws_parse_uri (c_str (m_url c)) (ci_port (con_info c)));
             k = connect_answer L (lws_calls w) ci;
             w = lws_do (lws_client_connect_via_info ci k) w
         in Inr (put_client ob (c\<lparr>con_info := ci, ws_wsi := k, m_state := CONNECTING\<rparr>)
                   (register k ob w)))"

definition SetWSUrl :: "nat \<Rightarrow> string \<Rightarrow> 'z ws_world_scheme \<Rightarrow> 'z ws_world_scheme result" where
  "SetWSUrl ob url w = rbind (client_at ob w) (\<lambda>c. Inr (put_client ob (c\<lparr>m_url := url\<rparr>) w))"

definition GetWSUrl :: "nat \<Rightarrow> 'z ws_world_scheme \<Rightarrow> string result" where
  "GetWSUrl ob w = rbind (client_at ob w) (\<lambda>c. Inr (m_url c))"

definition GetStatus :: "nat \<Rightarrow> 'z ws_world_scheme \<Rightarrow> int result" where
  "GetStatus ob w =
     rbind (client_at ob w) (\<lambda>c.
       Inr (case m_state c of CONNECTING \<Rightarrow> 0 | OPEN \<Rightarrow> 1 | CLOSING \<Rightarrow> 2 | CLOSED \<Rightarrow> 3))"

section \<open>callback_lws\<close>

text \<open>The virtual methods a deriving class overrides, and \<open>WebSocketServer::OnAccept\<close>.\<close>

record 'w vtable =
  OnOpen_of :: "nat \<Rightarrow> 'w \<Rightarrow> 'w result"
  OnSend_of :: "nat \<Rightarrow> 'w \<Rightarrow> 'w result"
  OnClose_of :: "nat \<Rightarrow> string \<Rightarrow> 'w \<Rightarrow> 'w result"
  OnError_of :: "nat \<Rightarrow> string \<Rightarrow> 'w \<Rightarrow> 'w result"
  OnMessage_of :: "nat \<Rightarrow> string \<Rightarrow> 'w \<Rightarrow> 'w result"
  OnAccept_of :: "nat \<Rightarrow> 'w \<Rightarrow> 'w result"

text \<open>A virtual call on an object: the methods of \<open>WebSocketClient\<close> itself have no effect.\<close>

definition virtual ::
    "nat \<Rightarrow> ('z ws_world_scheme \<Rightarrow> 'z ws_world_scheme result) \<Rightarrow> 'z ws_world_scheme
     \<Rightarrow> 'z ws_world_scheme result" where
  "virtual ob f w = rbind (client_at ob w) (\<lambda>c. if derived c then f w else Inr w)"

definition set_state :: "nat \<Rightarrow> Status \<Rightarrow> 'z ws_world_scheme \<Rightarrow> 'z ws_world_scheme result" where
  "set_state ob st w = rbind (client_at ob w) (\<lambda>c. Inr (put_client ob (c\<lparr>m_state := st\<rparr>) w))"

text \<open>\<open>std::string errorCode; if (in) errorCode.assign((char *)in, len);\<close>\<close>

definition text_of :: "string option \<Rightarrow> string" where
  "text_of inp = (case inp of None \<Rightarrow> [] | Some s \<Rightarrow> s)"

definition on_established ::
    "'z ws_world_scheme vtable \<Rightarrow> nat \<Rightarrow> nat option \<Rightarrow> 'z ws_world_scheme
     \<Rightarrow> (int \<times> 'z ws_world_scheme) result" where
  "on_established V k wsclient w =
     (case wsclient of
        None \<Rightarrow> Inr (0, w)
      | Some ob \<Rightarrow>
          rbind (set_state ob OPEN w) (\<lambda>w.
          rbind (virtual ob (OnOpen_of V ob) w) (\<lambda>w.
            Inr (0, lws_do (lws_callback_on_writable k) w))))"

definition on_connection_error ::
    "'z ws_world_scheme vtable \<Rightarrow> nat \<Rightarrow> nat option \<Rightarrow> string option \<Rightarrow> 'z ws_world_scheme
     \<Rightarrow> (int \<times> 'z ws_world_scheme) result" where
  "on_connection_error V k wsclient inp w =
     (let w = unregister k w in
      case wsclient of
        None \<Rightarrow> Inr (0, w)
      | Some ob \<Rightarrow>
          rbind (set_state ob CLOSED w) (\<lambda>w.
          rbind (virtual ob (OnError_of V ob (text_of inp)) w) (\<lambda>w.
          rbind (virtual ob (OnClose_of V ob (text_of inp)) w) (\<lambda>w. Inr (0, w)))))"

definition on_closed ::
    "'z ws_world_scheme vtable \<Rightarrow> nat \<Rightarrow> nat option \<Rightarrow> string option \<Rightarrow> 'z ws_world_scheme
     \<Rightarrow> (int \<times> 'z ws_world_scheme) result" where
  "on_closed V k wsclient inp w =
     (let w = unregister k w in
      case wsclient of
        None \<Rightarrow> Inr (0, w)
      | Some ob \<Rightarrow>
          rbind (client_at ob w) (\<lambda>c.
            if m_state c = CLOSED then Inr (0, w)
            else
              rbind (set_state ob CLOSED w) (\<lambda>w.
              rbind (virtual ob (OnClose_of V ob (text_of inp)) w) (\<lambda>w. Inr (0, w)))))"

definition on_receive ::
    "'z ws_world_scheme vtable \<Rightarrow> nat option \<Rightarrow> string option \<Rightarrow> 'z ws_world_scheme
     \<Rightarrow> (int \<times> 'z ws_world_scheme) result" where
  "on_receive V wsclient inp w =
     (case wsclient of
        None \<Rightarrow> Inr (0, w)
      | Some ob \<Rightarrow> rbind (virtual ob (OnMessage_of V ob (text_of inp)) w) (\<lambda>w. Inr (0, w)))"

text \<open>
  The front buffer is offered to \<open>lws_write\<close>; what it took is erased behind the first
  \<open>LWS_PRE\<close> bytes (erasing more than there is has no meaning), and an emptied buffer is
  removed. The first component of the result tells whether to go on.
\<close>

definition write_front ::
    "lws_lib \<Rightarrow> nat \<Rightarrow> nat \<Rightarrow> 'z ws_world_scheme \<Rightarrow> (bool \<times> 'z ws_world_scheme) result" where
  "write_front L k ob w =
     rbind (client_at ob w) (\<lambda>c.
       case m_sendBuf c of
         [] \<Rightarrow> Inr (True, w)
       | b # bs \<Rightarrow>
           let bufLen = int (length b) - int LWS_PRE in
           if bufLen > 0 then
             let data = drop LWS_PRE b;
                 len = write_answer L (lws_calls w) k data;
                 w = lws_do (lws_write k data len) w
             in if len > bufLen then Inl Out_Of_Range
                else if len > 0 then
                  let b = take LWS_PRE b @ drop (LWS_PRE + nat len) b
                  in Inr (True, put_client ob (c\<lparr>m_sendBuf := (if length b = LWS_PRE then bs else b # bs)\<rparr>) w)
                else Inr (False, w)
           else
             Inr (True, put_client ob (c\<lparr>m_sendBuf := (if length b = LWS_PRE then bs else b # bs)\<rparr>) w))"

definition on_writeable ::
    "lws_lib \<Rightarrow> 'z ws_world_scheme vtable \<Rightarrow> nat \<Rightarrow> nat option \<Rightarrow> 'z ws_world_scheme
     \<Rightarrow> (int \<times> 'z ws_world_scheme) result" where
  "on_writeable L V k wsclient w =
     (case wsclient of
        None \<Rightarrow> Inr (- 1, w)
      | Some ob \<Rightarrow>
          rbind (client_at ob w) (\<lambda>c.
            if m_state c = CLOSING then Inr (- 1, w)
            else
              rbind (virtual ob (OnSend_of V ob) w) (\<lambda>w.
              rbind (write_front L k ob w) (\<lambda>(go_on, w).
                if \<not> go_on then Inr (- 1, w)
                else
                  rbind (client_at ob w) (\<lambda>c.
                    Inr (0, if m_sendBuf c \<noteq> [] then lws_do (lws_callback_on_writable k) w
                            else w))))))"

text \<open>\<open>user\<close> is whether \<open>lws_wsi_user(wsi)\<close> is set, as it is for an outgoing connection.\<close>

definition on_wsi_create ::
    "'z ws_world_scheme vtable \<Rightarrow> nat \<Rightarrow> bool \<Rightarrow> 'z ws_world_scheme
     \<Rightarrow> (int \<times> 'z ws_world_scheme) result" where
  "on_wsi_create V k user w =
     (if user then Inr (0, w) else rbind (OnAccept_of V k w) (\<lambda>w. Inr (0, w)))"

definition on_wsi_destroy ::
    "nat option \<Rightarrow> 'z ws_world_scheme \<Rightarrow> (int \<times> 'z ws_world_scheme) result" where
  "on_wsi_destroy wsclient w =
     (case wsclient of
        None \<Rightarrow> Inr (0, w)
      | Some ob \<Rightarrow>
          rbind (client_at ob w) (\<lambda>c.
            if \<not> derived c then rbind (destroy_WebSocketClient ob w) (\<lambda>w. Inr (0, w))
            else Inr (0, w)))"

text \<open>
  The reasons with a branch that acts; \<open>LWS_CALLBACK_OTHER\<close> is any other one, whose branch
  only writes to the log.
\<close>

datatype reason =
    LWS_CALLBACK_ESTABLISHED
  | LWS_CALLBACK_CLIENT_CONNECTION_ERROR
  | LWS_CALLBACK_CLIENT_ESTABLISHED
  | LWS_CALLBACK_CLOSED
  | LWS_CALLBACK_CLOSED_CLIENT_HTTP
  | LWS_CALLBACK_CLOSED_HTTP
  | LWS_CALLBACK_RECEIVE
  | LWS_CALLBACK_CLIENT_RECEIVE
  | LWS_CALLBACK_CLIENT_WRITEABLE
  | LWS_CALLBACK_SERVER_WRITEABLE
  | LWS_CALLBACK_WSI_CREATE
  | LWS_CALLBACK_WSI_DESTROY
  | LWS_CALLBACK_OTHER

definition callback_lws ::
    "lws_lib \<Rightarrow> 'z ws_world_scheme vtable \<Rightarrow> nat \<Rightarrow> reason \<Rightarrow> bool \<Rightarrow> string option
     \<Rightarrow> 'z ws_world_scheme \<Rightarrow> (int \<times> 'z ws_world_scheme) result" where
  "callback_lws L V k reason user inp w =
     (let wsclient = map_of (WSClientSet w) k in
      case reason of
        LWS_CALLBACK_ESTABLISHED \<Rightarrow> on_established V k wsclient w
      | LWS_CALLBACK_CLIENT_CONNECTION_ERROR \<Rightarrow> on_connection_error V k wsclient inp w
      | LWS_CALLBACK_CLIENT_ESTABLISHED \<Rightarrow> on_established V k wsclient w
      | LWS_CALLBACK_CLOSED \<Rightarrow> on_closed V k wsclient inp w
      | LWS_CALLBACK_CLOSED_CLIENT_HTTP \<Rightarrow> on_closed V k wsclient inp w
      | LWS_CALLBACK_CLOSED_HTTP \<Rightarrow> on_closed V k wsclient inp w
      | LWS_CALLBACK_RECEIVE \<Rightarrow> on_receive V wsclient inp w
      | LWS_CALLBACK_CLIENT_RECEIVE \<Rightarrow> on_receive V wsclient inp w
      | LWS_CALLBACK_CLIENT_WRITEABLE \<Rightarrow> on_writeable L V k wsclient w
      | LWS_CALLBACK_SERVER_WRITEABLE \<Rightarrow> on_writeable L V k wsclient w
      | LWS_CALLBACK_WSI_CREATE \<Rightarrow> on_wsi_create V k user w
      | LWS_CALLBACK_WSI_DESTROY \<Rightarrow> on_wsi_destroy wsclient w
      | LWS_CALLBACK_OTHER \<Rightarrow> Inr (0, w))"

section \<open>WebSocketServer\<close>

text \<open>The base class accepts a connection with a client of its own class.\<close>

definition WebSocketServer_OnAccept :: "nat \<Rightarrow> 'z ws_world_scheme \<Rightarrow> 'z ws_world_scheme result" where
  "WebSocketServer_OnAccept k w = Inr (snd (WebSocketClient_wsi False k w))"

record WebSocketServer =
  m_port :: int
  m_Context :: nat

definition InitInstance :: "(int \<Rightarrow> nat) \<Rightarrow> WebSocketServer \<Rightarrow> bool \<times> WebSocketServer" where
  "InitInstance lws_create_context srv =
     (let ctx = lws_create_context (m_port srv) in (ctx \<noteq> 0, srv\<lparr>m_Context := ctx\<rparr>))"

text \<open>The second component of the result is the context to destroy, if any.\<close>

definition UnInitInstance :: "WebSocketServer \<Rightarrow> bool \<times> nat option \<times> WebSocketServer" where
  "UnInitInstance srv =
     (if m_Context srv \<noteq> 0 then (True, Some (m_Context srv), srv\<lparr>m_Context := 0\<rparr>)
      else (True, None, srv))"

section \<open>The invariant\<close>

text \<open>
  Every buffer starts with the \<open>LWS_PRE\<close> bytes libwebsockets may overwrite; every connection
  but the null pointer leads to a live object that knows it; objects not yet made are not
  live.
\<close>

definition client_ok :: "WebSocketClient \<Rightarrow> bool" where
  "client_ok c \<longleftrightarrow> (\<forall>b \<in> set (m_sendBuf c). take LWS_PRE b = replicate LWS_PRE NUL)"

definition ws_inv :: "'z ws_world_scheme \<Rightarrow> bool" where
  "ws_inv w \<longleftrightarrow>
     map_ok (WSClientSet w)
     \<and> (\<forall>k ob. map_of (WSClientSet w) k = Some ob \<longrightarrow> k \<noteq> 0 \<longrightarrow>
          (\<exists>c. heap w ob = Some c \<and> ws_wsi c = k))
     \<and> (\<forall>ob c. heap w ob = Some c \<longrightarrow> ob < next_obj w \<and> client_ok c)"

lemma ws_invI:
  assumes "map_ok (WSClientSet w)"
    and "\<And>k ob. map_of (WSClientSet w) k = Some ob \<Longrightarrow> k \<noteq> 0 \<Longrightarrow> \<exists>c. heap w ob = Some c \<and> ws_wsi c = k"
    and "\<And>ob c. heap w ob = Some c \<Longrightarrow> ob < next_obj w \<and> client_ok c"
  shows "ws_inv w"
  using assms unfolding ws_inv_def by blast

lemma ws_invD:
  assumes "ws_inv w"
  shows "map_ok (WSClientSet w)"
    and "map_of (WSClientSet w) k = Some ob \<Longrightarrow> k \<noteq> 0 \<Longrightarrow> \<exists>c. heap w ob = Some c \<and> ws_wsi c = k"
    and "heap w ob = Some c \<Longrightarrow> ob < next_obj w \<and> client_ok c"
  using assms unfolding ws_inv_def by blast+

lemma LWS_PRE_length: "take LWS_PRE b = replicate LWS_PRE NUL \<Longrightarrow> LWS_PRE \<le> length b"
  by (metis length_replicate length_take min.cobounded1)

lemma client_at_live [simp]: "heap w ob = Some c \<Longrightarrow> client_at ob w = Inr c"
  by (simp add: client_at_def)

lemma client_at_Inr: "client_at ob w = Inr c \<longleftrightarrow> heap w ob = Some c"
  by (simp add: client_at_def split: option.splits)

lemma ws_fields [simp]:
  "heap (lws_do x w) = heap w"
  "WSClientSet (lws_do x w) = WSClientSet w"
  "next_obj (lws_do x w) = next_obj w"
  "lws_calls (lws_do x w) = lws_calls w @ [x]"
  "heap (put_client ob c w) = (heap w)(ob \<mapsto> c)"
  "WSClientSet (put_client ob c w) = WSClientSet w"
  "next_obj (put_client ob c w) = next_obj w"
  "lws_calls (put_client ob c w) = lws_calls w"
  "heap (unregister k w) = heap w"
  "WSClientSet (unregister k w) = map_erase k (WSClientSet w)"
  "next_obj (unregister k w) = next_obj w"
  "lws_calls (unregister k w) = lws_calls w"
  "heap (register k ob w) = heap w"
  "next_obj (register k ob w) = next_obj w"
  "lws_calls (register k ob w) = lws_calls w"
  by (simp_all add: lws_do_def put_client_def unregister_def register_def)

lemma ws_inv_live:
  "ws_inv w \<Longrightarrow> map_of (WSClientSet w) k = Some ob \<Longrightarrow> k \<noteq> 0 \<Longrightarrow> \<exists>c. heap w ob = Some c \<and> ws_wsi c = k"
  by (simp add: ws_inv_def)

lemma ws_inv_client_ok: "ws_inv w \<Longrightarrow> heap w ob = Some c \<Longrightarrow> client_ok c"
  by (simp add: ws_inv_def)

lemma ws_inv_lws_do [inv_intros]: "ws_inv w \<Longrightarrow> ws_inv (lws_do x w)"
  by (simp add: ws_inv_def)

lemma ws_inv_put [inv_intros]:
  assumes "ws_inv w" and "heap w ob = Some c" and "client_ok c'" and "ws_wsi c' = ws_wsi c"
  shows "ws_inv (put_client ob c' w)"
proof (rule ws_invI)
  fix k x
  assume "map_of (WSClientSet (put_client ob c' w)) k = Some x" and "k \<noteq> 0"
  then obtain d where "heap w x = Some d" "ws_wsi d = k" using ws_invD(2) [OF assms(1)] by auto
  with assms(2,4) show "\<exists>c. heap (put_client ob c' w) x = Some c \<and> ws_wsi c = k" by auto
next
  fix x d
  assume "heap (put_client ob c' w) x = Some d"
  then show "x < next_obj (put_client ob c' w) \<and> client_ok d"
    using assms(2,3) ws_invD(3) [OF assms(1)] by (auto split: if_splits)
qed (use ws_invD(1) [OF assms(1)] in simp)

lemma ws_inv_unregister [inv_intros]: "ws_inv w \<Longrightarrow> ws_inv (unregister k w)"
  by (simp add: ws_inv_def)

lemma client_ok_state [simp]: "client_ok (c\<lparr>m_state := st\<rparr>) = client_ok c"
  by (simp add: client_ok_def)

lemma client_ok_send: "client_ok c \<Longrightarrow> client_ok (c\<lparr>m_sendBuf := m_sendBuf c @ [replicate LWS_PRE NUL @ d]\<rparr>)"
  by (auto simp: client_ok_def)

lemma client_ok_new [simp]: "client_ok (new_client d k url)"
  by (simp add: client_ok_def new_client_def)

lemma client_ok_front:
  assumes "client_ok c" and "m_sendBuf c = b # bs"
  shows "client_ok (c\<lparr>m_sendBuf := bs\<rparr>)"
    and "client_ok (c\<lparr>m_sendBuf := (take LWS_PRE b @ drop n b) # bs\<rparr>)"
    and "client_ok (c\<lparr>m_sendBuf := b # bs\<rparr>)"
  using assms LWS_PRE_length [of b] by (auto simp: client_ok_def)

lemma ws_inv_new:
  assumes "ws_inv w" and "client_ok c"
  shows "ws_inv (w\<lparr>heap := (heap w)(next_obj w \<mapsto> c), next_obj := next_obj w + 1\<rparr>)"
proof -
  have "heap w (next_obj w) = None"
    using assms(1) unfolding ws_inv_def by (metis less_irrefl not_None_eq)
  then have fresh: "x \<noteq> next_obj w" if "heap w x = Some d" for x d using that by auto
  show ?thesis
  proof (rule ws_invI)
    fix k x
    assume "map_of (WSClientSet (w\<lparr>heap := (heap w)(next_obj w \<mapsto> c), next_obj := next_obj w + 1\<rparr>)) k = Some x"
      and "k \<noteq> 0"
    then obtain d where "heap w x = Some d" "ws_wsi d = k" using ws_invD(2) [OF assms(1)] by auto
    with fresh show "\<exists>d. heap (w\<lparr>heap := (heap w)(next_obj w \<mapsto> c), next_obj := next_obj w + 1\<rparr>) x = Some d
        \<and> ws_wsi d = k" by auto
  next
    fix x d
    assume "heap (w\<lparr>heap := (heap w)(next_obj w \<mapsto> c), next_obj := next_obj w + 1\<rparr>) x = Some d"
    then show "x < next_obj (w\<lparr>heap := (heap w)(next_obj w \<mapsto> c), next_obj := next_obj w + 1\<rparr>) \<and> client_ok d"
      using assms(2) ws_invD(3) [OF assms(1), of x d] by (auto split: if_splits)
  qed (use ws_invD(1) [OF assms(1)] in simp)
qed

lemma ws_inv_register:
  assumes "ws_inv w" and "k \<noteq> 0 \<Longrightarrow> \<exists>c. heap w ob = Some c \<and> ws_wsi c = k"
  shows "ws_inv (register k ob w)"
  using assms by (auto simp: ws_inv_def register_def)

lemma ws_inv_accept [inv_intros]: "ws_inv w \<Longrightarrow> ws_inv (snd (WebSocketClient_wsi d k w))"
  unfolding WebSocketClient_wsi_def snd_conv
  by (intro ws_inv_register ws_inv_new) (simp_all add: new_client_def client_ok_def)

lemma ws_inv_Close:
  assumes "ws_inv w" and "heap w ob = Some c"
  shows "safe (\<lambda>w'. ws_inv w' \<and> (\<exists>c'. heap w' ob = Some c' \<and> ws_wsi c' = ws_wsi c)) (Close ob w)"
  using assms ws_inv_client_ok [OF assms] ws_inv_put [OF assms, of "c\<lparr>m_state := CLOSING\<rparr>"]
  by (simp add: Close_def ws_inv_lws_do)

text \<open>Deleting an object removes its connection, so nothing is left that leads to it.\<close>

lemma ws_inv_delete:
  assumes "ws_inv w" and "heap w ob = Some c"
  shows "ws_inv ((unregister (ws_wsi c) w)\<lparr>heap := (heap w)(ob := None)\<rparr>)"
proof (rule ws_invI)
  let ?w = "(unregister (ws_wsi c) w)\<lparr>heap := (heap w)(ob := None)\<rparr>"
  fix k x
  assume "map_of (WSClientSet ?w) k = Some x" and k: "k \<noteq> 0"
  then have "map_of (WSClientSet w) k = Some x" and ne: "k \<noteq> ws_wsi c"
    using ws_invD(1) [OF assms(1)] by (auto split: if_splits)
  then obtain d where "heap w x = Some d" "ws_wsi d = k" using ws_invD(2) [OF assms(1)] k by blast
  with ne assms(2) show "\<exists>c. heap ?w x = Some c \<and> ws_wsi c = k" by auto
next
  fix x d
  assume "heap ((unregister (ws_wsi c) w)\<lparr>heap := (heap w)(ob := None)\<rparr>) x = Some d"
  then have "heap w x = Some d" by (simp split: if_splits)
  then show "x < next_obj ((unregister (ws_wsi c) w)\<lparr>heap := (heap w)(ob := None)\<rparr>) \<and> client_ok d"
    using ws_invD(3) [OF assms(1)] by simp
qed (use ws_invD(1) [OF assms(1)] in simp)

lemma ws_inv_destroy:
  assumes "ws_inv w" and "heap w ob = Some c"
  shows "safe (\<lambda>w'. ws_inv w' \<and> heap w' ob = None) (destroy_WebSocketClient ob w)"
proof -
  have "safe (\<lambda>w'. ws_inv w' \<and> (\<exists>c'. heap w' ob = Some c' \<and> ws_wsi c' = ws_wsi c))
          (if registered w (ws_wsi c) then Close ob w else Inr w)"
    using assms ws_inv_Close [OF assms] by simp
  then show ?thesis
    unfolding destroy_WebSocketClient_def client_at_live [OF assms(2)] rbind_simps
  proof (rule safe_rbind)
    fix w'
    assume "ws_inv w' \<and> (\<exists>c'. heap w' ob = Some c' \<and> ws_wsi c' = ws_wsi c)"
    then obtain c' where c': "ws_inv w'" "heap w' ob = Some c'" "ws_wsi c' = ws_wsi c" by blast
    show "safe (\<lambda>w'. ws_inv w' \<and> heap w' ob = None)
        (Inr ((unregister (ws_wsi c) w')\<lparr>heap := (heap w')(ob := None)\<rparr>))"
      using ws_inv_delete [OF c'(1,2)] c'(3) by simp
  qed
qed

lemma ws_inv_Send:
  assumes "ws_inv w" and "heap w ob = Some c"
  shows "safe ws_inv (Send ob d w)"
  using assms ws_inv_client_ok [OF assms] client_ok_send [of c d]
    ws_inv_put [OF assms, of "c\<lparr>m_sendBuf := m_sendBuf c @ [replicate LWS_PRE NUL @ d]\<rparr>"]
  by (simp add: Send_def Let_def ws_inv_lws_do)

section \<open>What callback_lws relies on, and what it keeps\<close>

text \<open>
  The contract between the web socket layer and a class that derives from \<open>WebSocketClient\<close>.
  The deriving class promises that its methods, called on a live object of its own, keep an
  invariant that implies the layer's and do not use deleted objects; that \<open>OnSend\<close> and
  \<open>OnError\<close> leave the object alive; and that its invariant tolerates what the layer itself
  does to the state.
\<close>

locale ws_system =
  fixes V :: "'z ws_world_scheme vtable"
    and inv :: "'z ws_world_scheme \<Rightarrow> bool"
  assumes inv_ws: "inv w \<Longrightarrow> ws_inv w"
    and inv_lws_do: "inv w \<Longrightarrow> inv (lws_do x w)"
    and inv_put: "inv w \<Longrightarrow> heap w ob = Some c \<Longrightarrow> client_ok c' \<Longrightarrow> ws_wsi c' = ws_wsi c
      \<Longrightarrow> derived c' = derived c \<Longrightarrow> inv (put_client ob c' w)"
    and inv_unregister: "inv w \<Longrightarrow> inv (unregister k w)"
    and inv_destroy: "inv w \<Longrightarrow> heap w ob = Some c \<Longrightarrow> \<not> derived c
      \<Longrightarrow> safe inv (destroy_WebSocketClient ob w)"
    and inv_OnOpen: "inv w \<Longrightarrow> heap w ob = Some c \<Longrightarrow> derived c \<Longrightarrow> safe inv (OnOpen_of V ob w)"
    and inv_OnSend: "inv w \<Longrightarrow> heap w ob = Some c \<Longrightarrow> derived c
      \<Longrightarrow> safe (\<lambda>w'. inv w' \<and> heap w' ob \<noteq> None) (OnSend_of V ob w)"
    and inv_OnError: "inv w \<Longrightarrow> heap w ob = Some c \<Longrightarrow> derived c
      \<Longrightarrow> safe (\<lambda>w'. inv w' \<and> heap w' ob \<noteq> None) (OnError_of V ob e w)"
    and inv_OnClose: "inv w \<Longrightarrow> heap w ob = Some c \<Longrightarrow> derived c \<Longrightarrow> safe inv (OnClose_of V ob e w)"
    and inv_OnMessage: "inv w \<Longrightarrow> heap w ob = Some c \<Longrightarrow> derived c \<Longrightarrow> safe inv (OnMessage_of V ob m w)"
    and inv_OnAccept: "inv w \<Longrightarrow> safe inv (OnAccept_of V k w)"
begin

lemma live: "inv w \<Longrightarrow> map_of (WSClientSet w) k = Some ob \<Longrightarrow> k \<noteq> 0 \<Longrightarrow> heap w ob \<noteq> None"
  using ws_invD(2) [OF inv_ws] by fastforce

lemma safe_virtual:
  assumes "inv w" and "heap w ob \<noteq> None" and "\<And>c. heap w ob = Some c \<Longrightarrow> derived c \<Longrightarrow> safe P (f w)" and "P w"
  shows "safe P (virtual ob f w)"
  using assms by (auto simp: virtual_def)

lemma safe_set_state:
  assumes "inv w" and "heap w ob \<noteq> None"
  shows "safe (\<lambda>w'. inv w' \<and> heap w' ob \<noteq> None) (set_state ob st w)"
proof -
  obtain c where c: "heap w ob = Some c" using assms(2) by blast
  have "inv (put_client ob (c\<lparr>m_state := st\<rparr>) w)"
    using ws_inv_client_ok [OF inv_ws [OF assms(1)] c] by (intro inv_put [OF assms(1) c]) simp_all
  with c show ?thesis by (simp add: set_state_def)
qed

lemma established_safe:
  assumes "inv w" and "\<And>ob. cl = Some ob \<Longrightarrow> heap w ob \<noteq> None"
  shows "safe (\<lambda>(r, w'). inv w') (on_established V k cl w)"
proof (cases cl)
  case (Some ob)
  show ?thesis unfolding on_established_def Some option.case
  proof (rule safe_rbind [OF safe_set_state [OF assms]], rule Some)
    fix w' assume w': "inv w' \<and> heap w' ob \<noteq> None"
    then have "safe inv (virtual ob (OnOpen_of V ob) w')" by (intro safe_virtual inv_OnOpen) auto
    then show "safe (\<lambda>(r, w'). inv w')
        (rbind (virtual ob (OnOpen_of V ob) w') (\<lambda>w. Inr (0 :: int, lws_do (lws_callback_on_writable k) w)))"
      by (rule safe_rbind) (simp add: inv_lws_do)
  qed
qed (use assms in \<open>simp add: on_established_def\<close>)

lemma close_safe:
  assumes "inv w" and "heap w ob \<noteq> None"
  shows "safe (\<lambda>(r, w'). inv w') (rbind (virtual ob (OnClose_of V ob e) w) (\<lambda>w. Inr (0 :: int, w)))"
proof (rule safe_rbind)
  show "safe inv (virtual ob (OnClose_of V ob e) w)" using assms by (intro safe_virtual inv_OnClose) auto
qed simp

lemma connection_error_safe:
  assumes "inv w" and "\<And>ob. cl = Some ob \<Longrightarrow> heap w ob \<noteq> None"
  shows "safe (\<lambda>(r, w'). inv w') (on_connection_error V k cl inp w)"
proof (cases cl)
  case (Some ob)
  let ?w = "unregister k w"
  have "inv ?w" "heap ?w ob \<noteq> None" using assms Some by (simp_all add: inv_unregister)
  from safe_set_state [OF this, of CLOSED] show ?thesis
    unfolding on_connection_error_def Some option.case Let_def
  proof (rule safe_rbind)
    fix w' assume w': "inv w' \<and> heap w' ob \<noteq> None"
    then have "safe (\<lambda>w'. inv w' \<and> heap w' ob \<noteq> None) (virtual ob (OnError_of V ob (text_of inp)) w')"
      by (intro safe_virtual inv_OnError) auto
    then show "safe (\<lambda>(r, w'). inv w') (rbind (virtual ob (OnError_of V ob (text_of inp)) w')
        (\<lambda>w. rbind (virtual ob (OnClose_of V ob (text_of inp)) w) (\<lambda>w. Inr (0 :: int, w))))"
      by (rule safe_rbind) (simp add: close_safe)
  qed
qed (use assms in \<open>simp add: on_connection_error_def inv_unregister\<close>)

lemma closed_safe:
  assumes "inv w" and "\<And>ob. cl = Some ob \<Longrightarrow> heap w ob \<noteq> None"
  shows "safe (\<lambda>(r, w'). inv w') (on_closed V k cl inp w)"
proof (cases cl)
  case (Some ob)
  let ?w = "unregister k w"
  have w: "inv ?w" "heap ?w ob \<noteq> None" using assms Some by (simp_all add: inv_unregister)
  then obtain c where c: "heap ?w ob = Some c" by blast
  have "safe (\<lambda>(r, w'). inv w') (rbind (set_state ob CLOSED ?w)
      (\<lambda>w. rbind (virtual ob (OnClose_of V ob (text_of inp)) w) (\<lambda>w. Inr (0 :: int, w))))"
    by (rule safe_rbind [OF safe_set_state [OF w]]) (simp add: close_safe)
  with w c show ?thesis unfolding on_closed_def Some by (simp add: Let_def)
qed (use assms in \<open>simp add: on_closed_def inv_unregister\<close>)

lemma receive_safe:
  assumes "inv w" and "\<And>ob. cl = Some ob \<Longrightarrow> heap w ob \<noteq> None"
  shows "safe (\<lambda>(r, w'). inv w') (on_receive V cl inp w)"
proof (cases cl)
  case (Some ob)
  have "safe inv (virtual ob (OnMessage_of V ob (text_of inp)) w)"
    using assms Some by (intro safe_virtual inv_OnMessage) auto
  then have "safe (\<lambda>(r, w'). inv w')
      (rbind (virtual ob (OnMessage_of V ob (text_of inp)) w) (\<lambda>w. Inr (0 :: int, w)))"
    by (rule safe_rbind) simp
  then show ?thesis by (simp add: on_receive_def Some)
qed (use assms in \<open>simp add: on_receive_def\<close>)

lemma write_front_safe:
  assumes "inv w" and "heap w ob \<noteq> None"
  shows "safe (\<lambda>(go_on, w'). inv w' \<and> heap w' ob \<noteq> None) (write_front L k ob w)"
proof -
  obtain c where c: "heap w ob = Some c" using assms(2) by blast
  have ok: "client_ok c" using ws_inv_client_ok [OF inv_ws [OF assms(1)] c] .
  show ?thesis
  proof (cases "m_sendBuf c")
    case Nil
    then show ?thesis using assms c by (simp add: write_front_def)
  next
    case (Cons b bs)
    note front = client_ok_front [OF ok Cons]
    have "inv (put_client ob (c\<lparr>m_sendBuf := q\<rparr>) (lws_do x w))" "inv (put_client ob (c\<lparr>m_sendBuf := q\<rparr>) w)"
      if "client_ok (c\<lparr>m_sendBuf := q\<rparr>)" for q x
      using that c assms(1) by (auto intro!: inv_put inv_lws_do)
    with front show ?thesis
      using assms c Cons by (simp add: write_front_def Let_def inv_lws_do)
  qed
qed

lemma writeable_safe:
  assumes "inv w" and "\<And>ob. cl = Some ob \<Longrightarrow> heap w ob \<noteq> None"
  shows "safe (\<lambda>(r, w'). inv w') (on_writeable L V k cl w)"
proof (cases cl)
  case (Some ob)
  then obtain c where c: "heap w ob = Some c" using assms(2) by blast
  have "safe (\<lambda>(r, w'). inv w') (rbind (virtual ob (OnSend_of V ob) w) (\<lambda>w.
      rbind (write_front L k ob w) (\<lambda>(go_on, w). if \<not> go_on then Inr (- 1 :: int, w)
        else rbind (client_at ob w) (\<lambda>c. Inr (0 :: int, if m_sendBuf c \<noteq> [] then lws_do (lws_callback_on_writable k) w else w)))))"
  proof (rule safe_rbind)
    show "safe (\<lambda>w'. inv w' \<and> heap w' ob \<noteq> None) (virtual ob (OnSend_of V ob) w)"
      using assms(1) c by (intro safe_virtual inv_OnSend) auto
    fix w' assume "inv w' \<and> heap w' ob \<noteq> None"
    then have "safe (\<lambda>(go_on, w'). inv w' \<and> heap w' ob \<noteq> None) (write_front L k ob w')"
      using write_front_safe by blast
    then show "safe (\<lambda>(r, w'). inv w') (rbind (write_front L k ob w') (\<lambda>(go_on, w). if \<not> go_on then Inr (- 1 :: int, w)
        else rbind (client_at ob w) (\<lambda>c. Inr (0 :: int, if m_sendBuf c \<noteq> [] then lws_do (lws_callback_on_writable k) w else w))))"
      by (rule safe_rbind) (auto simp: inv_lws_do)
  qed
  with c assms(1) show ?thesis unfolding on_writeable_def Some by simp
qed (use assms in \<open>simp add: on_writeable_def\<close>)

lemma create_safe: "inv w \<Longrightarrow> safe (\<lambda>(r, w'). inv w') (on_wsi_create V k user w)"
  unfolding on_wsi_create_def by (cases user) (auto intro!: safe_rbind [OF inv_OnAccept])

lemma destroy_safe:
  assumes "inv w" and "\<And>ob. cl = Some ob \<Longrightarrow> heap w ob \<noteq> None"
  shows "safe (\<lambda>(r, w'). inv w') (on_wsi_destroy cl w)"
proof (cases cl)
  case (Some ob)
  then obtain c where c: "heap w ob = Some c" using assms(2) by blast
  have "safe (\<lambda>(r, w'). inv w') (rbind (destroy_WebSocketClient ob w) (\<lambda>w. Inr (0 :: int, w)))" if "\<not> derived c"
    by (rule safe_rbind [OF inv_destroy [OF assms(1) c that]]) simp
  with assms(1) c show ?thesis unfolding on_wsi_destroy_def Some by simp
qed (use assms in \<open>simp add: on_wsi_destroy_def\<close>)

lemma callback_safe:
  assumes "inv w" and "k \<noteq> 0"
  shows "safe (\<lambda>(r, w'). inv w') (callback_lws L V k reason user inp w)"
proof -
  have "heap w ob \<noteq> None" if "map_of (WSClientSet w) k = Some ob" for ob
    using live [OF assms(1) that assms(2)] .
  then show ?thesis
    using established_safe connection_error_safe closed_safe receive_safe writeable_safe
      create_safe destroy_safe assms(1)
    unfolding callback_lws_def Let_def by (cases reason) simp_all
qed

end

text \<open>The base classes meet the contract.\<close>

definition base_vtable :: "'z ws_world_scheme vtable" where
  "base_vtable =
     \<lparr>OnOpen_of = (\<lambda>_ w. Inr w), OnSend_of = (\<lambda>_ w. Inr w), OnClose_of = (\<lambda>_ _ w. Inr w),
      OnError_of = (\<lambda>_ _ w. Inr w), OnMessage_of = (\<lambda>_ _ w. Inr w),
      OnAccept_of = WebSocketServer_OnAccept\<rparr>"

interpretation base_ws: ws_system base_vtable ws_inv
proof unfold_locales
  fix w :: "'a ws_world_scheme" and ob c
  assume "ws_inv w" and "heap w ob = Some c"
  then show "safe ws_inv (destroy_WebSocketClient ob w)"
    using ws_inv_destroy [of w ob c] by (auto intro: safe_weaken)
qed (simp_all add: base_vtable_def ws_inv_lws_do ws_inv_put ws_inv_unregister ws_inv_accept
    WebSocketServer_OnAccept_def)

end
