(* ===== verification/Send_Queue.thy ===== *)
theory Send_Queue
  imports Web_Socket
begin

text \<open>
  The send queue of a \<open>WebSocketClient\<close>: \<open>Send\<close> appends to it, the writeable callback takes from
  its front what \<open>lws_write\<close> accepts. Seen from outside it is a byte stream that loses,
  repeats and reorders nothing, and that drains as long as libwebsockets accepts bytes.
\<close>

section \<open>The send queue is a byte stream\<close>

text \<open>
  The contract of a stream with a buffer in front of it: what is pushed comes behind everything
  pushed before, in the buffer or already sent, and a flush moves bytes from the front of the
  buffer to the end of what is sent.
\<close>

inductive stream_run ::
    "('b list \<Rightarrow> 's \<Rightarrow> 's \<Rightarrow> bool) \<Rightarrow> ('s \<Rightarrow> 's \<Rightarrow> bool) \<Rightarrow> 'b list list \<Rightarrow> 's \<Rightarrow> 's \<Rightarrow> bool"
  for push :: "'b list \<Rightarrow> 's \<Rightarrow> 's \<Rightarrow> bool" and flush :: "'s \<Rightarrow> 's \<Rightarrow> bool" where
  stream_stop: "stream_run push flush [] s s"
| stream_push: "push d s t \<Longrightarrow> stream_run push flush ds t u \<Longrightarrow> stream_run push flush (d # ds) s u"
| stream_flush: "flush s t \<Longrightarrow> stream_run push flush ds t u \<Longrightarrow> stream_run push flush ds s u"

locale fifo_stream =
  fixes pend :: "'s \<Rightarrow> 'b list"
    and sent :: "'s \<Rightarrow> 'b list"
    and push :: "'b list \<Rightarrow> 's \<Rightarrow> 's \<Rightarrow> bool"
    and flush :: "'s \<Rightarrow> 's \<Rightarrow> bool"
    and ok :: "'s \<Rightarrow> bool"
  assumes push_ok: "ok s \<Longrightarrow> push d s t \<Longrightarrow> ok t"
    and push_adds: "ok s \<Longrightarrow> push d s t \<Longrightarrow> sent t @ pend t = sent s @ pend s @ d"
    and flush_ok: "ok s \<Longrightarrow> flush s t \<Longrightarrow> ok t"
    and flush_moves: "ok s \<Longrightarrow> flush s t \<Longrightarrow> sent t @ pend t = sent s @ pend s"
begin

lemma stream_conserved:
  "stream_run push flush ds s t \<Longrightarrow> ok s \<Longrightarrow> ok t \<and> sent t @ pend t = sent s @ pend s @ concat ds"
proof (induction rule: stream_run.induct)
  case (stream_push d s t ds u)
  then have "sent u @ pend u = (sent t @ pend t) @ concat ds" using push_ok by simp
  then show ?case using stream_push push_ok push_adds by simp
next
  case (stream_flush s t ds u)
  then have "sent u @ pend u = sent t @ pend t @ concat ds" using flush_ok by blast
  also have "\<dots> = sent s @ pend s @ concat ds"
    using flush_moves [OF stream_flush.prems stream_flush.hyps(1)] by (metis append_assoc)
  finally show ?case using stream_flush flush_ok by blast
qed simp

end

definition pending :: "nat \<Rightarrow> 'z ws_world_scheme \<Rightarrow> byte list" where
  "pending ob w =
     (case heap w ob of None \<Rightarrow> [] | Some c \<Rightarrow> concat (map (drop LWS_PRE) (m_sendBuf c)))"

fun taken :: "nat \<Rightarrow> lws_call \<Rightarrow> byte list" where
  "taken k (lws_write j data len) = (if j = k \<and> 0 < len then take (nat len) data else [])"
| "taken k _ = []"

definition accepted :: "nat \<Rightarrow> lws_call list \<Rightarrow> byte list" where
  "accepted k calls = concat (map (taken k) calls)"

lemma accepted_simps [simp]:
  "accepted k [] = []"
  "accepted k (x # calls) = taken k x @ accepted k calls"
  "accepted k (calls @ calls') = accepted k calls @ accepted k calls'"
  by (simp_all add: accepted_def)

lemma Send_appends:
  assumes "Send ob d w = Inr w'"
  shows "pending ob w' = pending ob w @ d" and "accepted k (lws_calls w') = accepted k (lws_calls w)"
  using assms
  by (auto simp: Send_def pending_def client_at_Inr rbind_Inr_iff Let_def split: if_splits)

lemma write_front_moves:
  assumes ok: "heap w ob = Some c" "client_ok c" and res: "write_front L k ob w = Inr (g, w')"
  shows "accepted k (lws_calls w') @ pending ob w' = accepted k (lws_calls w) @ pending ob w"
proof (cases "m_sendBuf c")
  case Nil
  then show ?thesis using assms by (simp add: write_front_def)
next
  case (Cons b bs)
  then have pre: "LWS_PRE \<le> length b" using ok LWS_PRE_length by (simp add: client_ok_def)
  let ?len = "write_answer L (lws_calls w) k (drop LWS_PRE b)"
  have split: "take (nat ?len) (drop LWS_PRE b) @ drop (LWS_PRE + nat ?len) b = drop LWS_PRE b"
    by (metis add.commute append_take_drop_id drop_drop)
  show ?thesis
    using res pre split unfolding write_front_def client_at_live [OF ok(1)] rbind_simps Cons
    by (auto simp: Let_def pending_def ok Cons split: if_splits)
qed

text \<open>A class whose \<open>OnSend\<close> does nothing, as all of the program's do.\<close>

definition quiet_OnSend :: "'z ws_world_scheme vtable \<Rightarrow> bool" where
  "quiet_OnSend V \<longleftrightarrow> (\<forall>ob w. OnSend_of V ob w = Inr w)"

lemma virtual_quiet: "quiet_OnSend V \<Longrightarrow> heap w ob = Some c \<Longrightarrow> virtual ob (OnSend_of V ob) w = Inr w"
  by (simp add: virtual_def quiet_OnSend_def)

lemma on_writeable_moves:
  assumes inv: "ws_inv w" and V: "quiet_OnSend V" and res: "on_writeable L V k (Some ob) w = Inr (r, w')"
  shows "accepted k (lws_calls w') @ pending ob w' = accepted k (lws_calls w) @ pending ob w"
proof (cases "heap w ob")
  case None
  then show ?thesis using res by (simp add: on_writeable_def client_at_def)
next
  case (Some c)
  note ok = ws_inv_client_ok [OF inv Some]
  show ?thesis
  proof (cases "m_state c = CLOSING")
    case True
    then show ?thesis using res Some by (simp add: on_writeable_def)
  next
    case False
    then obtain g w1 where w1: "write_front L k ob w = Inr (g, w1)"
      using res Some virtual_quiet [OF V Some] by (auto simp: on_writeable_def rbind_Inr_iff)
    have "accepted k (lws_calls w') @ pending ob w' = accepted k (lws_calls w1) @ pending ob w1"
      using res Some virtual_quiet [OF V Some] False w1
      by (auto simp: on_writeable_def rbind_Inr_iff pending_def split: if_splits)
    then show ?thesis using write_front_moves [OF Some ok w1] by simp
  qed
qed

lemma Send_ws_inv:
  assumes "ws_inv w" and "Send ob d w = Inr w'"
  shows "ws_inv w'"
proof -
  obtain c where "heap w ob = Some c" using assms(2) by (auto simp: Send_def rbind_Inr_iff client_at_Inr)
  with assms show ?thesis using ws_inv_Send [of w ob c d] by simp
qed

lemma write_front_ws_inv: "ws_inv w \<Longrightarrow> write_front L k ob w = Inr (g, w') \<Longrightarrow> ws_inv w'"
  using base_ws.write_front_safe [of w ob L k]
  by (cases "heap w ob") (auto simp: write_front_def client_at_def)

lemma on_writeable_ws_inv:
  assumes "ws_inv w" and V: "quiet_OnSend V" and res: "on_writeable L V k (Some ob) w = Inr (r, w')"
  shows "ws_inv w'"
proof (cases "heap w ob")
  case None
  then show ?thesis using res by (simp add: on_writeable_def client_at_def)
next
  case (Some c)
  then show ?thesis using res virtual_quiet [OF V Some] write_front_ws_inv [OF assms(1)] assms(1)
    by (auto simp: on_writeable_def rbind_Inr_iff ws_inv_lws_do split: if_splits)
qed

interpretation ws_stream: fifo_stream
  "pending ob" "\<lambda>w. accepted k (lws_calls w)"
  "\<lambda>d w w'. Send ob d w = Inr w'"
  "\<lambda>w w'. \<exists>L V r. quiet_OnSend V \<and> on_writeable L V k (Some ob) w = Inr (r, w')"
  ws_inv for ob k
  by unfold_locales
    (auto simp: Send_appends intro: Send_ws_inv on_writeable_ws_inv dest: on_writeable_moves)

section \<open>The send queue drains\<close>

text \<open>An answer of \<open>lws_write\<close> as documented: some of the bytes offered, at least one.\<close>

definition obliging :: "lws_lib \<Rightarrow> bool" where
  "obliging L \<longleftrightarrow>
     (\<forall>calls k data. data \<noteq> [] \<longrightarrow>
        0 < write_answer L calls k data \<and> write_answer L calls k data \<le> int (length data))"

definition queue_size :: "WebSocketClient \<Rightarrow> nat" where
  "queue_size c = length (concat (map (drop LWS_PRE) (m_sendBuf c))) + length (m_sendBuf c)"

lemma write_front_progress:
  assumes L: "obliging L" and c: "heap w ob = Some c" "client_ok c" and ne: "m_sendBuf c \<noteq> []"
  shows "\<exists>c' w'. write_front L k ob w = Inr (True, w') \<and> heap w' ob = Some c' \<and> m_state c' = m_state c
    \<and> queue_size c' < queue_size c"
proof -
  obtain b bs where b: "m_sendBuf c = b # bs" using ne by (cases "m_sendBuf c") auto
  then have pre: "LWS_PRE \<le> length b" using c LWS_PRE_length by (simp add: client_ok_def)
  let ?d = "drop LWS_PRE b" and ?len = "write_answer L (lws_calls w) k (drop LWS_PRE b)"
  show ?thesis
  proof (cases "?d = []")
    case True
    then have "length b = LWS_PRE" using pre by simp
    then show ?thesis using c b by (simp add: write_front_def queue_size_def)
  next
    case False
    then have "0 < ?len" "?len \<le> int (length ?d)" using L unfolding obliging_def by blast+
    moreover have "int (length ?d) = int (length b) - int LWS_PRE" using pre by simp
    ultimately show ?thesis using c b pre False
      by (auto simp: write_front_def Let_def queue_size_def)
  qed
qed

lemma on_writeable_progress:
  assumes "obliging L" and V: "quiet_OnSend V" and c: "heap w ob = Some c" "client_ok c"
    and ne: "m_sendBuf c \<noteq> []" and st: "m_state c \<noteq> CLOSING"
  shows "\<exists>c' w'. on_writeable L V k (Some ob) w = Inr (0, w') \<and> heap w' ob = Some c'
    \<and> m_state c' = m_state c \<and> queue_size c' < queue_size c
    \<and> (m_sendBuf c' \<noteq> [] \<longrightarrow> last (lws_calls w') = lws_callback_on_writable k)"
proof -
  obtain c' w' where w': "write_front L k ob w = Inr (True, w')" "heap w' ob = Some c'"
    "m_state c' = m_state c" "queue_size c' < queue_size c"
    using write_front_progress [OF assms(1) c ne, of k] by blast
  then show ?thesis using c(1) st virtual_quiet [OF V c(1)] by (auto simp: on_writeable_def)
qed

text \<open>The writeable callback, over and over.\<close>

fun pump :: "lws_lib \<Rightarrow> 'z ws_world_scheme vtable \<Rightarrow> nat \<Rightarrow> nat \<Rightarrow> nat \<Rightarrow> 'z ws_world_scheme
    \<Rightarrow> (int \<times> 'z ws_world_scheme) result" where
  "pump L V k ob 0 w = Inr (0, w)"
| "pump L V k ob (Suc n) w =
     rbind (on_writeable L V k (Some ob) w) (\<lambda>(r, w). if r \<noteq> 0 then Inr (r, w) else pump L V k ob n w)"

lemma on_writeable_idle:
  "quiet_OnSend V \<Longrightarrow> heap w ob = Some c \<Longrightarrow> m_state c \<noteq> CLOSING \<Longrightarrow> m_sendBuf c = [] \<Longrightarrow>
   on_writeable L V k (Some ob) w = Inr (0, w)"
  using virtual_quiet [of V w ob c] by (simp add: on_writeable_def write_front_def)

lemma pump_drains:
  assumes "obliging L" and V: "quiet_OnSend V" and "ws_inv w"
    and "heap w ob = Some c" and "m_state c \<noteq> CLOSING" and "queue_size c \<le> n"
  shows "\<exists>w' c'. pump L V k ob n w = Inr (0, w') \<and> heap w' ob = Some c' \<and> m_sendBuf c' = []
    \<and> accepted k (lws_calls w') = accepted k (lws_calls w) @ pending ob w"
  using assms(3-)
proof (induction n arbitrary: w c)
  case 0
  then show ?case by (simp add: queue_size_def pending_def)
next
  case (Suc n)
  note ok = ws_inv_client_ok [OF Suc.prems(1,2)]
  show ?case
  proof (cases "m_sendBuf c = []")
    case True
    then have "queue_size c \<le> n" by (simp add: queue_size_def)
    then show ?thesis
      using Suc.IH [OF Suc.prems(1-3)] on_writeable_idle [OF V Suc.prems(2,3) True, of L k] by simp
  next
    case False
    obtain c1 w1 where w1: "on_writeable L V k (Some ob) w = Inr (0, w1)" "heap w1 ob = Some c1"
      "m_state c1 = m_state c" "queue_size c1 < queue_size c"
      using on_writeable_progress [OF assms(1) V Suc.prems(2) ok False Suc.prems(3), of k] by blast
    have "ws_inv w1" by (rule on_writeable_ws_inv [OF Suc.prems(1) V w1(1)])
    then have "\<exists>w' c'. pump L V k ob n w1 = Inr (0, w') \<and> heap w' ob = Some c' \<and> m_sendBuf c' = []
        \<and> accepted k (lws_calls w') = accepted k (lws_calls w1) @ pending ob w1"
      using w1 Suc.prems(3,4) by (intro Suc.IH [of w1 c1]) simp_all
    then show ?thesis using w1(1) on_writeable_moves [OF Suc.prems(1) V w1(1)] by simp
  qed
qed

text \<open>
  C5: the bytes libwebsockets took from a connection followed by the bytes still queued are
  always the bytes sent before, in the order of the calls of \<open>Send\<close>, whatever \<open>lws_write\<close>
  accepts each time and however sends and writeable callbacks interleave.
\<close>

theorem send_queue_is_fifo:
  assumes "ws_inv w"
    and "stream_run (\<lambda>d w w'. Send ob d w = Inr w')
           (\<lambda>w w'. \<exists>L V r. quiet_OnSend V \<and> on_writeable L V k (Some ob) w = Inr (r, w')) ds w w'"
  shows "accepted k (lws_calls w') @ pending ob w'
         = accepted k (lws_calls w) @ pending ob w @ concat ds"
  using ws_stream.stream_conserved [OF assms(2,1)] by blast

text \<open>
  C11: if \<open>lws_write\<close> takes at least one byte whenever it is offered some, then as many
  writeable callbacks as there are bytes and buffers queued empty the queue of a client that
  is not closing, every queued byte having been taken, in order.
\<close>

theorem send_queue_drains:
  assumes "obliging L" and "quiet_OnSend V" and "ws_inv w"
    and "heap w ob = Some c" and "m_state c \<noteq> CLOSING"
  shows "\<exists>w' c'. pump L V k ob (queue_size c) w = Inr (0, w') \<and> heap w' ob = Some c' \<and> m_sendBuf c' = []
    \<and> accepted k (lws_calls w') = accepted k (lws_calls w) @ pending ob w"
  by (rule pump_drains [OF assms order_refl])

text \<open>
  Closing an open connection: \<open>Close\<close> asks for a writeable callback, and that callback
  ends the connection by returning -1 without writing anything that is still queued.
\<close>

theorem close_ends_connection:
  assumes "map_of (WSClientSet w) k = Some ob" and "heap w ob = Some c" and "ws_wsi c = k"
    and "k \<noteq> 0" and "m_state c = OPEN"
  shows "\<exists>w'. Close ob w = Inr w' \<and> lws_callback_on_writable k \<in> set (lws_calls w')
    \<and> callback_lws L V k LWS_CALLBACK_SERVER_WRITEABLE user inp w' = Inr (- 1, w')
    \<and> accepted j (lws_calls w') = accepted j (lws_calls w)"
  using assms
  by (simp add: Close_def registered_def callback_lws_def on_writeable_def)

text \<open>
  A concrete run: connection 7 is accepted, opened, sent two bytes, and \<open>lws_write\<close> takes
  one byte at a time.
\<close>

definition ws_start :: ws_world where
  "ws_start = \<lparr>WSClientSet = [], heap = (\<lambda>_. None), next_obj = 5, lws_calls = []\<rparr>"

definition ws_opened :: ws_world where
  "ws_opened =
     put_client 5 ((new_client False 7 [])\<lparr>m_state := OPEN\<rparr>) (snd (WebSocketClient_wsi False 7 ws_start))"

definition ws_sent :: ws_world where
  "ws_sent =
     lws_do lws_cancel_service (lws_do (lws_callback_on_writable 7)
       (put_client 5 ((new_client False 7 [])\<lparr>m_state := OPEN, m_sendBuf := [replicate LWS_PRE NUL @ ''hi'']\<rparr>)
         ws_opened))"

definition ws_flushed :: ws_world where
  "ws_flushed =
     lws_do (lws_callback_on_writable 7)
       (put_client 5 ((new_client False 7 [])\<lparr>m_state := OPEN, m_sendBuf := [replicate LWS_PRE NUL @ ''i'']\<rparr>)
         (lws_do (lws_write 7 ''hi'' 1) ws_sent))"

definition one_by_one :: lws_lib where
  "one_by_one = \<lparr>write_answer = (\<lambda>_ _ _. 1), connect_answer = (\<lambda>_ _. 7)\<rparr>"

lemma ws_inv_start [simp]: "ws_inv ws_start"
  by (simp add: ws_inv_def ws_start_def)

lemma heap_opened [simp]: "heap ws_opened 5 = Some ((new_client False 7 [])\<lparr>m_state := OPEN\<rparr>)"
  by (simp add: ws_opened_def)

lemma set_opened [simp]: "WSClientSet ws_opened = [(7, 5)]"
  by (simp add: ws_opened_def WebSocketClient_wsi_def register_def registered_def ws_start_def)

lemma ws_inv_opened [simp]: "ws_inv ws_opened"
  unfolding ws_opened_def
proof (rule ws_inv_put)
  show "heap (snd (WebSocketClient_wsi False 7 ws_start)) 5 = Some (new_client False 7 [])"
    by (simp add: WebSocketClient_wsi_def ws_start_def)
qed (simp_all add: ws_inv_accept new_client_def client_ok_def)

lemma ws_opened_Send: "Send 5 ''hi'' ws_opened = Inr ws_sent"
  by (simp add: Send_def ws_sent_def registered_def new_client_def put_client_def)

lemma quiet_base [simp]: "quiet_OnSend base_vtable"
  by (simp add: quiet_OnSend_def base_vtable_def)

lemma ws_sent_flush: "on_writeable one_by_one base_vtable 7 (Some 5) ws_sent = Inr (0, ws_flushed)"
proof -
  have c: "heap ws_sent 5 = Some ((new_client False 7 [])\<lparr>m_state := OPEN, m_sendBuf := [replicate LWS_PRE NUL @ ''hi'']\<rparr>)"
    by (simp add: ws_sent_def)
  show ?thesis
    unfolding on_writeable_def option.case client_at_live [OF c] rbind_simps virtual_quiet [OF quiet_base c]
    by (simp add: write_front_def c ws_flushed_def one_by_one_def)
qed

theorem send_queue_is_fifo_witness:
  "accepted 7 (lws_calls ws_flushed) @ pending 5 ws_flushed = ''hi'' \<and> pending 5 ws_flushed = ''i''"
proof -
  have "stream_run (\<lambda>d w w'. Send 5 d w = Inr w')
     (\<lambda>w w'. \<exists>L V r. quiet_OnSend V \<and> on_writeable L V 7 (Some 5) w = Inr (r, w')) [''hi''] ws_opened ws_flushed"
    using ws_opened_Send ws_sent_flush quiet_base
    by (blast intro: stream_run.intros)
  from send_queue_is_fifo [OF ws_inv_opened this]
  have "accepted 7 (lws_calls ws_flushed) @ pending 5 ws_flushed
      = accepted 7 (lws_calls ws_opened) @ pending 5 ws_opened @ ''hi''" by simp
  moreover have "accepted 7 (lws_calls ws_opened) = []" "pending 5 ws_opened = []"
    by (simp_all add: ws_opened_def WebSocketClient_wsi_def ws_start_def pending_def new_client_def)
  moreover have "pending 5 ws_flushed = ''i''" by (simp add: ws_flushed_def pending_def)
  ultimately show ?thesis by simp
qed

theorem send_queue_drains_witness:
  "\<exists>w' c'. pump one_by_one base_vtable 7 5 3 ws_sent = Inr (0, w') \<and> heap w' 5 = Some c'
     \<and> m_sendBuf c' = [] \<and> accepted 7 (lws_calls w') = ''hi''"
proof -
  let ?c = "(new_client False 7 [])\<lparr>m_state := OPEN, m_sendBuf := [replicate LWS_PRE NUL @ ''hi'']\<rparr>"
  have c: "heap ws_sent 5 = Some ?c" by (simp add: ws_sent_def)
  have "obliging one_by_one" by (auto simp: obliging_def one_by_one_def Suc_le_eq)
  moreover have "ws_inv ws_sent" using Send_ws_inv [OF ws_inv_opened ws_opened_Send] .
  moreover have "queue_size ?c = 3" by (simp add: queue_size_def)
  moreover have "accepted 7 (lws_calls ws_sent) = []" "pending 5 ws_sent = ''hi''"
    by (simp_all add: ws_sent_def ws_opened_def WebSocketClient_wsi_def ws_start_def pending_def)
  ultimately show ?thesis
    using send_queue_drains [of one_by_one base_vtable ws_sent 5 ?c 7] c by (simp del: pump.simps)
qed

theorem close_ends_connection_witness:
  "\<exists>w'. Close 5 ws_opened = Inr w' \<and> lws_callback_on_writable 7 \<in> set (lws_calls w')
    \<and> callback_lws one_by_one base_vtable 7 LWS_CALLBACK_SERVER_WRITEABLE False None w' = Inr (- 1, w')"
  using close_ends_connection [of ws_opened 7 5 "(new_client False 7 [])\<lparr>m_state := OPEN\<rparr>"
    one_by_one base_vtable False None 7]
  by (simp add: new_client_def) blast

end
