(* ===== verification/Lws_Rx.thy ===== *)
theory Lws_Rx
  imports Prelude
begin

text \<open>
  The receiving side of a web socket connection in libwebsockets
  (\<open>src/libwebsockets-2.2.1/lib\<close>): the state machine \<open>lws_rx_sm\<close> of \<open>parsers.c\<close>, which takes one
  byte at a time, the routine \<open>lws_payload_until_length_exhausted\<close>, which takes the bulk of a
  payload at once, and the loop \<open>lws_interpret_incoming_packet\<close> of \<open>server.c\<close> around them.

  The connection \<open>struct lws\<close> is a record. \<open>rx_ubuf\<close> is the filled part of the buffer behind its
  first \<open>LWS_PRE\<close> bytes, so \<open>rx_ubuf_head\<close> is its length, and \<open>rx_ubuf_alloc\<close> is \<open>buffer_size\<close> and
  \<open>LWS_PRE\<close> more; in the same way \<open>ping_payload\<close> stands for \<open>ping_payload_buf\<close> and its length.
  \<open>size_t\<close> has 32 bits, as in the Windows build, where \<open>__LP64__\<close> is not defined. The program
  registers no extensions and never stops the flow of incoming data, so both are left out.
  What is handed to the protocol's callback is logged in \<open>reports\<close>; its answers, which may
  depend on all it was given before, are the parameter \<open>user_callback\<close>.
\<close>

unbundle bit_operations_syntax

section \<open>The connection\<close>

datatype lws_rx_parse_state =
    LWS_RXPS_NEW
  | LWS_RXPS_04_mask_1
  | LWS_RXPS_04_mask_2
  | LWS_RXPS_04_mask_3
  | LWS_RXPS_04_FRAME_HDR_1
  | LWS_RXPS_04_FRAME_HDR_LEN
  | LWS_RXPS_04_FRAME_HDR_LEN16_2
  | LWS_RXPS_04_FRAME_HDR_LEN16_1
  | LWS_RXPS_04_FRAME_HDR_LEN64_8
  | LWS_RXPS_04_FRAME_HDR_LEN64_7
  | LWS_RXPS_04_FRAME_HDR_LEN64_6
  | LWS_RXPS_04_FRAME_HDR_LEN64_5
  | LWS_RXPS_04_FRAME_HDR_LEN64_4
  | LWS_RXPS_04_FRAME_HDR_LEN64_3
  | LWS_RXPS_04_FRAME_HDR_LEN64_2
  | LWS_RXPS_04_FRAME_HDR_LEN64_1
  | LWS_RXPS_07_COLLECT_FRAME_KEY_1
  | LWS_RXPS_07_COLLECT_FRAME_KEY_2
  | LWS_RXPS_07_COLLECT_FRAME_KEY_3
  | LWS_RXPS_07_COLLECT_FRAME_KEY_4
  | LWS_RXPS_PAYLOAD_UNTIL_LENGTH_EXHAUSTED

text \<open>The states of a web socket connection; \<open>LWSS_OTHER\<close> stands for those of HTTP and CGI.\<close>

datatype lws_connection_states =
    LWSS_ESTABLISHED
  | LWSS_RETURNED_CLOSE_ALREADY
  | LWSS_AWAITING_CLOSE_ACK
  | LWSS_FLUSHING_STORED_SEND_BEFORE_CLOSE
  | LWSS_OTHER

definition LWSWSOPC_CONTINUATION :: u8 where
  "LWSWSOPC_CONTINUATION = 0"

definition LWSWSOPC_TEXT_FRAME :: u8 where
  "LWSWSOPC_TEXT_FRAME = 1"

definition LWSWSOPC_BINARY_FRAME :: u8 where
  "LWSWSOPC_BINARY_FRAME = 2"

definition LWSWSOPC_CLOSE :: u8 where
  "LWSWSOPC_CLOSE = 8"

definition LWSWSOPC_PING :: u8 where
  "LWSWSOPC_PING = 9"

definition LWSWSOPC_PONG :: u8 where
  "LWSWSOPC_PONG = 0xa"

lemmas opcodes = LWSWSOPC_CONTINUATION_def LWSWSOPC_TEXT_FRAME_def LWSWSOPC_BINARY_FRAME_def
  LWSWSOPC_CLOSE_def LWSWSOPC_PING_def LWSWSOPC_PONG_def

text \<open>What the protocol's callback is called with, and the request to be called when writeable.\<close>

datatype rx_report =
    Rx_Receive "u8 list"
  | Rx_Pong "u8 list"
  | Rx_Peer_Close "u8 list"
  | Rx_Want_Writeable

record lws =
  is_client :: bool
  wsi_state :: lws_connection_states
  socket_is_permanently_unusable :: bool
  ietf_spec_revision :: nat
  waiting_for_pong :: bool
  trunc_alloc :: "u8 list option"
  trunc_offset :: nat
  trunc_len :: nat
  lws_rx_parse_state :: lws_rx_parse_state
  rx_ubuf :: "u8 list"
  rx_packet_length :: u32
  ws_mask :: "u8 list"
  mask_idx :: u8
  opcode :: u8
  rsv :: u8
  rsv_first_msg :: u8
  final_frame :: bool
  frame_is_binary :: bool
  all_zero_nonce :: bool
  this_frame_masked :: bool
  inside_frame :: bool
  payload_is_close :: bool
  ping_payload :: "u8 list"
  ping_pending_flag :: bool
  send_check_ping :: bool
  reports :: "rx_report list"
  wire :: "u8 list"

text \<open>
  The outside: the size of the receive buffer, the callback, and, for the sending side, what
  \<open>send\<close> answers given all that was sent before, and, where that is negative, whether \<open>errno\<close> says
  to try again; whether \<open>malloc\<close> succeeds; the random numbers of the masks.
\<close>

record lws_env =
  buffer_size :: nat
  user_callback :: "rx_report list \<Rightarrow> rx_report \<Rightarrow> int"
  writeable_callback :: "lws \<Rightarrow> int \<times> lws"
  socket_send :: "u8 list \<Rightarrow> u8 list \<Rightarrow> int"
  send_would_block :: "u8 list \<Rightarrow> u8 list \<Rightarrow> bool"
  malloc_succeeds :: "nat \<Rightarrow> bool"
  random_bytes :: "lws \<Rightarrow> u8 list"

definition tell :: "rx_report \<Rightarrow> lws \<Rightarrow> lws" where
  "tell r w = w\<lparr>reports := reports w @ [r]\<rparr>"

definition user_callback_handle_rxflow :: "lws_env \<Rightarrow> rx_report \<Rightarrow> lws \<Rightarrow> int \<times> lws" where
  "user_callback_handle_rxflow E r w = (user_callback E (reports w) r, tell r w)"

definition lws_partial_buffered :: "lws \<Rightarrow> bool" where
  "lws_partial_buffered w \<longleftrightarrow> trunc_len w \<noteq> 0"

section \<open>The end of a frame, or a full buffer\<close>

definition process_as_ping :: "lws \<Rightarrow> int \<times> lws" where
  "process_as_ping w =
     (if length (rx_ubuf w) > 128 - 3 then (0, w\<lparr>rx_ubuf := []\<rparr>)
      else (0, (tell Rx_Want_Writeable
                  (w\<lparr>ping_payload := rx_ubuf w, ping_pending_flag := True\<rparr>))\<lparr>rx_ubuf := []\<rparr>))"

definition pass_payload :: "lws_env \<Rightarrow> bool \<Rightarrow> lws \<Rightarrow> int \<times> lws" where
  "pass_payload E pong w =
     (if wsi_state w = LWSS_RETURNED_CLOSE_ALREADY \<or> wsi_state w = LWSS_AWAITING_CLOSE_ACK
      then (0, w\<lparr>rx_ubuf := []\<rparr>)
      else if length (rx_ubuf w) > 0 \<or> pong then
        let (ret, w) = user_callback_handle_rxflow E ((if pong then Rx_Pong else Rx_Receive) (rx_ubuf w)) w
        in (ret, w\<lparr>rx_ubuf := []\<rparr>)
      else (0, w\<lparr>rx_ubuf := []\<rparr>))"

definition spill_close :: "lws_env \<Rightarrow> lws \<Rightarrow> int \<times> lws" where
  "spill_close E w =
     (if wsi_state w = LWSS_AWAITING_CLOSE_ACK then (- 1, w)
      else if wsi_state w = LWSS_RETURNED_CLOSE_ALREADY then (- 1, w)
      else if lws_partial_buffered w then (- 1, w\<lparr>socket_is_permanently_unusable := True\<rparr>)
      else let (n, w) = user_callback_handle_rxflow E (Rx_Peer_Close (rx_ubuf w)) w
        in if n \<noteq> 0 then (- 1, w)
           else process_as_ping (w\<lparr>wsi_state := LWSS_RETURNED_CLOSE_ALREADY, payload_is_close := True\<rparr>))"

definition spill :: "lws_env \<Rightarrow> lws \<Rightarrow> int \<times> lws" where
  "spill E w =
     (if opcode w = LWSWSOPC_CLOSE then spill_close E w
      else if opcode w = LWSWSOPC_PING then
        (if ping_pending_flag w then (0, w\<lparr>rx_ubuf := []\<rparr>) else process_as_ping w)
      else if opcode w = LWSWSOPC_PONG then pass_payload E True (w\<lparr>waiting_for_pong := False\<rparr>)
      else if opcode w = LWSWSOPC_TEXT_FRAME \<or> opcode w = LWSWSOPC_BINARY_FRAME
        \<or> opcode w = LWSWSOPC_CONTINUATION then pass_payload E False w
      else (0, w\<lparr>rx_ubuf := []\<rparr>))"

section \<open>One byte\<close>

definition handle_first :: "u8 \<Rightarrow> lws \<Rightarrow> int \<times> lws" where
  "handle_first c w =
     (let w = w\<lparr>opcode := c AND 0xf, rsv := c AND 0x70, final_frame := drop_bit 7 c AND 1 \<noteq> 0\<rparr>
      in if opcode w = LWSWSOPC_TEXT_FRAME \<or> opcode w = LWSWSOPC_BINARY_FRAME then
           (0, w\<lparr>rsv_first_msg := c AND 0x70, frame_is_binary := (opcode w = LWSWSOPC_BINARY_FRAME),
                 lws_rx_parse_state := LWS_RXPS_04_FRAME_HDR_LEN\<rparr>)
         else if opcode w \<in> {3, 4, 5, 6, 7, 0xb, 0xc, 0xd, 0xe, 0xf} then (- 1, w)
         else (0, w\<lparr>lws_rx_parse_state := LWS_RXPS_04_FRAME_HDR_LEN\<rparr>))"

definition header_length :: "lws_env \<Rightarrow> u8 \<Rightarrow> lws \<Rightarrow> int \<times> lws" where
  "header_length E c w =
     (let w = w\<lparr>this_frame_masked := c AND 0x80 \<noteq> 0\<rparr>
      in if c AND 0x7f = 126 then
           (if opcode w AND 8 \<noteq> 0 then (- 1, w)
            else (0, w\<lparr>lws_rx_parse_state := LWS_RXPS_04_FRAME_HDR_LEN16_2\<rparr>))
         else if c AND 0x7f = 127 then
           (if opcode w AND 8 \<noteq> 0 then (- 1, w)
            else (0, w\<lparr>lws_rx_parse_state := LWS_RXPS_04_FRAME_HDR_LEN64_8\<rparr>))
         else
           let w = w\<lparr>rx_packet_length := ucast (c AND 0x7f)\<rparr>
           in if this_frame_masked w then (0, w\<lparr>lws_rx_parse_state := LWS_RXPS_07_COLLECT_FRAME_KEY_1\<rparr>)
              else if rx_packet_length w \<noteq> 0 then
                (0, w\<lparr>lws_rx_parse_state := LWS_RXPS_PAYLOAD_UNTIL_LENGTH_EXHAUSTED\<rparr>)
              else spill E (w\<lparr>lws_rx_parse_state := LWS_RXPS_NEW\<rparr>))"

definition length_byte :: "nat \<Rightarrow> lws_rx_parse_state \<Rightarrow> u8 \<Rightarrow> lws \<Rightarrow> int \<times> lws" where
  "length_byte k s c w =
     (0, w\<lparr>rx_packet_length := rx_packet_length w OR push_bit k (ucast c), lws_rx_parse_state := s\<rparr>)"

definition length_end :: "u8 \<Rightarrow> lws \<Rightarrow> int \<times> lws" where
  "length_end c w =
     length_byte 0 (if this_frame_masked w then LWS_RXPS_07_COLLECT_FRAME_KEY_1
                    else LWS_RXPS_PAYLOAD_UNTIL_LENGTH_EXHAUSTED) c w"

definition key_byte :: "nat \<Rightarrow> lws_rx_parse_state \<Rightarrow> u8 \<Rightarrow> lws \<Rightarrow> lws" where
  "key_byte i s c w =
     w\<lparr>ws_mask := (ws_mask w)[i := c], all_zero_nonce := (c = 0 \<and> all_zero_nonce w), lws_rx_parse_state := s\<rparr>"

definition key_end :: "lws_env \<Rightarrow> u8 \<Rightarrow> lws \<Rightarrow> int \<times> lws" where
  "key_end E c w =
     (let w = (key_byte 3 LWS_RXPS_PAYLOAD_UNTIL_LENGTH_EXHAUSTED c w)\<lparr>mask_idx := 0\<rparr>
      in if rx_packet_length w = 0 then spill E (w\<lparr>lws_rx_parse_state := LWS_RXPS_NEW\<rparr>) else (0, w))"

definition store_byte :: "u8 \<Rightarrow> lws \<Rightarrow> lws" where
  "store_byte c w =
     (let w = (if all_zero_nonce w then w\<lparr>rx_ubuf := rx_ubuf w @ [c]\<rparr>
               else w\<lparr>rx_ubuf := rx_ubuf w @ [c XOR ws_mask w ! unat (mask_idx w AND 3)],
                      mask_idx := mask_idx w + 1\<rparr>)
      in w\<lparr>rx_packet_length := rx_packet_length w - 1\<rparr>)"

definition payload_end :: "lws_env \<Rightarrow> lws \<Rightarrow> int \<times> lws" where
  "payload_end E w =
     (if rx_packet_length w = 0 then spill E (w\<lparr>lws_rx_parse_state := LWS_RXPS_NEW\<rparr>)
      else if length (rx_ubuf w) \<noteq> buffer_size E then (0, w)
      else spill E w)"

definition payload_byte :: "lws_env \<Rightarrow> u8 \<Rightarrow> lws \<Rightarrow> int \<times> lws" where
  "payload_byte E c w =
     (if length (rx_ubuf w) \<ge> buffer_size E then (- 1, w) else payload_end E (store_byte c w))"

definition lws_rx_sm :: "lws_env \<Rightarrow> u8 \<Rightarrow> lws \<Rightarrow> int \<times> lws" where
  "lws_rx_sm E c w =
     (if socket_is_permanently_unusable w then (- 1, w)
      else case lws_rx_parse_state w of
        LWS_RXPS_NEW \<Rightarrow>
          if ietf_spec_revision w = 13 then handle_first c (w\<lparr>all_zero_nonce := True\<rparr>) else (0, w)
      | LWS_RXPS_04_mask_1 \<Rightarrow> (0, key_byte 1 LWS_RXPS_04_mask_2 c w)
      | LWS_RXPS_04_mask_2 \<Rightarrow> (0, key_byte 2 LWS_RXPS_04_mask_3 c w)
      | LWS_RXPS_04_mask_3 \<Rightarrow> (0, (key_byte 3 LWS_RXPS_04_FRAME_HDR_1 c w)\<lparr>mask_idx := 0\<rparr>)
      | LWS_RXPS_04_FRAME_HDR_1 \<Rightarrow> handle_first c w
      | LWS_RXPS_04_FRAME_HDR_LEN \<Rightarrow> header_length E c w
      | LWS_RXPS_04_FRAME_HDR_LEN16_2 \<Rightarrow>
          length_byte 8 LWS_RXPS_04_FRAME_HDR_LEN16_1 c (w\<lparr>rx_packet_length := 0\<rparr>)
      | LWS_RXPS_04_FRAME_HDR_LEN16_1 \<Rightarrow> length_end c w
      | LWS_RXPS_04_FRAME_HDR_LEN64_8 \<Rightarrow>
          if c AND 0x80 \<noteq> 0 then (- 1, w)
          else (0, w\<lparr>rx_packet_length := 0, lws_rx_parse_state := LWS_RXPS_04_FRAME_HDR_LEN64_7\<rparr>)
      | LWS_RXPS_04_FRAME_HDR_LEN64_7 \<Rightarrow> (0, w\<lparr>lws_rx_parse_state := LWS_RXPS_04_FRAME_HDR_LEN64_6\<rparr>)
      | LWS_RXPS_04_FRAME_HDR_LEN64_6 \<Rightarrow> (0, w\<lparr>lws_rx_parse_state := LWS_RXPS_04_FRAME_HDR_LEN64_5\<rparr>)
      | LWS_RXPS_04_FRAME_HDR_LEN64_5 \<Rightarrow> (0, w\<lparr>lws_rx_parse_state := LWS_RXPS_04_FRAME_HDR_LEN64_4\<rparr>)
      | LWS_RXPS_04_FRAME_HDR_LEN64_4 \<Rightarrow> length_byte 24 LWS_RXPS_04_FRAME_HDR_LEN64_3 c w
      | LWS_RXPS_04_FRAME_HDR_LEN64_3 \<Rightarrow> length_byte 16 LWS_RXPS_04_FRAME_HDR_LEN64_2 c w
      | LWS_RXPS_04_FRAME_HDR_LEN64_2 \<Rightarrow> length_byte 8 LWS_RXPS_04_FRAME_HDR_LEN64_1 c w
      | LWS_RXPS_04_FRAME_HDR_LEN64_1 \<Rightarrow> length_end c w
      | LWS_RXPS_07_COLLECT_FRAME_KEY_1 \<Rightarrow> (0, key_byte 0 LWS_RXPS_07_COLLECT_FRAME_KEY_2 c w)
      | LWS_RXPS_07_COLLECT_FRAME_KEY_2 \<Rightarrow> (0, key_byte 1 LWS_RXPS_07_COLLECT_FRAME_KEY_3 c w)
      | LWS_RXPS_07_COLLECT_FRAME_KEY_3 \<Rightarrow> (0, key_byte 2 LWS_RXPS_07_COLLECT_FRAME_KEY_4 c w)
      | LWS_RXPS_07_COLLECT_FRAME_KEY_4 \<Rightarrow> key_end E c w
      | LWS_RXPS_PAYLOAD_UNTIL_LENGTH_EXHAUSTED \<Rightarrow> payload_byte E c w)"

section \<open>The bulk of a payload\<close>

fun unmask_fours :: "u8 list \<Rightarrow> nat \<Rightarrow> u8 list \<Rightarrow> u8 list" where
  "unmask_fours m (Suc n) (a # b # c # d # buf) =
     (a XOR m ! 0) # (b XOR m ! 1) # (c XOR m ! 2) # (d XOR m ! 3) # unmask_fours m n buf"
| "unmask_fours m n buf = map (\<lambda>(b, k). b XOR k) (zip buf m)"

definition lws_payload_until_length_exhausted :: "lws_env \<Rightarrow> u8 list \<Rightarrow> lws \<Rightarrow> u8 list \<times> lws" where
  "lws_payload_until_length_exhausted E buf w =
     (let avail = (of_nat (buffer_size E) :: u32) - of_nat (length (rx_ubuf w));
          avail = (if avail > rx_packet_length w then rx_packet_length w else avail);
          avail = (if unat avail > length buf then length buf else unat avail)
      in if avail \<le> 1 then (buf, w)
         else
           let avail = avail - 1;
               m = map (\<lambda>n. ws_mask w ! unat ((mask_idx w + n) AND 3)) [0, 1, 2, 3];
               (bs, i) = (if all_zero_nonce w then (take avail buf, mask_idx w)
                          else (unmask_fours m (avail div 4) (take avail buf),
                                (mask_idx w + of_nat avail) AND 3))
           in (drop avail buf,
               w\<lparr>mask_idx := i, rx_ubuf := rx_ubuf w @ bs, rx_packet_length := rx_packet_length w - of_nat avail\<rparr>))"

lemma bulk_leaves_one: "buf \<noteq> [] \<Longrightarrow> fst (lws_payload_until_length_exhausted E buf w) \<noteq> []"
  by (auto simp: lws_payload_until_length_exhausted_def Let_def)

lemma bulk_takes_no_more: "length (fst (lws_payload_until_length_exhausted E buf w)) \<le> length buf"
  by (auto simp: lws_payload_until_length_exhausted_def Let_def)

definition consume_payload :: "lws_env \<Rightarrow> u8 list \<Rightarrow> lws \<Rightarrow> u8 list \<times> lws" where
  "consume_payload E buf w =
     (if lws_rx_parse_state w = LWS_RXPS_PAYLOAD_UNTIL_LENGTH_EXHAUSTED
      then lws_payload_until_length_exhausted E buf w else (buf, w))"

function lws_interpret_incoming_packet :: "lws_env \<Rightarrow> u8 list \<Rightarrow> lws \<Rightarrow> int \<times> lws" where
  "lws_interpret_incoming_packet E buf w =
     (if buf = [] then (0, w)
      else
        let (buf', w) = consume_payload E buf w;
            (m, w) = lws_rx_sm E (hd buf') w
        in if m < 0 then (- 1, w) else lws_interpret_incoming_packet E (tl buf') w)"
  by pat_completeness auto

termination
proof (relation "measure (\<lambda>(E, buf, w). length buf)")
  fix E :: lws_env and buf :: "u8 list" and w x a w' y m w''
  assume "buf \<noteq> []" and x: "x = consume_payload E buf w" "(a, w') = x"
  then have "length a \<le> length buf" and "a \<noteq> []"
    using bulk_takes_no_more [of E buf w] bulk_leaves_one [of buf E w] by (auto simp: consume_payload_def split: if_splits dest!: arg_cong [where f = fst])
  then show "((E, tl a, w''), (E, buf, w)) \<in> measure (\<lambda>(E, buf, w). length buf)"
    by (cases a) auto
qed simp

declare lws_interpret_incoming_packet.simps [simp del]

section \<open>Masks\<close>

text \<open>A mask applied from an index on: what masks a payload, and what takes the mask off.\<close>

fun xor_stream :: "u8 list \<Rightarrow> u8 \<Rightarrow> u8 list \<Rightarrow> u8 list" where
  "xor_stream m i [] = []"
| "xor_stream m i (b # bs) = (b XOR m ! unat (i AND 3)) # xor_stream m (i + 1) bs"

lemma length_xor_stream [simp]: "length (xor_stream m i bs) = length bs"
  by (induction m i bs rule: xor_stream.induct) auto

lemma unat_and_3: "unat (x AND 3 :: u8) = unat x mod 4"
proof -
  have "x AND 3 = take_bit 2 x" unfolding take_bit_eq_mask mask_eq_exp_minus_1 by simp
  then have "unat (x AND 3) = take_bit 2 (unat x)" by (simp only: unsigned_take_bit_eq)
  then show ?thesis by (simp add: take_bit_eq_mod)
qed

lemma and_3_iff: "i AND 3 = j AND 3 \<longleftrightarrow> unat i mod 4 = unat (j :: u8) mod 4"
  unfolding word_unat_eq_iff [of "i AND 3"] unat_and_3 ..

lemma unat_add_mod_4: "unat (i + k :: u8) mod 4 = (unat i mod 4 + unat k) mod 4"
  by (simp add: unat_word_ariths mod_mod_cancel mod_add_left_eq)

lemma and_3_add: "i AND 3 = j AND 3 \<Longrightarrow> (i + k) AND 3 = (j + k :: u8) AND 3"
  by (simp add: and_3_iff unat_add_mod_4)

lemma and_3_4: "(i + 4) AND 3 = (i AND 3 :: u8)"
  by (simp add: and_3_iff unat_add_mod_4)

lemma xor_stream_and_3: "i AND 3 = j AND 3 \<Longrightarrow> xor_stream m i bs = xor_stream m j bs"
proof (induction bs arbitrary: i j)
  case (Cons b bs)
  show ?case using Cons.prems Cons.IH [OF and_3_add [OF Cons.prems, of 1]] by simp
qed simp

lemma xor_stream_involution [simp]: "xor_stream m i (xor_stream m i bs) = bs"
  by (induction m i bs rule: xor_stream.induct) (auto simp: xor.assoc)

lemma xor_stream_zero:
  assumes "\<And>j. m ! unat (j AND 3 :: u8) = 0"
  shows "xor_stream m i bs = bs"
  by (induction bs arbitrary: i) (simp_all add: assms)

lemma xor_stream_append: "xor_stream m i (bs @ cs) = xor_stream m i bs @ xor_stream m (i + of_nat (length bs)) cs"
  by (induction m i bs rule: xor_stream.induct) (auto simp: algebra_simps)

lemma four_or_more:
  assumes "length buf div 4 = Suc n"
  obtains a b c d rest where "buf = a # b # c # d # rest" "length rest div 4 = n"
  using assms by (cases buf; cases "tl buf"; cases "tl (tl buf)"; cases "tl (tl (tl buf))") auto

lemma xor_stream_four:
  "xor_stream m i (a # b # c # d # rest) =
     (a XOR m ! unat (i AND 3)) # (b XOR m ! unat ((i + 1) AND 3)) # (c XOR m ! unat ((i + 2) AND 3))
     # (d XOR m ! unat ((i + 3) AND 3)) # xor_stream m i rest"
  using xor_stream_and_3 [OF and_3_4, of m i rest] by (simp add: add.assoc)

lemma unmask_fours_stream:
  assumes "length buf div 4 = n"
  shows "unmask_fours (map (\<lambda>n. m ! unat ((i + n) AND 3)) [0, 1, 2, 3]) n buf = xor_stream m i buf"
  using assms
proof (induction n arbitrary: buf)
  case 0
  then have "length buf < 4" by simp
  then show ?case
    by (cases buf; cases "tl buf"; cases "tl (tl buf)"; cases "tl (tl (tl buf))") (auto simp: add.assoc)
next
  case (Suc n)
  from Suc.prems obtain a b c d rest where buf: "buf = a # b # c # d # rest" "length rest div 4 = n"
    by (erule four_or_more)
  show ?case unfolding buf(1) unmask_fours.simps xor_stream_four Suc.IH [OF buf(2)] by simp
qed

section \<open>The bulk routine does what the state machine does\<close>

text \<open>The state machine alone, byte by byte.\<close>

fun rx_bytes :: "lws_env \<Rightarrow> u8 list \<Rightarrow> lws \<Rightarrow> int \<times> lws" where
  "rx_bytes E [] w = (0, w)"
| "rx_bytes E (c # buf) w = (let (m, w) = lws_rx_sm E c w in if m < 0 then (- 1, w) else rx_bytes E buf w)"

text \<open>Of \<open>mask_idx\<close> only the lower two bits matter.\<close>

definition same_rx :: "lws \<Rightarrow> lws \<Rightarrow> bool" where
  "same_rx w w' \<longleftrightarrow> w\<lparr>mask_idx := mask_idx w AND 3\<rparr> = w'\<lparr>mask_idx := mask_idx w' AND 3\<rparr>"

lemma same_rx_refl [simp]: "same_rx w w"
  by (simp add: same_rx_def)

lemma same_rx_update [simp]: "same_rx (w\<lparr>mask_idx := i\<rparr>) (w\<lparr>mask_idx := j\<rparr>) \<longleftrightarrow> i AND 3 = j AND 3"
  by (cases w) (simp add: same_rx_def)

lemma same_rxE:
  assumes "same_rx w w'"
  obtains i where "w' = w\<lparr>mask_idx := i\<rparr>" "i AND 3 = mask_idx w AND 3"
  using assms by (cases w; cases w') (simp add: same_rx_def)

lemmas rx_parts = spill_def spill_close_def process_as_ping_def pass_payload_def tell_def
  user_callback_handle_rxflow_def lws_partial_buffered_def

lemma spill_mask_idx: "spill E (w\<lparr>mask_idx := i\<rparr>) = map_prod id (\<lambda>w. w\<lparr>mask_idx := i\<rparr>) (spill E w)"
  by (simp add: rx_parts)

lemma spill_keeps [simp]: "mask_idx (snd (spill E w)) = mask_idx w"
  by (simp add: rx_parts)

definition rx_rel :: "int \<times> lws \<Rightarrow> int \<times> lws \<Rightarrow> bool" where
  "rx_rel r r' \<longleftrightarrow> fst r = fst r' \<and> same_rx (snd r) (snd r')"

lemma rx_relI:
  assumes "r' = map_prod id (\<lambda>w. w\<lparr>mask_idx := i\<rparr>) r" and "i AND 3 = mask_idx (snd r) AND 3"
  shows "rx_rel r r'"
  using assms by (cases r; cases "snd r") (simp add: rx_rel_def same_rx_def)

lemma mask_idx_last:
  "w\<lparr>mask_idx := i, lws_rx_parse_state := s\<rparr> = w\<lparr>lws_rx_parse_state := s, mask_idx := i\<rparr>"
  "w\<lparr>mask_idx := i, all_zero_nonce := b\<rparr> = w\<lparr>all_zero_nonce := b, mask_idx := i\<rparr>"
  "w\<lparr>mask_idx := i, this_frame_masked := b\<rparr> = w\<lparr>this_frame_masked := b, mask_idx := i\<rparr>"
  "w\<lparr>mask_idx := i, rx_packet_length := n\<rparr> = w\<lparr>rx_packet_length := n, mask_idx := i\<rparr>"
  by simp_all

lemma payload_end_rel:
  "i AND 3 = mask_idx w AND 3 \<Longrightarrow> rx_rel (payload_end E w) (payload_end E (w\<lparr>mask_idx := i\<rparr>))"
  by (intro rx_relI [where i = i]) (simp_all add: payload_end_def spill_mask_idx mask_idx_last)

lemma payload_byte_rel:
  assumes "i AND 3 = mask_idx w AND 3"
  shows "rx_rel (payload_byte E c w) (payload_byte E c (w\<lparr>mask_idx := i\<rparr>))"
proof -
  obtain j where j: "store_byte c (w\<lparr>mask_idx := i\<rparr>) = (store_byte c w)\<lparr>mask_idx := j\<rparr>"
      "j AND 3 = mask_idx (store_byte c w) AND 3"
  proof
    let ?j = "if all_zero_nonce w then i else i + 1"
    show "store_byte c (w\<lparr>mask_idx := i\<rparr>) = (store_byte c w)\<lparr>mask_idx := ?j\<rparr>"
      using assms by (simp add: store_byte_def)
    show "?j AND 3 = mask_idx (store_byte c w) AND 3"
      using assms and_3_add [OF assms, of 1] by (simp add: store_byte_def)
  qed
  show ?thesis using payload_end_rel [OF j(2), of E] assms
    by (auto simp: payload_byte_def j(1) intro: rx_relI [where i = i])
qed

lemma header_length_mask_idx:
  "header_length E c (w\<lparr>mask_idx := i\<rparr>) = map_prod id (\<lambda>w. w\<lparr>mask_idx := i\<rparr>) (header_length E c w)"
  by (simp add: header_length_def Let_def mask_idx_last spill_mask_idx)

lemma header_length_keeps [simp]: "mask_idx (snd (header_length E c w)) = mask_idx w"
  by (simp add: header_length_def Let_def)

lemma handle_first_mask_idx:
  "handle_first c (w\<lparr>mask_idx := i\<rparr>) = map_prod id (\<lambda>w. w\<lparr>mask_idx := i\<rparr>) (handle_first c w)"
  by (simp add: handle_first_def Let_def)

lemma handle_first_keeps [simp]: "mask_idx (snd (handle_first c w)) = mask_idx w"
  by (simp add: handle_first_def Let_def)

lemma rx_rel_refl [simp]: "rx_rel r r"
  by (simp add: rx_rel_def)

lemma key_end_mask_idx: "key_end E c (w\<lparr>mask_idx := i\<rparr>) = key_end E c w"
  by (simp add: key_end_def key_byte_def Let_def)

lemma lws_rx_sm_rel:
  assumes "i AND 3 = mask_idx w AND 3"
  shows "rx_rel (lws_rx_sm E c w) (lws_rx_sm E c (w\<lparr>mask_idx := i\<rparr>))"
proof (cases "socket_is_permanently_unusable w")
  case True
  then show ?thesis using assms by (simp add: lws_rx_sm_def rx_relI [where i = i])
next
  case False
  show ?thesis
    using assms False payload_byte_rel [OF assms]
    by (cases "lws_rx_parse_state w")
      (auto simp: lws_rx_sm_def mask_idx_last handle_first_mask_idx header_length_mask_idx key_end_mask_idx length_byte_def length_end_def
        key_byte_def intro!: rx_relI [where i = i])
qed

text \<open>
  A connection that receives: the socket is usable and the buffer holds no more than it is long.
  \<open>rx_kept\<close> is what every part of the state machine makes of it.
\<close>

definition rx_ok :: "lws_env \<Rightarrow> lws \<Rightarrow> bool" where
  "rx_ok E w \<longleftrightarrow> \<not> socket_is_permanently_unusable w \<and> length (rx_ubuf w) \<le> buffer_size E"

definition rx_kept :: "lws_env \<Rightarrow> int \<times> lws \<Rightarrow> bool" where
  "rx_kept E r \<longleftrightarrow> length (rx_ubuf (snd r)) \<le> buffer_size E \<and> (0 \<le> fst r \<longrightarrow> \<not> socket_is_permanently_unusable (snd r))"

lemma spill_kept: "rx_ok E w \<Longrightarrow> rx_kept E (spill E w)"
  by (auto simp: rx_ok_def rx_kept_def rx_parts split: if_splits)

lemma payload_byte_kept: "rx_ok E w \<Longrightarrow> rx_kept E (payload_byte E c w)"
  unfolding payload_byte_def payload_end_def
  by (auto simp: store_byte_def rx_ok_def intro!: spill_kept) (auto simp: rx_kept_def)

lemma header_length_kept: "rx_ok E w \<Longrightarrow> rx_kept E (header_length E c w)"
  unfolding header_length_def Let_def
  by (auto simp: rx_ok_def intro!: spill_kept) (auto simp: rx_kept_def)

lemma key_end_kept: "rx_ok E w \<Longrightarrow> rx_kept E (key_end E c w)"
  unfolding key_end_def Let_def
  by (auto simp: rx_ok_def key_byte_def intro!: spill_kept) (auto simp: rx_kept_def)

lemma lws_rx_sm_kept: "rx_ok E w \<Longrightarrow> rx_kept E (lws_rx_sm E c w)"
  by (cases "lws_rx_parse_state w")
    (simp_all add: lws_rx_sm_def payload_byte_kept header_length_kept key_end_kept, simp_all add: rx_ok_def rx_kept_def
      handle_first_def length_byte_def length_end_def key_byte_def Let_def)

lemma lws_rx_sm_ok: "rx_ok E w \<Longrightarrow> lws_rx_sm E c w = (m, w') \<Longrightarrow> 0 \<le> m \<Longrightarrow> rx_ok E w'"
  using lws_rx_sm_kept [of E w c] by (simp add: rx_kept_def rx_ok_def)

text \<open>A part of a payload that neither ends it nor fills the buffer, byte by byte.\<close>

definition take_in :: "u8 list \<Rightarrow> lws \<Rightarrow> lws" where
  "take_in bs w =
     w\<lparr>rx_ubuf := rx_ubuf w @ (if all_zero_nonce w then bs else xor_stream (ws_mask w) (mask_idx w) bs),
       mask_idx := mask_idx w + (if all_zero_nonce w then 0 else of_nat (length bs)),
       rx_packet_length := rx_packet_length w - of_nat (length bs)\<rparr>"

lemma take_in_simps [simp]:
  "take_in [] w = w"
  "lws_rx_parse_state (take_in bs w) = lws_rx_parse_state w"
  "socket_is_permanently_unusable (take_in bs w) = socket_is_permanently_unusable w"
  "length (rx_ubuf (take_in bs w)) = length (rx_ubuf w) + length bs"
  "all_zero_nonce (take_in bs w) = all_zero_nonce w"
  "rx_packet_length (take_in bs w) = rx_packet_length w - of_nat (length bs)"
  by (simp_all add: take_in_def)

lemma take_in_Cons: "take_in bs (store_byte c w) = take_in (c # bs) w"
  by (cases "all_zero_nonce w") (simp_all add: take_in_def store_byte_def algebra_simps)

lemma unat_minus_1: "x \<noteq> 0 \<Longrightarrow> unat (x - 1 :: u32) = unat x - 1"
  by (simp add: unat_minus_one)

lemma payload_byte_stores:
  assumes "length (rx_ubuf w) + 1 < buffer_size E" and "1 < unat (rx_packet_length w)"
  shows "payload_byte E c w = (0, store_byte c w)"
proof -
  have "rx_packet_length w - 1 \<noteq> 0" using assms(2) by auto
  then show ?thesis using assms(1) by (auto simp: payload_byte_def payload_end_def store_byte_def)
qed

lemma rx_bytes_take_in:
  assumes "lws_rx_parse_state w = LWS_RXPS_PAYLOAD_UNTIL_LENGTH_EXHAUSTED" and "\<not> socket_is_permanently_unusable w"
    and "length (rx_ubuf w) + length bs < buffer_size E" and "length bs < unat (rx_packet_length w)"
  shows "rx_bytes E (bs @ buf) w = rx_bytes E buf (take_in bs w)"
  using assms
proof (induction bs arbitrary: w)
  case (Cons c bs)
  then have st: "payload_byte E c w = (0, store_byte c w)" by (intro payload_byte_stores) auto
  have "unat (rx_packet_length w - 1) = unat (rx_packet_length w) - 1"
    using Cons.prems(4) by (intro unat_minus_1) auto
  then have "rx_bytes E (bs @ buf) (store_byte c w) = rx_bytes E buf (take_in bs (store_byte c w))"
    using Cons.prems by (intro Cons.IH) (auto simp: store_byte_def)
  then show ?case using Cons.prems by (simp add: lws_rx_sm_def st take_in_Cons)
qed simp

lemma rx_rel_trans [trans]: "rx_rel r s \<Longrightarrow> rx_rel s t \<Longrightarrow> rx_rel r t"
  by (simp add: rx_rel_def same_rx_def)

lemma rx_bytes_rel: "same_rx w w' \<Longrightarrow> rx_rel (rx_bytes E buf w) (rx_bytes E buf w')"
proof (induction buf arbitrary: w w')
  case Nil
  then show ?case by (simp add: rx_rel_def)
next
  case (Cons c buf)
  from Cons.prems obtain i where "w' = w\<lparr>mask_idx := i\<rparr>" "i AND 3 = mask_idx w AND 3" by (rule same_rxE)
  then have rel: "rx_rel (lws_rx_sm E c w) (lws_rx_sm E c w')" using lws_rx_sm_rel by simp
  show ?case
  proof (cases "fst (lws_rx_sm E c w) < 0")
    case True
    then show ?thesis using rel by (auto simp: rx_rel_def split: prod.splits)
  next
    case False
    then have "rx_bytes E (c # buf) w = rx_bytes E buf (snd (lws_rx_sm E c w))"
      and "rx_bytes E (c # buf) w' = rx_bytes E buf (snd (lws_rx_sm E c w'))"
      using rel by (auto simp: rx_rel_def split: prod.splits)
    then show ?thesis using Cons.IH rel by (simp add: rx_rel_def)
  qed
qed

lemma same_rx_sym: "same_rx w w' \<Longrightarrow> same_rx w' w"
  by (simp add: same_rx_def)

lemma and_3_and_3 [simp]: "(x AND 3) AND 3 = (x AND 3 :: u8)"
  by (simp add: and.assoc)

lemma bulk_is_bytewise:
  assumes "rx_ok E w" and st: "lws_rx_parse_state w = LWS_RXPS_PAYLOAD_UNTIL_LENGTH_EXHAUSTED"
    and size: "buffer_size E < 2 ^ 32" and bulk: "lws_payload_until_length_exhausted E buf w = (buf', w')"
  obtains w2 where "rx_bytes E buf w = rx_bytes E buf' w2" "same_rx w2 w'" "rx_ok E w'"
proof -
  let ?room = "(of_nat (buffer_size E) :: u32) - of_nat (length (rx_ubuf w))"
  let ?a = "if ?room > rx_packet_length w then rx_packet_length w else ?room"
  let ?n = "if unat ?a > length buf then length buf else unat ?a"
  have "length (rx_ubuf w) \<le> buffer_size E" using assms(1) by (simp add: rx_ok_def)
  then have "?room = of_nat (buffer_size E - length (rx_ubuf w))" by (simp add: of_nat_diff)
  then have room: "unat ?room = buffer_size E - length (rx_ubuf w)"
    using size by (simp add: unsigned_of_nat take_bit_nat_eq_self)
  have a: "unat ?a \<le> unat ?room" "unat ?a \<le> unat (rx_packet_length w)"
    by (auto simp: word_less_nat_alt)
  show thesis
  proof (cases "?n \<le> 1")
    case True
    then have "buf' = buf" "w' = w" using bulk by (simp_all add: lws_payload_until_length_exhausted_def Let_def)
    then show thesis using that assms(1) by simp
  next
    case False
    define k where "k = ?n - 1"
    have k: "k + 1 \<le> unat ?room" "k + 1 \<le> unat (rx_packet_length w)" "k + 1 \<le> length buf" "?n = Suc k"
      using False a unfolding k_def by (auto split: if_splits)
    have fours: "unmask_fours (map (\<lambda>n. ws_mask w ! unat ((mask_idx w + n) AND 3)) [0, 1, 2, 3]) (k div 4) (take k buf)
        = xor_stream (ws_mask w) (mask_idx w) (take k buf)"
      using k(3) by (intro unmask_fours_stream) simp
    have res: "buf' = drop k buf" "same_rx (take_in (take k buf) w) w'" "length (rx_ubuf w') = length (rx_ubuf w) + k"
       "socket_is_permanently_unusable w' = socket_is_permanently_unusable w"
      using bulk fours k(3) False
      by (auto simp: lws_payload_until_length_exhausted_def Let_def k(4) take_in_def same_rx_def min_absorb2 simp flip: k_def
          split: if_splits)
    have "rx_bytes E (take k buf @ drop k buf) w = rx_bytes E (drop k buf) (take_in (take k buf) w)"
      using assms(1) st k room by (intro rx_bytes_take_in) (auto simp: rx_ok_def)
    then show thesis using that [OF _ res(2)] res assms(1) k(1) room by (simp add: rx_ok_def)
  qed
qed

lemma consume_payload_bytewise:
  assumes "rx_ok E w" and "buffer_size E < 2 ^ 32" and "consume_payload E buf w = (buf', w')"
  obtains w2 where "rx_bytes E buf w = rx_bytes E buf' w2" "same_rx w2 w'" "rx_ok E w'"
proof (cases "lws_rx_parse_state w = LWS_RXPS_PAYLOAD_UNTIL_LENGTH_EXHAUSTED")
  case True
  then have "lws_payload_until_length_exhausted E buf w = (buf', w')" using assms(3) by (simp add: consume_payload_def)
  from bulk_is_bytewise [OF assms(1) True assms(2) this] that show thesis .
next
  case False
  then show thesis using that assms by (simp add: consume_payload_def)
qed

lemma consume_payload_Cons:
  assumes "buf \<noteq> []" and "consume_payload E buf w = (buf', w')"
  obtains c rest where "buf' = c # rest" "length rest < length buf"
proof -
  have "buf' \<noteq> []" "length buf' \<le> length buf"
    using assms bulk_leaves_one [OF assms(1), of E w] bulk_takes_no_more [of E buf w]
    by (auto simp: consume_payload_def split: if_splits)
  then show thesis using that by (cases buf') auto
qed

lemma packet_is_bytewise:
  "rx_ok E w \<Longrightarrow> buffer_size E < 2 ^ 32 \<Longrightarrow>
     rx_rel (rx_bytes E buf w) (lws_interpret_incoming_packet E buf w)
     \<and> rx_kept E (lws_interpret_incoming_packet E buf w)"
proof (induction "length buf" arbitrary: buf w rule: less_induct)
  case less
  note size = less.prems(2)
  show ?case
  proof (cases "buf = []")
    case True
    then show ?thesis using less.prems
      by (simp add: lws_interpret_incoming_packet.simps rx_kept_def rx_ok_def)
  next
    case False
    obtain buf' w1 where cp: "consume_payload E buf w = (buf', w1)" by fastforce
    obtain c rest where buf': "buf' = c # rest" "length rest < length buf"
      using consume_payload_Cons [OF False cp] .
    obtain w2 where w2: "rx_bytes E buf w = rx_bytes E buf' w2" "same_rx w2 w1" "rx_ok E w1"
      using consume_payload_bytewise [OF less.prems cp] .
    obtain m w3 where sm: "lws_rx_sm E c w1 = (m, w3)" by fastforce
    have step: "lws_interpret_incoming_packet E buf w =
        (if m < 0 then (- 1, w3) else lws_interpret_incoming_packet E rest w3)"
      using False by (subst lws_interpret_incoming_packet.simps) (simp add: cp buf' sm)
    have bytes: "rx_rel (rx_bytes E buf w) (rx_bytes E buf' w1)" unfolding w2(1) by (rule rx_bytes_rel [OF w2(2)])
    show ?thesis
    proof (cases "m < 0")
      case True
      then show ?thesis using bytes step sm lws_rx_sm_kept [OF w2(3), of c] by (simp add: buf' rx_kept_def)
    next
      case False
      then have "rx_ok E w3" using lws_rx_sm_ok [OF w2(3) sm] by simp
      then have "rx_rel (rx_bytes E rest w3) (lws_interpret_incoming_packet E rest w3)"
          "rx_kept E (lws_interpret_incoming_packet E rest w3)"
        using less.hyps [OF buf'(2) _ size] by auto
      then show ?thesis using bytes step sm False by (auto simp: buf' intro: rx_rel_trans)
    qed
  qed
qed

text \<open>The packets of a connection, one after the other, until one of them ends it.\<close>

fun rx_packets :: "lws_env \<Rightarrow> u8 list list \<Rightarrow> lws \<Rightarrow> int \<times> lws" where
  "rx_packets E [] w = (0, w)"
| "rx_packets E (p # ps) w =
     (let (m, w) = lws_interpret_incoming_packet E p w in if m < 0 then (- 1, w) else rx_packets E ps w)"

lemma rx_bytes_append:
  "rx_bytes E (xs @ ys) w = (let (m, w) = rx_bytes E xs w in if m < 0 then (- 1, w) else rx_bytes E ys w)"
  by (induction xs arbitrary: w) (auto split: prod.splits)

lemma packets_rel:
  assumes "rx_ok E w" and "buffer_size E < 2 ^ 32"
  shows "rx_rel (rx_packets E ps w) (rx_bytes E (concat ps) w)"
  using assms(1)
proof (induction ps arbitrary: w)
  case (Cons p ps)
  obtain m w1 where p: "lws_interpret_incoming_packet E p w = (m, w1)" by fastforce
  obtain m' w2 where b: "rx_bytes E p w = (m', w2)" by fastforce
  have rel: "m' = m" "same_rx w2 w1" "rx_kept E (m, w1)"
    using packet_is_bytewise [OF Cons.prems assms(2), of p] by (simp_all add: p b rx_rel_def)
  have cut: "rx_bytes E (concat (p # ps)) w = (if m < 0 then (- 1, w2) else rx_bytes E (concat ps) w2)"
    by (simp add: rx_bytes_append b rel(1))
  show ?case
  proof (cases "m < 0")
    case True
    then show ?thesis unfolding cut using rel same_rx_sym by (simp add: p rx_rel_def)
  next
    case False
    then have "rx_ok E w1" using rel(3) by (simp add: rx_kept_def rx_ok_def)
    from Cons.IH [OF this] have "rx_rel (rx_packets E ps w1) (rx_bytes E (concat ps) w1)" .
    moreover have "rx_rel (rx_bytes E (concat ps) w1) (rx_bytes E (concat ps) w2)"
      by (rule rx_bytes_rel [OF same_rx_sym [OF rel(2)]])
    ultimately have "rx_rel (rx_packets E ps w1) (rx_bytes E (concat ps) w2)" by (rule rx_rel_trans)
    then show ?thesis unfolding cut using False by (simp add: p)
  qed
qed simp

text \<open>
  C7: however the bytes of a connection come in, cut into packets anywhere, the receiving side does
  the same as if the state machine had been given them one by one: the same reports to the
  program, the same answer, the same state, of the index into the mask the lower two bits.
\<close>

theorem packets_as_bytes:
  assumes "rx_ok E w" and "buffer_size E < 2 ^ 32"
  shows "fst (rx_packets E ps w) = fst (rx_bytes E (concat ps) w)
    \<and> same_rx (snd (rx_packets E ps w)) (snd (rx_bytes E (concat ps) w))"
  using packets_rel [OF assms, of ps] by (simp add: rx_rel_def)

text \<open>A connection as it is after the handshake, and a program that accepts everything.\<close>

definition ws_connection :: lws where
  "ws_connection = \<lparr>is_client = False, wsi_state = LWSS_ESTABLISHED, socket_is_permanently_unusable = False,
     ietf_spec_revision = 13, waiting_for_pong = False, trunc_alloc = None, trunc_offset = 0, trunc_len = 0,
     lws_rx_parse_state = LWS_RXPS_NEW, rx_ubuf = [], rx_packet_length = 0, ws_mask = [0, 0, 0, 0], mask_idx = 0,
     opcode = 0, rsv = 0, rsv_first_msg = 0, final_frame = False, frame_is_binary = False, all_zero_nonce = False,
     this_frame_masked = False, inside_frame = False, payload_is_close = False, ping_payload = [],
     ping_pending_flag = False, send_check_ping = False, reports = [], wire = []\<rparr>"

definition plain_env :: lws_env where
  "plain_env = \<lparr>buffer_size = 4096, user_callback = (\<lambda>_ _. 0), writeable_callback = (\<lambda>w. (0, w)),
     socket_send = (\<lambda>_ buf. int (length buf)), send_would_block = (\<lambda>_ _. True),
     malloc_succeeds = (\<lambda>_. True), random_bytes = (\<lambda>_. [1, 2, 3, 4])\<rparr>"

lemma rx_ok_connection [simp]: "rx_ok plain_env ws_connection"
  by (simp add: rx_ok_def plain_env_def ws_connection_def)

theorem packets_as_bytes_witness:
  "fst (rx_packets plain_env [[0x81], [0x82, 1, 2, 3], [4, 0x49, 0x4b]] ws_connection)
     = fst (rx_bytes plain_env [0x81, 0x82, 1, 2, 3, 4, 0x49, 0x4b] ws_connection)"
  using packets_as_bytes [of plain_env ws_connection "[[0x81], [0x82, 1, 2, 3], [4, 0x49, 0x4b]]"]
  by (simp add: plain_env_def [THEN arg_cong, of buffer_size] del: rx_packets.simps rx_bytes.simps)

text \<open>
  C16: whatever comes in, the buffer for a payload never holds more than \<open>buffer_size\<close> bytes, so
  nothing is written behind the memory allocated for it.
\<close>

theorem rx_stays_in_buffer:
  assumes "rx_ok E w" and "buffer_size E < 2 ^ 32"
  shows "length (rx_ubuf (snd (lws_interpret_incoming_packet E buf w))) \<le> buffer_size E"
  using packet_is_bytewise [OF assms, of buf] by (simp add: rx_kept_def)

theorem rx_stays_in_buffer_witness:
  "length (rx_ubuf (snd (lws_interpret_incoming_packet plain_env [0x82, 0xff, 1] ws_connection))) \<le> buffer_size plain_env"
  by (rule rx_stays_in_buffer) (simp_all add: plain_env_def [THEN arg_cong, of buffer_size])

end
