(* ===== verification/Lws_Tx.thy ===== *)
theory Lws_Tx
  imports Send_Queue Lws_Rx
begin

text \<open>
  The sending side of a web socket connection in libwebsockets: \<open>lws_write\<close> and \<open>lws_issue_raw\<close> of
  \<open>output.c\<close>, and \<open>lws_handle_POLLOUT_event\<close> of \<open>service.c\<close>, which runs when the socket can take
  more. What a socket does not take of a frame is kept in \<open>trunc_alloc\<close> and sent before anything
  else. \<open>wire\<close> is everything the socket has taken. The record \<open>lws\<close> is that of \<open>Lws_Rx\<close>;
  \<open>trunc_alloc\<close> is the content of the memory, so \<open>trunc_alloc_len\<close> is its length. The program
  registers no extensions and the build has neither HTTP/2 nor CGI, so what serves only them is
  left out, and so are timers, statistics and TLS. \<open>assert\<close> does nothing, as in the release build.
\<close>

section \<open>The socket\<close>

definition LWS_SSL_CAPABLE_ERROR :: int where
  "LWS_SSL_CAPABLE_ERROR = - 1"

definition LWS_SSL_CAPABLE_MORE_SERVICE :: int where
  "LWS_SSL_CAPABLE_MORE_SERVICE = - 2"

definition lws_ssl_capable_write_no_ssl :: "lws_env \<Rightarrow> u8 list \<Rightarrow> lws \<Rightarrow> int \<times> lws" where
  "lws_ssl_capable_write_no_ssl E buf w =
     (let n = socket_send E (wire w) buf
      in if n \<ge> 0 then (n, w\<lparr>wire := wire w @ take (nat n) buf\<rparr>)
         else if send_would_block E (wire w) buf then (LWS_SSL_CAPABLE_MORE_SERVICE, w)
         else (LWS_SSL_CAPABLE_ERROR, w))"

section \<open>Bytes that go out as they are\<close>

definition handle_truncated_send :: "lws_env \<Rightarrow> u8 list \<Rightarrow> nat \<Rightarrow> lws \<Rightarrow> int \<times> lws" where
  "handle_truncated_send E buf n w =
     (if trunc_len w \<noteq> 0 then
        let w = w\<lparr>trunc_offset := trunc_offset w + n, trunc_len := trunc_len w - n\<rparr>
        in if trunc_len w = 0 then
             if wsi_state w = LWSS_FLUSHING_STORED_SEND_BEFORE_CLOSE then (- 1, w)
             else (int (length buf), tell Rx_Want_Writeable w)
           else (int n, tell Rx_Want_Writeable w)
      else if n = length buf then (int n, w)
      else
        let rest = drop n buf;
            alloc = (case trunc_alloc w of
                None \<Rightarrow> if malloc_succeeds E (length rest) then Some rest else None
              | Some a \<Rightarrow> if length rest > length a
                  then if malloc_succeeds E (length rest) then Some rest else None
                  else Some (rest @ drop (length rest) a))
        in if alloc = None then (- 1, w\<lparr>trunc_alloc := None\<rparr>)
           else (int (length buf),
                 tell Rx_Want_Writeable (w\<lparr>trunc_alloc := alloc, trunc_offset := 0, trunc_len := length rest\<rparr>)))"

text \<open>\<open>own\<close> tells whether \<open>buf\<close> points into \<open>trunc_alloc\<close>.\<close>

definition lws_issue_raw :: "lws_env \<Rightarrow> bool \<Rightarrow> u8 list \<Rightarrow> lws \<Rightarrow> int \<times> lws" where
  "lws_issue_raw E own buf w =
     (if buf = [] then (0, w)
      else if wsi_state w = LWSS_FLUSHING_STORED_SEND_BEFORE_CLOSE \<and> trunc_len w = 0 then (int (length buf), w)
      else if trunc_len w \<noteq> 0 \<and> \<not> own then (- 1, w)
      else
        let (n, w) = lws_ssl_capable_write_no_ssl E (take (buffer_size E + (LWS_PRE + 4)) buf) w
        in if n = LWS_SSL_CAPABLE_ERROR then (- 1, w\<lparr>socket_is_permanently_unusable := True\<rparr>)
           else handle_truncated_send E buf (if n = LWS_SSL_CAPABLE_MORE_SERVICE then 0 else nat n) w)"

definition lws_issue_raw_ext_access :: "lws_env \<Rightarrow> u8 list \<Rightarrow> lws \<Rightarrow> int \<times> lws" where
  "lws_issue_raw_ext_access E buf w =
     (if buf = [] then (0, w)
      else let (n, w) = lws_issue_raw E False buf w in if n < 0 then (- 1, w) else (n, w))"

section \<open>Frames\<close>

definition LWS_WRITE_TEXT :: u8 where
  "LWS_WRITE_TEXT = 0"

definition LWS_WRITE_BINARY :: u8 where
  "LWS_WRITE_BINARY = 1"

definition LWS_WRITE_CONTINUATION :: u8 where
  "LWS_WRITE_CONTINUATION = 2"

definition LWS_WRITE_HTTP :: u8 where
  "LWS_WRITE_HTTP = 3"

definition LWS_WRITE_CLOSE :: u8 where
  "LWS_WRITE_CLOSE = 4"

definition LWS_WRITE_PING :: u8 where
  "LWS_WRITE_PING = 5"

definition LWS_WRITE_PONG :: u8 where
  "LWS_WRITE_PONG = 6"

definition LWS_WRITE_HTTP_FINAL :: u8 where
  "LWS_WRITE_HTTP_FINAL = 7"

definition LWS_WRITE_HTTP_HEADERS :: u8 where
  "LWS_WRITE_HTTP_HEADERS = 8"

definition LWS_WRITE_NO_FIN :: u8 where
  "LWS_WRITE_NO_FIN = 0x40"

lemmas write_protocols = LWS_WRITE_TEXT_def LWS_WRITE_BINARY_def LWS_WRITE_CONTINUATION_def LWS_WRITE_HTTP_def
  LWS_WRITE_CLOSE_def LWS_WRITE_PING_def LWS_WRITE_PONG_def LWS_WRITE_HTTP_FINAL_def LWS_WRITE_HTTP_HEADERS_def
  LWS_WRITE_NO_FIN_def

definition write_opcode :: "u8 \<Rightarrow> u8 option" where
  "write_opcode wp =
     (let k = wp AND 0xf;
          fin = (if wp AND LWS_WRITE_NO_FIN = 0 then push_bit 7 1 else 0)
      in if k = LWS_WRITE_TEXT then Some (LWSWSOPC_TEXT_FRAME OR fin)
         else if k = LWS_WRITE_BINARY then Some (LWSWSOPC_BINARY_FRAME OR fin)
         else if k = LWS_WRITE_CONTINUATION then Some (LWSWSOPC_CONTINUATION OR fin)
         else if k = LWS_WRITE_CLOSE then Some (LWSWSOPC_CLOSE OR fin)
         else if k = LWS_WRITE_PING then Some (LWSWSOPC_PING OR fin)
         else if k = LWS_WRITE_PONG then Some (LWSWSOPC_PONG OR fin)
         else None)"

definition frame_header :: "u8 \<Rightarrow> u8 \<Rightarrow> nat \<Rightarrow> u8 list" where
  "frame_header n is_masked_bit len =
     (if len < 126 then [n, of_nat len OR is_masked_bit]
      else if len < 65536 then [n, 126 OR is_masked_bit, of_nat (drop_bit 8 len), of_nat len]
      else [n, 127 OR is_masked_bit, 0, 0, 0, 0,
            of_nat (drop_bit 24 len), of_nat (drop_bit 16 len), of_nat (drop_bit 8 len), of_nat len])"

definition lws_0405_frame_mask_generate :: "lws_env \<Rightarrow> lws \<Rightarrow> lws option" where
  "lws_0405_frame_mask_generate E w =
     (if length (random_bytes E w) \<noteq> 4 then None
      else Some (w\<lparr>ws_mask := random_bytes E w, mask_idx := 0\<rparr>))"

text \<open>The end of \<open>lws_write\<close>: \<open>pre\<close> is what was put in front of the payload \<open>buf\<close>.\<close>

definition send_raw :: "lws_env \<Rightarrow> u8 \<Rightarrow> u8 list \<Rightarrow> u8 list \<Rightarrow> lws \<Rightarrow> int \<times> lws" where
  "send_raw E wp pre buf w =
     (if wp \<in> {LWS_WRITE_CLOSE, LWS_WRITE_HTTP, LWS_WRITE_HTTP_FINAL, LWS_WRITE_HTTP_HEADERS,
         LWS_WRITE_PONG, LWS_WRITE_PING}
      then lws_issue_raw E False (pre @ buf) w
      else
        let (n, w) = lws_issue_raw_ext_access E (pre @ buf) w;
            w = w\<lparr>inside_frame := True\<rparr>
        in if n \<le> 0 then (n, w)
           else if n = int (length buf + length pre) then (int (length buf), w\<lparr>inside_frame := False\<rparr>)
           else (n - int (length pre), w))"

text \<open>The payload of a client goes out masked, with the mask behind the header.\<close>

definition mask_and_send :: "lws_env \<Rightarrow> u8 \<Rightarrow> u8 list \<Rightarrow> u8 list \<Rightarrow> lws \<Rightarrow> int \<times> lws" where
  "mask_and_send E wp header buf w =
     (if is_client w then
        case lws_0405_frame_mask_generate E w of
          None \<Rightarrow> (- 1, w)
        | Some w \<Rightarrow>
            if header = [] then send_raw E wp [] buf w
            else send_raw E wp (header @ ws_mask w) (xor_stream (ws_mask w) (mask_idx w) buf)
                   (w\<lparr>mask_idx := mask_idx w + of_nat (length buf)\<rparr>)
      else send_raw E wp header buf w)"

definition lws_write :: "lws_env \<Rightarrow> u8 list \<Rightarrow> u8 \<Rightarrow> lws \<Rightarrow> int \<times> lws" where
  "lws_write E buf wp w =
     (if wp = LWS_WRITE_HTTP \<or> wp = LWS_WRITE_HTTP_FINAL \<or> wp = LWS_WRITE_HTTP_HEADERS
      then send_raw E wp [] buf w
      else if wsi_state w \<noteq> LWSS_ESTABLISHED
        \<and> (wsi_state w \<noteq> LWSS_RETURNED_CLOSE_ALREADY \<and> wsi_state w \<noteq> LWSS_AWAITING_CLOSE_ACK
            \<or> wp \<noteq> LWS_WRITE_CLOSE)
      then (0, w)
      else if inside_frame w then send_raw E wp [] buf w
      else if ietf_spec_revision w = 13 then
        case write_opcode wp of
          None \<Rightarrow> (- 1, w)
        | Some n \<Rightarrow> mask_and_send E wp (frame_header n (if is_client w then 0x80 else 0) (length buf)) buf w
      else mask_and_send E wp [] buf w)"

section \<open>The socket can take more\<close>

definition lws_calllback_as_writeable :: "lws_env \<Rightarrow> lws \<Rightarrow> int \<times> lws" where
  "lws_calllback_as_writeable E w = writeable_callback E w"

definition send_control :: "lws_env \<Rightarrow> lws \<Rightarrow> int \<times> lws" where
  "send_control E w =
     (let (n, w) = lws_write E (ping_payload w) (if payload_is_close w then LWS_WRITE_CLOSE else LWS_WRITE_PONG) w
      in if n < 0 then (- 1, w)
         else
           let w = w\<lparr>ping_pending_flag := False\<rparr>
           in if payload_is_close w then (- 1, w) else (0, w))"

definition send_ping :: "lws_env \<Rightarrow> lws \<Rightarrow> int \<times> lws" where
  "send_ping E w =
     (let (n, w) = lws_write E [] LWS_WRITE_PING (w\<lparr>send_check_ping := False\<rparr>)
      in if n < 0 then (- 1, w) else (0, w\<lparr>waiting_for_pong := True\<rparr>))"

definition lws_handle_POLLOUT_event :: "lws_env \<Rightarrow> lws \<Rightarrow> int \<times> lws" where
  "lws_handle_POLLOUT_event E w =
     (if trunc_len w \<noteq> 0 then
        let (n, w) = lws_issue_raw E True
          (case trunc_alloc w of None \<Rightarrow> [] | Some a \<Rightarrow> take (trunc_len w) (drop (trunc_offset w) a)) w
        in if n < 0 then (- 1, w) else (0, w)
      else if wsi_state w = LWSS_FLUSHING_STORED_SEND_BEFORE_CLOSE then (- 1, w)
      else if wsi_state w = LWSS_ESTABLISHED \<and> ping_pending_flag w
        \<or> wsi_state w = LWSS_RETURNED_CLOSE_ALREADY \<and> payload_is_close w then send_control E w
      else if wsi_state w = LWSS_ESTABLISHED \<and> \<not> socket_is_permanently_unusable w \<and> send_check_ping w
      then send_ping E w
      else lws_calllback_as_writeable E w)"

section \<open>The bytes sent are a stream\<close>

text \<open>A socket takes no more than it is given.\<close>

definition send_ok :: "lws_env \<Rightarrow> bool" where
  "send_ok E \<longleftrightarrow> (\<forall>sofar buf. socket_send E sofar buf \<le> int (length buf))"

definition truncated :: "lws \<Rightarrow> u8 list" where
  "truncated w = (case trunc_alloc w of None \<Rightarrow> [] | Some a \<Rightarrow> take (trunc_len w) (drop (trunc_offset w) a))"

definition tx_ok :: "lws \<Rightarrow> bool" where
  "tx_ok w \<longleftrightarrow> length (truncated w) = trunc_len w \<and> wsi_state w \<noteq> LWSS_FLUSHING_STORED_SEND_BEFORE_CLOSE"

lemma truncated_none [simp]: "trunc_len w = 0 \<Longrightarrow> truncated w = []"
  by (simp add: truncated_def split: option.split)

lemma truncated_update [simp]:
  "truncated (w\<lparr>socket_is_permanently_unusable := b\<rparr>) = truncated w"
  "truncated (w\<lparr>wire := s\<rparr>) = truncated w"
  "truncated (w\<lparr>inside_frame := b\<rparr>) = truncated w"
  "truncated (w\<lparr>mask_idx := i\<rparr>) = truncated w"
  "truncated (w\<lparr>ws_mask := m\<rparr>) = truncated w"
  by (simp_all add: truncated_def split: option.split)

text \<open>What sending does not change.\<close>

definition same_conn :: "lws \<Rightarrow> lws \<Rightarrow> bool" where
  "same_conn w w' \<longleftrightarrow> is_client w' = is_client w \<and> wsi_state w' = wsi_state w
     \<and> ietf_spec_revision w' = ietf_spec_revision w \<and> ws_mask w' = ws_mask w"

lemma same_conn_refl [simp]: "same_conn w w"
  by (simp add: same_conn_def)

lemma socket_write:
  assumes "send_ok E" and "lws_ssl_capable_write_no_ssl E buf w = (n, w')"
  shows "n = LWS_SSL_CAPABLE_ERROR \<and> w' = w \<or> n = LWS_SSL_CAPABLE_MORE_SERVICE \<and> w' = w
    \<or> 0 \<le> n \<and> n \<le> int (length buf) \<and> w' = w\<lparr>wire := wire w @ take (nat n) buf\<rparr>"
  using assms by (auto simp: lws_ssl_capable_write_no_ssl_def send_ok_def Let_def split: if_splits)

lemma fresh_truncated:
  assumes "trunc_len w = 0" and "n \<le> length buf" and "handle_truncated_send E buf n w = (r, w')"
  shows "wire w' = wire w \<and> same_conn w w' \<and> inside_frame w' = inside_frame w
    \<and> (r = - 1 \<or> r = int (length buf) \<and> truncated w' = drop n buf \<and> trunc_len w' = length buf - n)"
  using assms
  by (auto simp: handle_truncated_send_def Let_def truncated_def same_conn_def tell_def
      split: if_splits option.splits)

lemma more_truncated:
  assumes "trunc_len w \<noteq> 0" and "tx_ok w" and "n \<le> trunc_len w"
    and "handle_truncated_send E (truncated w) n w = (r, w')"
  shows "wire w' = wire w \<and> truncated w' = drop n (truncated w) \<and> trunc_len w' = trunc_len w - n
    \<and> same_conn w w' \<and> inside_frame w' = inside_frame w \<and> 0 \<le> r"
proof -
  have "wsi_state w \<noteq> LWSS_FLUSHING_STORED_SEND_BEFORE_CLOSE" using assms(2) by (simp add: tx_ok_def)
  then show ?thesis using assms
    by (auto simp: handle_truncated_send_def Let_def truncated_def same_conn_def tell_def drop_take add.commute
        split: if_splits option.splits)
qed

lemma issue_raw_new:
  assumes "send_ok E" and "tx_ok w" and "trunc_len w = 0" and "lws_issue_raw E own buf w = (r, w')"
  shows "same_conn w w' \<and> inside_frame w' = inside_frame w
    \<and> (r = - 1 \<or> r = int (length buf) \<and> tx_ok w' \<and> wire w' @ truncated w' = wire w @ buf)"
proof (cases "buf = []")
  case True
  then show ?thesis using assms by (simp add: lws_issue_raw_def)
next
  case False
  let ?b = "take (buffer_size E + (LWS_PRE + 4)) buf"
  obtain n w1 where send: "lws_ssl_capable_write_no_ssl E ?b w = (n, w1)" by fastforce
  let ?n = "if n = LWS_SSL_CAPABLE_MORE_SERVICE then 0 else nat n"
  show ?thesis
  proof (cases "n = LWS_SSL_CAPABLE_ERROR")
    case True
    then show ?thesis using assms False send socket_write [OF assms(1) send]
      by (auto simp: lws_issue_raw_def tx_ok_def same_conn_def LWS_SSL_CAPABLE_ERROR_def LWS_SSL_CAPABLE_MORE_SERVICE_def)
  next
    case err: False
    then have w1: "?n \<le> length buf" "wire w1 = wire w @ take ?n buf" "trunc_len w1 = 0" "same_conn w w1"
        "inside_frame w1 = inside_frame w"
      using socket_write [OF assms(1) send] assms(3)
      by (auto simp: same_conn_def LWS_SSL_CAPABLE_MORE_SERVICE_def min_def split: if_splits)
    have "handle_truncated_send E buf ?n w1 = (r, w')"
      using assms False send err by (simp add: lws_issue_raw_def tx_ok_def)
    from fresh_truncated [OF w1(3,1) this] w1 assms(2) show ?thesis
      by (auto simp: tx_ok_def same_conn_def)
  qed
qed

lemma issue_raw_truncated:
  assumes "send_ok E" and "tx_ok w" and "trunc_len w \<noteq> 0" and "lws_issue_raw E True (truncated w) w = (r, w')"
  shows "same_conn w w' \<and> inside_frame w' = inside_frame w \<and> tx_ok w'
    \<and> wire w' @ truncated w' = wire w @ truncated w"
proof -
  have ne: "truncated w \<noteq> []" using assms(2,3) by (auto simp: tx_ok_def)
  let ?b = "take (buffer_size E + (LWS_PRE + 4)) (truncated w)"
  obtain n w1 where send: "lws_ssl_capable_write_no_ssl E ?b w = (n, w1)" by fastforce
  let ?n = "if n = LWS_SSL_CAPABLE_MORE_SERVICE then 0 else nat n"
  show ?thesis
  proof (cases "n = LWS_SSL_CAPABLE_ERROR")
    case True
    then show ?thesis using assms ne send socket_write [OF assms(1) send]
      by (auto simp: lws_issue_raw_def tx_ok_def same_conn_def LWS_SSL_CAPABLE_ERROR_def
          LWS_SSL_CAPABLE_MORE_SERVICE_def)
  next
    case err: False
    then have w1: "?n \<le> trunc_len w1" "wire w1 = wire w @ take ?n (truncated w)" "trunc_len w1 = trunc_len w"
        "same_conn w w1" "inside_frame w1 = inside_frame w" "truncated w1 = truncated w"
      using socket_write [OF assms(1) send] assms(2)
      by (auto simp: same_conn_def tx_ok_def LWS_SSL_CAPABLE_MORE_SERVICE_def min_def split: if_splits)
    have "tx_ok w1" using w1 assms(2) by (simp add: tx_ok_def same_conn_def)
    have "handle_truncated_send E (truncated w1) ?n w1 = (r, w')"
      using assms ne send err w1(6) by (simp add: lws_issue_raw_def tx_ok_def)
    from more_truncated [OF _ \<open>tx_ok w1\<close> w1(1) this] w1 assms(2,3) \<open>tx_ok w1\<close> show ?thesis
      by (auto simp: tx_ok_def same_conn_def)
  qed
qed

text \<open>A frame as it goes out: masked with \<open>m\<close> from a client, as it is from a server.\<close>

definition ws_frame :: "bool \<Rightarrow> u8 \<Rightarrow> u8 list \<Rightarrow> u8 list \<Rightarrow> u8 list" where
  "ws_frame masked n m buf =
     (if masked then frame_header n 0x80 (length buf) @ m @ xor_stream m 0 buf
      else frame_header n 0 (length buf) @ buf)"

definition data_wp :: "u8 \<Rightarrow> bool" where
  "data_wp wp \<longleftrightarrow> wp AND 0xf \<in> {LWS_WRITE_TEXT, LWS_WRITE_BINARY, LWS_WRITE_CONTINUATION}"

definition can_write :: "lws \<Rightarrow> bool" where
  "can_write w \<longleftrightarrow> tx_ok w \<and> \<not> inside_frame w \<and> wsi_state w = LWSS_ESTABLISHED \<and> ietf_spec_revision w = 13"

lemma data_wp_not:
  "data_wp wp \<Longrightarrow> wp \<notin> {LWS_WRITE_CLOSE, LWS_WRITE_HTTP, LWS_WRITE_HTTP_FINAL, LWS_WRITE_HTTP_HEADERS,
         LWS_WRITE_PONG, LWS_WRITE_PING}"
  by (auto simp: data_wp_def write_protocols)

lemma frame_header_nonempty [simp]: "frame_header n b len \<noteq> []"
  by (simp add: frame_header_def)

lemma send_raw_data:
  assumes "send_ok E" and "tx_ok w" and "trunc_len w = 0" and "\<not> inside_frame w" and "data_wp wp" and "pre \<noteq> []"
    and "send_raw E wp pre buf w = (r, w')"
  shows "r = - 1 \<or> r = int (length buf) \<and> same_conn w w' \<and> \<not> inside_frame w' \<and> tx_ok w'
    \<and> wire w' @ truncated w' = wire w @ pre @ buf"
proof -
  obtain n w1 where raw: "lws_issue_raw E False (pre @ buf) w = (n, w1)" by fastforce
  have "0 < int (length (pre @ buf))" using assms(6) by (cases pre) auto
  with issue_raw_new [OF assms(1,2,3) raw] assms(6,7) data_wp_not [OF assms(5)] raw show ?thesis
    by (auto simp: send_raw_def lws_issue_raw_ext_access_def same_conn_def tx_ok_def Let_def split: if_splits)
qed

lemma lws_write_data:
  assumes "send_ok E" and w: "can_write w" and "trunc_len w = 0" and "data_wp wp" and "write_opcode wp = Some n"
    and "lws_write E buf wp w = (r, w')"
  shows "r = - 1 \<or> r = int (length buf) \<and> is_client w' = is_client w \<and> can_write w'
    \<and> (is_client w \<longrightarrow> length (ws_mask w') = 4)
    \<and> wire w' @ truncated w' = wire w @ ws_frame (is_client w) n (ws_mask w') buf"
proof -
  have wr: "mask_and_send E wp (frame_header n (if is_client w then 0x80 else 0) (length buf)) buf w = (r, w')"
    using assms data_wp_not [OF assms(4)] by (auto simp: lws_write_def can_write_def)
  show ?thesis
  proof (cases "is_client w")
    case False
    then have "send_raw E wp (frame_header n 0 (length buf)) buf w = (r, w')" using wr by (simp add: mask_and_send_def)
    from send_raw_data [OF assms(1) _ assms(3) _ assms(4) _ this] w show ?thesis
      using False by (auto simp: can_write_def ws_frame_def same_conn_def)
  next
    case True
    show ?thesis
    proof (cases "length (random_bytes E w) = 4")
      case rnd: True
      let ?m = "random_bytes E w"
      let ?w = "w\<lparr>ws_mask := ?m, mask_idx := of_nat (length buf)\<rparr>"
      have "send_raw E wp (frame_header n 0x80 (length buf) @ ?m) (xor_stream ?m 0 buf) ?w = (r, w')"
        using wr True rnd by (simp add: mask_and_send_def lws_0405_frame_mask_generate_def)
      from send_raw_data [OF assms(1) _ _ _ assms(4) _ this] w assms(3) rnd True show ?thesis
        by (auto simp: can_write_def ws_frame_def same_conn_def tx_ok_def)
    qed (use wr True in \<open>auto simp: mask_and_send_def lws_0405_frame_mask_generate_def\<close>)
  qed
qed

lemma pollout_truncated:
  assumes "send_ok E" and "can_write w" and "trunc_len w \<noteq> 0" and "lws_handle_POLLOUT_event E w = (r, w')"
  shows "same_conn w w' \<and> can_write w' \<and> wire w' @ truncated w' = wire w @ truncated w"
proof -
  obtain n w1 where raw: "lws_issue_raw E True (truncated w) w = (n, w1)" by fastforce
  then have "w' = w1" using assms(3,4) by (simp add: lws_handle_POLLOUT_event_def truncated_def split: if_splits)
  then show ?thesis using issue_raw_truncated [OF assms(1) _ assms(3) raw] assms(2)
    by (auto simp: can_write_def same_conn_def)
qed

text \<open>
  The two steps of a connection that sends: a message is written when nothing is kept back, and
  the socket takes more of what is.
\<close>

definition tx_write :: "u8 list \<Rightarrow> lws \<Rightarrow> lws \<Rightarrow> bool" where
  "tx_write d s t \<longleftrightarrow>
     (\<exists>E buf wp n r. send_ok E \<and> trunc_len s = 0 \<and> data_wp wp \<and> write_opcode wp = Some n
        \<and> lws_write E buf wp s = (r, t) \<and> r \<noteq> - 1 \<and> d = ws_frame (is_client s) n (ws_mask t) buf)"

definition tx_pollout :: "lws \<Rightarrow> lws \<Rightarrow> bool" where
  "tx_pollout s t \<longleftrightarrow> (\<exists>E r. send_ok E \<and> trunc_len s \<noteq> 0 \<and> lws_handle_POLLOUT_event E s = (r, t))"

lemma tx_write_adds:
  assumes "can_write s" and "tx_write d s t"
  shows "can_write t" and "wire t @ truncated t = wire s @ truncated s @ d"
proof -
  from assms(2) obtain E buf wp n r where wr: "send_ok E" "trunc_len s = 0" "data_wp wp" "write_opcode wp = Some n"
      "lws_write E buf wp s = (r, t)" "r \<noteq> - 1" "d = ws_frame (is_client s) n (ws_mask t) buf"
    unfolding tx_write_def by blast
  from lws_write_data [OF wr(1) assms(1) wr(2-5)] wr(2,6,7)
  show "can_write t" "wire t @ truncated t = wire s @ truncated s @ d" by simp_all
qed

lemma tx_pollout_moves:
  assumes "can_write s" and "tx_pollout s t"
  shows "can_write t" and "wire t @ truncated t = wire s @ truncated s"
  using assms pollout_truncated unfolding tx_pollout_def by blast+

interpretation lws_stream: fifo_stream truncated wire tx_write tx_pollout can_write
  by unfold_locales (fact tx_write_adds tx_pollout_moves)+

definition kept_back :: "lws \<Rightarrow> int \<times> lws \<Rightarrow> bool" where
  "kept_back w r \<longleftrightarrow> fst r \<le> 0 \<and> wire (snd r) = wire w \<and> truncated (snd r) = truncated w"

lemma send_raw_kept_back: "trunc_len w \<noteq> 0 \<Longrightarrow> kept_back w (send_raw E wp pre buf w)"
  by (simp add: kept_back_def send_raw_def lws_issue_raw_ext_access_def lws_issue_raw_def)

lemma mask_and_send_kept_back: "trunc_len w \<noteq> 0 \<Longrightarrow> kept_back w (mask_and_send E wp h buf w)"
  using send_raw_kept_back [of w] send_raw_kept_back [of "w\<lparr>ws_mask := random_bytes E w, mask_idx := 0\<rparr>"]
    send_raw_kept_back [of "w\<lparr>ws_mask := random_bytes E w, mask_idx := of_nat (length buf)\<rparr>"]
  by (simp add: mask_and_send_def lws_0405_frame_mask_generate_def kept_back_def)

lemma lws_write_kept_back: "trunc_len w \<noteq> 0 \<Longrightarrow> kept_back w (lws_write E buf wp w)"
  by (auto simp: lws_write_def send_raw_kept_back mask_and_send_kept_back split: option.split)
    (auto simp: kept_back_def)

text \<open>
  C17: while a part of a frame is kept back, nothing else reaches the socket: any \<open>lws_write\<close>, of
  data or a control frame, leaves what was sent and what is kept as they are and does not
  answer that it sent anything; and when the socket can take more, it is given the part kept back.
\<close>

theorem truncated_goes_first:
  assumes "trunc_len w \<noteq> 0" and "send_ok E" and "tx_ok w"
  shows "fst (lws_write E buf wp w) \<le> 0 \<and> wire (snd (lws_write E buf wp w)) = wire w
    \<and> truncated (snd (lws_write E buf wp w)) = truncated w
    \<and> wire (snd (lws_handle_POLLOUT_event E w)) @ truncated (snd (lws_handle_POLLOUT_event E w)) = wire w @ truncated w"
proof -
  obtain n w1 where own: "lws_issue_raw E True (truncated w) w = (n, w1)" by fastforce
  then have "snd (lws_handle_POLLOUT_event E w) = w1"
    using assms(1) by (simp add: lws_handle_POLLOUT_event_def truncated_def)
  then show ?thesis
    using issue_raw_truncated [OF assms(2,3,1) own] lws_write_kept_back [OF assms(1), of E buf wp]
    by (simp add: kept_back_def)
qed

theorem truncated_goes_first_witness:
  "wire (snd (lws_write plain_env [65] LWS_WRITE_TEXT (ws_connection\<lparr>trunc_alloc := Some [66], trunc_len := 1\<rparr>))) = []"
proof -
  let ?w = "ws_connection\<lparr>trunc_alloc := Some [66], trunc_len := 1\<rparr>"
  have "send_ok plain_env" "tx_ok ?w" "wire ?w = []"
    by (simp_all add: send_ok_def plain_env_def tx_ok_def truncated_def ws_connection_def)
  then show ?thesis using truncated_goes_first [of ?w plain_env "[65]" LWS_WRITE_TEXT] by simp
qed

end
