(* ===== verification/Lws_Frames.thy ===== *)
theory Lws_Frames
  imports Lws_Tx
begin

text \<open>
  Both ends of a connection together: what \<open>lws_write\<close> of \<open>Lws_Tx\<close> puts on the wire, the receiving
  side of \<open>Lws_Rx\<close> takes apart again, and what it does with frames no sender should write.
\<close>

unbundle bit_operations_syntax

section \<open>Headers\<close>

lemma low_seven: "x < 128 \<Longrightarrow> (x OR 0x80) AND 0x7f = (x :: u8)" and low_seven': "x < 128 \<Longrightarrow> x AND 0x7f = (x :: u8)"
proof -
  have m: "y AND 0x7f = take_bit 7 y" for y :: u8
    unfolding take_bit_eq_mask mask_eq_exp_minus_1 by simp
  have t: "take_bit 7 x = x" if "x < 128"
    using that by (simp add: word_unat_eq_iff unsigned_take_bit_eq take_bit_nat_eq_self word_less_nat_alt)
  have "take_bit 7 (0x80 :: u8) = 0" by simp
  then show "x < 128 \<Longrightarrow> (x OR 0x80) AND 0x7f = x" "x < 128 \<Longrightarrow> x AND 0x7f = x"
    using t by (simp_all only: m take_bit_or or.right_neutral)
qed

lemma top_bit: "(x OR 0x80) AND 0x80 = (0x80 :: u8)"
  by (simp add: and.commute)

lemma top_bit_off: "x < 128 \<Longrightarrow> x AND 0x80 = (0 :: u8)"
  using arg_cong [OF low_seven', of x "\<lambda>y. y AND 0x80"] by (simp add: and.assoc)

lemma bit_small: "len < 2 ^ k \<Longrightarrow> k \<le> n \<Longrightarrow> \<not> bit (len :: nat) n"
  by (metis bit_take_bit_iff not_less take_bit_nat_eq_self)

lemma join_16:
  assumes "len < 65536"
  shows "push_bit 8 (ucast (of_nat (drop_bit 8 len) :: u8)) OR ucast (of_nat len :: u8) = (of_nat len :: u32)"
proof (rule bit_word_eqI)
  fix n assume "n < LENGTH(32)"
  consider "n < 8" | "8 \<le> n" "n < 16" | "16 \<le> n" by linarith
  then show "bit (push_bit 8 (ucast (of_nat (drop_bit 8 len) :: u8)) OR ucast (of_nat len :: u8) :: u32) n
      = bit (of_nat len :: u32) n"
    using \<open>n < LENGTH(32)\<close> assms bit_small [of len 16 n] by cases (auto simp: bit_simps)
qed

lemma join_32:
  "push_bit 24 (ucast (of_nat (drop_bit 24 len) :: u8)) OR push_bit 16 (ucast (of_nat (drop_bit 16 len) :: u8))
     OR push_bit 8 (ucast (of_nat (drop_bit 8 len) :: u8)) OR ucast (of_nat len :: u8) = (of_nat len :: u32)"
    (is "?l = _")
proof (rule bit_word_eqI)
  fix n assume "n < LENGTH(32)"
  consider "n < 8" | "8 \<le> n" "n < 16" | "16 \<le> n" "n < 24" | "24 \<le> n" by linarith
  then show "bit ?l n = bit (of_nat len :: u32) n"
    using \<open>n < LENGTH(32)\<close> by cases (auto simp: bit_simps)
qed

section \<open>A frame of data arrives\<close>

fun rx_data :: "rx_report \<Rightarrow> u8 list" where
  "rx_data (Rx_Receive d) = d"
| "rx_data _ = []"

text \<open>All data the program was given.\<close>

definition received :: "lws \<Rightarrow> u8 list" where
  "received w = concat (map rx_data (reports w))"

text \<open>A program that does not close the connection.\<close>

definition patient :: "lws_env \<Rightarrow> bool" where
  "patient E \<longleftrightarrow> 0 < buffer_size E \<and> (\<forall>rs r. 0 \<le> user_callback E rs r)"

text \<open>\<open>w\<close> is open, in the state \<open>s\<close> of the parser, and has reported \<open>rs\<close>.\<close>

definition receiving :: "lws_rx_parse_state \<Rightarrow> lws \<Rightarrow> bool" where
  "receiving s w \<longleftrightarrow> lws_rx_parse_state w = s \<and> \<not> socket_is_permanently_unusable w \<and> wsi_state w = LWSS_ESTABLISHED
     \<and> ietf_spec_revision w = 13 \<and> length (ws_mask w) = 4"

definition data_opcode :: "u8 \<Rightarrow> bool" where
  "data_opcode x \<longleftrightarrow> x = LWSWSOPC_TEXT_FRAME \<or> x = LWSWSOPC_BINARY_FRAME \<or> x = LWSWSOPC_CONTINUATION"

lemma rx_bytes_step: "lws_rx_sm E c w = (m, w') \<Longrightarrow> 0 \<le> m \<Longrightarrow> rx_bytes E (c # buf) w = rx_bytes E buf w'"
  by simp

lemma spill_data:
  assumes "data_opcode (opcode w)" and "wsi_state w = LWSS_ESTABLISHED"
  shows "spill E w = (if rx_ubuf w = [] then (0, w)
    else (user_callback E (reports w) (Rx_Receive (rx_ubuf w)), (tell (Rx_Receive (rx_ubuf w)) w)\<lparr>rx_ubuf := []\<rparr>))"
  using assms by (auto simp: spill_def pass_payload_def data_opcode_def opcodes user_callback_handle_rxflow_def tell_def)

lemma first_byte:
  assumes "receiving LWS_RXPS_NEW w" and "data_opcode (n AND 0xf)"
  obtains w' where "lws_rx_sm E n w = (0, w')" "receiving LWS_RXPS_04_FRAME_HDR_LEN w'" "all_zero_nonce w'"
    "data_opcode (opcode w')" "reports w' = reports w" "rx_ubuf w' = rx_ubuf w"
  using assms by (auto simp: lws_rx_sm_def handle_first_def receiving_def data_opcode_def opcodes Let_def)

definition key_or_payload :: "u8 \<Rightarrow> lws_rx_parse_state" where
  "key_or_payload b = (if b = 0 then LWS_RXPS_PAYLOAD_UNTIL_LENGTH_EXHAUSTED else LWS_RXPS_07_COLLECT_FRAME_KEY_1)"

lemma length_bytes:
  assumes w: "receiving LWS_RXPS_04_FRAME_HDR_LEN w" "all_zero_nonce w" "data_opcode (opcode w)"
    and len: "len < 2 ^ 32" "b = 0x80 \<or> b = 0 \<and> 0 < len"
  obtains w' where "rx_bytes E (tl (frame_header n b len) @ buf) w = rx_bytes E buf w'"
    "receiving (key_or_payload b) w'" "all_zero_nonce w'" "data_opcode (opcode w')" "reports w' = reports w"
    "rx_ubuf w' = rx_ubuf w" "rx_packet_length w' = of_nat len"
proof -
  have op: "opcode w AND 8 = 0" using w(3) by (auto simp: data_opcode_def opcodes)
  consider "len < 126" | "126 \<le> len" "len < 65536" | "65536 \<le> len" by linarith
  then show thesis
  proof cases
    case 1
    have x: "(of_nat len :: u8) < 128"
      using 1 by (simp add: word_less_nat_alt unsigned_of_nat take_bit_nat_eq_self)
    have l: "(of_nat len :: u8) \<noteq> 126" "(of_nat len :: u8) \<noteq> 127"
      using 1 by (auto simp: word_unat_eq_iff unsigned_of_nat take_bit_nat_eq_self)
    have u: "(ucast (of_nat len :: u8) :: u32) = of_nat len"
      using 1 by (simp add: word_unat_eq_iff unsigned_ucast_eq unsigned_of_nat take_bit_nat_eq_self)
    have nz: "(of_nat len :: u32) \<noteq> 0" if "0 < len"
      using 1 that by (auto simp: word_unat_eq_iff unsigned_of_nat take_bit_nat_eq_self)
    show ?thesis
      using that w len(2) 1 x l nz
      by (auto simp: frame_header_def lws_rx_sm_def header_length_def receiving_def low_seven low_seven' top_bit top_bit_off
          u key_or_payload_def Let_def)
  next
    case 2
    then show ?thesis
      using that w len(2) op
      by (auto simp: frame_header_def lws_rx_sm_def header_length_def receiving_def length_byte_def length_end_def
          key_or_payload_def Let_def join_16)
  next
    case 3
    then show ?thesis
      using that w len op
      by (auto simp: frame_header_def lws_rx_sm_def header_length_def receiving_def length_byte_def length_end_def
          key_or_payload_def Let_def or.assoc join_32)
  qed
qed

lemma key_bytes:
  assumes w: "receiving LWS_RXPS_07_COLLECT_FRAME_KEY_1 w" "all_zero_nonce w" "data_opcode (opcode w)"
      "rx_packet_length w \<noteq> 0" and m: "length m = 4"
  obtains w' where "rx_bytes E (m @ buf) w = rx_bytes E buf w'"
    "receiving LWS_RXPS_PAYLOAD_UNTIL_LENGTH_EXHAUSTED w'" "ws_mask w' = m" "mask_idx w' = 0"
    "all_zero_nonce w' = (m = [0, 0, 0, 0])" "data_opcode (opcode w')" "reports w' = reports w"
    "rx_ubuf w' = rx_ubuf w" "rx_packet_length w' = rx_packet_length w"
proof -
  obtain a b c d where m': "m = [a, b, c, d]"
    using m by (auto simp: numeral_eq_Suc length_Suc_conv)
  obtain p q r s where k: "ws_mask w = [p, q, r, s]"
    using w(1) by (auto simp: receiving_def numeral_eq_Suc length_Suc_conv)
  let ?w = "w\<lparr>ws_mask := m, all_zero_nonce := m = [0, 0, 0, 0],
    lws_rx_parse_state := LWS_RXPS_PAYLOAD_UNTIL_LENGTH_EXHAUSTED, mask_idx := 0\<rparr>"
  have "(d = 0 \<and> c = 0 \<and> b = 0 \<and> a = 0) = (m = [0, 0, 0, 0])" unfolding m' by auto
  then have "rx_bytes E (m @ buf) w = rx_bytes E buf ?w"
    using w unfolding m' by (simp add: lws_rx_sm_def receiving_def key_byte_def key_end_def k Let_def)
  then show thesis using that [of ?w] w m by (simp add: receiving_def)
qed

lemma key_bytes_empty:
  assumes w: "receiving LWS_RXPS_07_COLLECT_FRAME_KEY_1 w" "data_opcode (opcode w)"
      "rx_packet_length w = 0" "rx_ubuf w = []" and m: "length m = 4"
  obtains w' where "rx_bytes E (m @ buf) w = rx_bytes E buf w'" "receiving LWS_RXPS_NEW w'"
    "reports w' = reports w" "rx_ubuf w' = []"
proof -
  obtain a b c d where m': "m = [a, b, c, d]"
    using m by (auto simp: numeral_eq_Suc length_Suc_conv)
  show thesis
    using that w unfolding m'
    by (auto simp: lws_rx_sm_def receiving_def key_byte_def key_end_def spill_data Let_def)
qed

text \<open>A payload as it is on the wire, given the mask the receiver holds.\<close>

definition on_wire :: "lws \<Rightarrow> u8 list \<Rightarrow> u8 list" where
  "on_wire w d = (if all_zero_nonce w then d else xor_stream (ws_mask w) (mask_idx w) d)"

lemma xor_twice: "(x XOR y) XOR y = (x :: u8)"
  by (simp add: xor.assoc)

lemma on_wire_Nil [simp]: "on_wire w [] = []"
  by (simp add: on_wire_def)

lemma store_byte_on_wire:
  "on_wire w (x # d) = hd (on_wire w (x # d)) # on_wire (store_byte (hd (on_wire w (x # d))) w) d"
  "rx_ubuf (store_byte (hd (on_wire w (x # d))) w) = rx_ubuf w @ [x]"
  by (simp_all add: on_wire_def store_byte_def xor_twice)

lemma store_byte_simps [simp]:
  "rx_packet_length (store_byte c w) = rx_packet_length w - 1"
  "opcode (store_byte c w) = opcode w"
  "reports (store_byte c w) = reports w"
  "receiving s (store_byte c w) = receiving s w"
  by (simp_all add: store_byte_def receiving_def)

lemma on_wire_update [simp]:
  "on_wire ((tell r w)\<lparr>rx_ubuf := u\<rparr>) d = on_wire w d"
  "receiving s ((tell r w)\<lparr>rx_ubuf := u\<rparr>) = receiving s w"
  by (simp_all add: on_wire_def receiving_def tell_def)

lemma payload_arrives:
  assumes "patient E"
  shows "receiving LWS_RXPS_PAYLOAD_UNTIL_LENGTH_EXHAUSTED w \<Longrightarrow> data_opcode (opcode w) \<Longrightarrow>
    length (rx_ubuf w) < buffer_size E \<Longrightarrow> d \<noteq> [] \<Longrightarrow> length d < 2 ^ 32 \<Longrightarrow> rx_packet_length w = of_nat (length d) \<Longrightarrow>
    \<exists>w'. rx_bytes E (on_wire w d @ buf) w = rx_bytes E buf w' \<and> receiving LWS_RXPS_NEW w' \<and> rx_ubuf w' = []
      \<and> received w' = received w @ rx_ubuf w @ d"
proof (induction d arbitrary: w)
  case (Cons x d)
  let ?c = "hd (on_wire w (x # d))"
  let ?w = "store_byte ?c w"
  have wire: "on_wire w (x # d) @ buf = ?c # on_wire ?w d @ buf" by (subst store_byte_on_wire(1)) simp
  have u: "rx_ubuf ?w = rx_ubuf w @ [x]" by (rule store_byte_on_wire(2))
  have len: "rx_packet_length ?w = of_nat (length d)" using Cons.prems(6) by simp
  have sm: "lws_rx_sm E ?c w = payload_end E ?w"
    using Cons.prems(1,3) by (simp add: lws_rx_sm_def receiving_def payload_byte_def)
  have cb: "0 \<le> user_callback E rs r" for rs r using assms by (simp add: patient_def)
  show ?case
  proof (cases "d = []")
    case True
    let ?v = "(tell (Rx_Receive (rx_ubuf w @ [x])) (?w\<lparr>lws_rx_parse_state := LWS_RXPS_NEW\<rparr>))\<lparr>rx_ubuf := []\<rparr>"
    have "payload_end E ?w = (user_callback E (reports w) (Rx_Receive (rx_ubuf w @ [x])), ?v)"
      using Cons.prems(1,2) len True u by (simp add: payload_end_def spill_data receiving_def store_byte_def)
    then have "rx_bytes E (on_wire w (x # d) @ buf) w = rx_bytes E buf ?v"
      unfolding wire using rx_bytes_step [OF _ cb] sm True by simp
    moreover have "receiving LWS_RXPS_NEW ?v" "received ?v = received w @ rx_ubuf w @ [x]"
      using Cons.prems(1) by (simp_all add: receiving_def received_def tell_def store_byte_def)
    ultimately show ?thesis using True by (intro exI [of _ ?v]) simp
  next
    case False
    have nz: "of_nat (length d) \<noteq> (0 :: u32)"
      using False Cons.prems(5) by (auto simp: word_unat_eq_iff unsigned_of_nat take_bit_nat_eq_self)
    show ?thesis
    proof (cases "length (rx_ubuf ?w) = buffer_size E")
      case full: False
      have "payload_end E ?w = (0, ?w)" using len nz full by (simp add: payload_end_def)
      then have "rx_bytes E (on_wire w (x # d) @ buf) w = rx_bytes E (on_wire ?w d @ buf) ?w"
        unfolding wire using sm by simp
      moreover have "received ?w = received w" by (simp add: received_def)
      ultimately show ?thesis using Cons.IH [of ?w] Cons.prems False full len u by simp
    next
      case True
      let ?v = "(tell (Rx_Receive (rx_ubuf ?w)) ?w)\<lparr>rx_ubuf := []\<rparr>"
      have "payload_end E ?w = (user_callback E (reports ?w) (Rx_Receive (rx_ubuf ?w)), ?v)"
        using Cons.prems(1,2) len True nz u by (simp add: payload_end_def spill_data receiving_def store_byte_def)
      then have "rx_bytes E (on_wire w (x # d) @ buf) w = rx_bytes E (on_wire ?v d @ buf) ?v"
        unfolding wire using rx_bytes_step [OF _ cb] sm by simp
      moreover have "receiving LWS_RXPS_PAYLOAD_UNTIL_LENGTH_EXHAUSTED ?v" "rx_packet_length ?v = of_nat (length d)"
          "opcode ?v = opcode w" "received ?v = received w @ rx_ubuf w @ [x]"
        using Cons.prems(1) len by (simp, simp_all add: received_def tell_def u)
      ultimately show ?thesis using Cons.IH [of ?v] Cons.prems False assms by (simp add: patient_def)
    qed
  qed
qed simp

text \<open>A whole frame, from a client or from a server.\<close>

lemma all_zero_on_wire: "ws_mask w = m \<Longrightarrow> mask_idx w = 0 \<Longrightarrow> all_zero_nonce w = (m = [0, 0, 0, 0]) \<Longrightarrow>
    length m = 4 \<Longrightarrow> on_wire w d = xor_stream m 0 d"
proof (cases "m = [0, 0, 0, 0]")
  case True
  have "m ! unat (j AND 3 :: u8) = 0" for j
  proof -
    have "unat (j AND 3) < 4" by (simp add: unat_and_3)
    then show ?thesis using True by (auto simp: numeral_eq_Suc less_Suc_eq)
  qed
  then show "all_zero_nonce w = (m = [0, 0, 0, 0]) \<Longrightarrow> on_wire w d = xor_stream m 0 d"
    using True by (simp add: on_wire_def xor_stream_zero)
qed (simp add: on_wire_def)

text \<open>The header of a frame, up to the mask or the payload.\<close>

lemma header_arrives:
  assumes w: "receiving LWS_RXPS_NEW w" and n: "data_opcode (n AND 0xf)"
    and len: "len < 2 ^ 32" "b = 0x80 \<or> b = 0 \<and> 0 < len"
  obtains w' where "rx_bytes E (frame_header n b len @ buf) w = rx_bytes E buf w'"
    "receiving (key_or_payload b) w'" "all_zero_nonce w'" "data_opcode (opcode w')" "reports w' = reports w"
    "rx_ubuf w' = rx_ubuf w" "rx_packet_length w' = of_nat len"
proof -
  obtain w1 where w1: "lws_rx_sm E n w = (0, w1)" "receiving LWS_RXPS_04_FRAME_HDR_LEN w1" "all_zero_nonce w1"
    "data_opcode (opcode w1)" "reports w1 = reports w" "rx_ubuf w1 = rx_ubuf w"
    using first_byte [OF w n] .
  have "frame_header n b len = n # tl (frame_header n b len)" by (simp add: frame_header_def)
  then have "rx_bytes E (frame_header n b len @ buf) w = rx_bytes E (tl (frame_header n b len) @ buf) w1"
    using w1(1) by (metis append_Cons order_refl rx_bytes_step)
  then show thesis using that length_bytes [OF w1(2-4) len, of E n buf] w1(5,6) by metis
qed

lemma of_nat_length_nonzero: "d \<noteq> [] \<Longrightarrow> length d < 2 ^ 32 \<Longrightarrow> of_nat (length d) \<noteq> (0 :: u32)"
  by (auto simp: word_unat_eq_iff unsigned_of_nat take_bit_nat_eq_self)

lemma masked_frame_arrives:
  assumes E: "patient E" and w: "receiving LWS_RXPS_NEW w" "rx_ubuf w = []" and n: "data_opcode (n AND 0xf)"
    and d: "length d < 2 ^ 32" and m: "length m = 4"
  shows "\<exists>w'. rx_bytes E (frame_header n 0x80 (length d) @ m @ xor_stream m 0 d @ buf) w = rx_bytes E buf w'
    \<and> receiving LWS_RXPS_NEW w' \<and> rx_ubuf w' = [] \<and> received w' = received w @ d"
proof -
  obtain w2 where w2: "rx_bytes E (frame_header n 0x80 (length d) @ m @ xor_stream m 0 d @ buf) w
      = rx_bytes E (m @ xor_stream m 0 d @ buf) w2"
    "receiving (key_or_payload 0x80) w2" "all_zero_nonce w2" "data_opcode (opcode w2)" "reports w2 = reports w"
    "rx_ubuf w2 = rx_ubuf w" "rx_packet_length w2 = of_nat (length d)"
    using header_arrives [OF w(1) n d] by blast
  have k: "receiving LWS_RXPS_07_COLLECT_FRAME_KEY_1 w2" using w2(2) by (simp add: key_or_payload_def)
  show ?thesis
  proof (cases "d = []")
    case True
    then show ?thesis using key_bytes_empty [OF k w2(4) _ _ m, of E buf] w2 w by (simp add: received_def) metis
  next
    case False
    obtain w3 where w3: "rx_bytes E (m @ xor_stream m 0 d @ buf) w2 = rx_bytes E (xor_stream m 0 d @ buf) w3"
      "receiving LWS_RXPS_PAYLOAD_UNTIL_LENGTH_EXHAUSTED w3" "ws_mask w3 = m" "mask_idx w3 = 0"
      "all_zero_nonce w3 = (m = [0, 0, 0, 0])" "data_opcode (opcode w3)" "reports w3 = reports w2"
      "rx_ubuf w3 = rx_ubuf w2" "rx_packet_length w3 = rx_packet_length w2"
      using key_bytes [OF k w2(3,4) _ m] of_nat_length_nonzero [OF False d] w2(7) by metis
    have "on_wire w3 d = xor_stream m 0 d" using all_zero_on_wire [OF w3(3-5) m] .
    then show ?thesis using payload_arrives [OF E w3(2,6) _ False d, of buf] w3 w2 w E
      by (simp add: received_def patient_def)
  qed
qed

lemma plain_frame_arrives:
  assumes E: "patient E" and w: "receiving LWS_RXPS_NEW w" "rx_ubuf w = []" and n: "data_opcode (n AND 0xf)"
    and d: "length d < 2 ^ 32"
  shows "\<exists>w'. rx_bytes E (frame_header n 0 (length d) @ d @ buf) w = rx_bytes E buf w'
    \<and> receiving LWS_RXPS_NEW w' \<and> rx_ubuf w' = [] \<and> received w' = received w @ d"
proof (cases "d = []")
  case True
  obtain w1 where w1: "lws_rx_sm E n w = (0, w1)" "receiving LWS_RXPS_04_FRAME_HDR_LEN w1"
    "data_opcode (opcode w1)" "reports w1 = reports w" "rx_ubuf w1 = rx_ubuf w"
    using first_byte [OF w(1) n] .
  let ?w = "w1\<lparr>this_frame_masked := False, rx_packet_length := 0, lws_rx_parse_state := LWS_RXPS_NEW\<rparr>"
  have "lws_rx_sm E 0 w1 = (0, ?w)"
    using w1 w by (simp add: lws_rx_sm_def receiving_def header_length_def spill_data)
  then show ?thesis using True w1 w
    by (intro exI [of _ ?w]) (auto simp: frame_header_def received_def receiving_def)
next
  case False
  obtain w2 where w2: "rx_bytes E (frame_header n 0 (length d) @ d @ buf) w = rx_bytes E (d @ buf) w2"
    "receiving (key_or_payload 0) w2" "all_zero_nonce w2" "data_opcode (opcode w2)" "reports w2 = reports w"
    "rx_ubuf w2 = rx_ubuf w" "rx_packet_length w2 = of_nat (length d)"
    using header_arrives [OF w(1) n d, of 0] False by blast
  have "receiving LWS_RXPS_PAYLOAD_UNTIL_LENGTH_EXHAUSTED w2" "on_wire w2 d = d"
    using w2(2,3) by (simp_all add: key_or_payload_def on_wire_def)
  then show ?thesis using payload_arrives [OF E _ w2(4) _ False d, of buf] w2 w E
    by (simp add: received_def patient_def)
qed

lemma frame_arrives:
  assumes "patient E" and "receiving LWS_RXPS_NEW w" "rx_ubuf w = []" and "data_opcode (n AND 0xf)"
    and "length d < 2 ^ 32" and "masked \<Longrightarrow> length m = 4"
  shows "\<exists>w'. rx_bytes E (ws_frame masked n m d @ buf) w = rx_bytes E buf w' \<and> receiving LWS_RXPS_NEW w' \<and> rx_ubuf w' = []
      \<and> received w' = received w @ d"
  using masked_frame_arrives [OF assms(1-5), of m buf] plain_frame_arrives [OF assms(1-5), of buf] assms(6)
  by (cases masked) (simp_all add: ws_frame_def)

section \<open>From one end to the other\<close>

text \<open>
  A run of the sending end: messages are written when nothing is kept back, each with a socket
  that may behave differently, and between them the socket takes more of what is.
\<close>

inductive tx_run :: "(u8 list \<times> u8) list \<Rightarrow> lws \<Rightarrow> lws \<Rightarrow> bool" where
  tx_done: "tx_run [] s s"
| tx_message: "send_ok E \<Longrightarrow> trunc_len s = 0 \<Longrightarrow> data_wp wp \<Longrightarrow> lws_write E buf wp s = (r, t) \<Longrightarrow> r \<noteq> - 1 \<Longrightarrow>
    tx_run ms t u \<Longrightarrow> tx_run ((buf, wp) # ms) s u"
| tx_more: "send_ok E \<Longrightarrow> trunc_len s \<noteq> 0 \<Longrightarrow> lws_handle_POLLOUT_event E s = (r, t) \<Longrightarrow> tx_run ms t u \<Longrightarrow> tx_run ms s u"

definition frames_of :: "bool \<Rightarrow> (u8 list \<times> u8) list \<Rightarrow> u8 list list \<Rightarrow> bool" where
  "frames_of masked = list_all2 (\<lambda>msg d. \<exists>n m. data_opcode (n AND 0xf) \<and> (masked \<longrightarrow> length m = 4)
     \<and> d = ws_frame masked n m (fst msg))"

lemma data_wp_opcode:
  assumes "data_wp wp"
  obtains n where "write_opcode wp = Some n" "data_opcode (n AND 0xf)"
proof -
  let ?fin = "if wp AND LWS_WRITE_NO_FIN = 0 then push_bit 7 1 else 0 :: u8"
  have fin: "data_opcode ((LWSWSOPC_TEXT_FRAME OR ?fin) AND 0xf)" "data_opcode ((LWSWSOPC_BINARY_FRAME OR ?fin) AND 0xf)"
      "data_opcode ((LWSWSOPC_CONTINUATION OR ?fin) AND 0xf)"
    by (simp_all add: data_opcode_def opcodes)
  consider "wp AND 0xf = LWS_WRITE_TEXT" | "wp AND 0xf = LWS_WRITE_BINARY" | "wp AND 0xf = LWS_WRITE_CONTINUATION"
    using assms by (auto simp: data_wp_def)
  then show thesis
    using that fin by cases (simp_all add: write_opcode_def Let_def, simp_all add: write_protocols)
qed

lemma tx_run_stream:
  "tx_run ms s t \<Longrightarrow> can_write s \<Longrightarrow> \<exists>ds. frames_of (is_client s) ms ds \<and> stream_run tx_write tx_pollout ds s t"
proof (induction rule: tx_run.induct)
  case (tx_done s)
  then show ?case using stream_stop by (auto simp: frames_of_def)
next
  case (tx_message E s wp buf r t ms u)
  obtain n where n: "write_opcode wp = Some n" "data_opcode (n AND 0xf)" using data_wp_opcode [OF tx_message.hyps(3)] .
  let ?d = "ws_frame (is_client s) n (ws_mask t) buf"
  have wr: "is_client t = is_client s" "can_write t" "is_client s \<longrightarrow> length (ws_mask t) = 4"
    using lws_write_data [OF tx_message.hyps(1) tx_message.prems tx_message.hyps(2,3) n(1) tx_message.hyps(4)]
      tx_message.hyps(5) by auto
  then obtain ds where ds: "frames_of (is_client s) ms ds" "stream_run tx_write tx_pollout ds t u"
    using tx_message.IH by auto
  have "tx_write ?d s t" unfolding tx_write_def using tx_message.hyps n by blast
  then have "stream_run tx_write tx_pollout (?d # ds) s u" using ds(2) by (rule stream_push)
  moreover have "frames_of (is_client s) ((buf, wp) # ms) (?d # ds)"
    using ds(1) n(2) wr(3) by (auto simp: frames_of_def)
  ultimately show ?case by blast
next
  case (tx_more E s r t ms u)
  from pollout_truncated [OF tx_more.hyps(1) tx_more.prems tx_more.hyps(2,3)]
  have t: "can_write t" "is_client t = is_client s" by (auto simp: same_conn_def)
  then obtain ds where "frames_of (is_client s) ms ds" "stream_run tx_write tx_pollout ds t u" using tx_more.IH by auto
  moreover have "tx_pollout s t" unfolding tx_pollout_def using tx_more.hyps by blast
  ultimately show ?case using stream_flush [of tx_pollout s t] by blast
qed

lemma frames_arrive:
  "frames_of masked ms ds \<Longrightarrow> patient E \<Longrightarrow> list_all (\<lambda>msg. length (fst msg) < 2 ^ 32) ms \<Longrightarrow>
   receiving LWS_RXPS_NEW w \<Longrightarrow> rx_ubuf w = [] \<Longrightarrow>
   \<exists>w'. rx_bytes E (concat ds) w = (0, w') \<and> receiving LWS_RXPS_NEW w' \<and> rx_ubuf w' = []
     \<and> received w' = received w @ concat (map fst ms)"
proof (induction ms arbitrary: ds w)
  case Nil
  then show ?case by (simp add: frames_of_def)
next
  case (Cons msg ms)
  then obtain n m ds' where d: "ds = ws_frame masked n m (fst msg) # ds'" "data_opcode (n AND 0xf)"
      "masked \<longrightarrow> length m = 4" "frames_of masked ms ds'"
    by (auto simp: frames_of_def list_all2_Cons1)
  then obtain w1 where w1: "rx_bytes E (concat ds) w = rx_bytes E (concat ds') w1" "receiving LWS_RXPS_NEW w1"
      "rx_ubuf w1 = []" "received w1 = received w @ fst msg"
    using frame_arrives [OF Cons.prems(2,4,5) d(2), of "fst msg" masked m "concat ds'"] Cons.prems(3) by auto
  with Cons.IH [OF d(4) Cons.prems(2) _ w1(2,3)] Cons.prems(3) show ?case by auto
qed

lemma same_rx_received: "same_rx w w' \<Longrightarrow> received w' = received w"
  by (erule same_rxE) (simp add: received_def)

text \<open>
  C6: what one end of a connection writes, the other end's program is given: after any run of the
  sender in which everything kept back went out, however the sockets take and cut the bytes,
  the receiver accepts the stream and has reported exactly the payloads of the messages, in order.
\<close>

theorem messages_arrive:
  assumes "tx_run ms s t" and "can_write s" and "wire s = []" and "trunc_len s = 0" and "trunc_len t = 0"
    and "list_all (\<lambda>msg. length (fst msg) < 2 ^ 32) ms"
    and "patient E" and "buffer_size E < 2 ^ 32" and "receiving LWS_RXPS_NEW w" and "rx_ubuf w = []"
    and "concat ps = wire t"
  shows "fst (rx_packets E ps w) = 0 \<and> received (snd (rx_packets E ps w)) = received w @ concat (map fst ms)"
proof -
  obtain ds where ds: "frames_of (is_client s) ms ds" "stream_run tx_write tx_pollout ds s t"
    using tx_run_stream [OF assms(1,2)] by blast
  have "wire t @ truncated t = wire s @ truncated s @ concat ds"
    using lws_stream.stream_conserved [OF ds(2) assms(2)] by simp
  then have "concat ps = concat ds" using assms(3-5,11) by simp
  moreover have "rx_ok E w" using assms(9,10) by (simp add: rx_ok_def receiving_def)
  ultimately have rel: "rx_rel (rx_packets E ps w) (rx_bytes E (concat ds) w)"
    using packets_rel [of E w ps] assms(8) by simp
  obtain w' where "rx_bytes E (concat ds) w = (0, w')" "received w' = received w @ concat (map fst ms)"
    using frames_arrive [OF ds(1) assms(7,6,9,10)] by blast
  then show ?thesis using rel same_rx_received [of "snd (rx_packets E ps w)" w'] by (simp add: rx_rel_def)
qed

theorem messages_arrive_witness:
  "received (snd (rx_packets plain_env [[0x81], [0x81, 1, 2], [3, 4, 0x40]] ws_connection)) = [0x41]"
proof -
  let ?s = "ws_connection\<lparr>is_client := True\<rparr>"
  define t where "t = snd (lws_write plain_env [0x41] LWS_WRITE_TEXT ?s)"
  have defs: "send_ok plain_env" "data_wp LWS_WRITE_TEXT" "can_write ?s" "wire ?s = []" "trunc_len ?s = 0" "patient plain_env"
      "receiving LWS_RXPS_NEW ws_connection" "rx_ubuf ws_connection = []" "received ws_connection = []"
      "buffer_size plain_env < 2 ^ 32"
    by (simp_all add: send_ok_def plain_env_def data_wp_def write_protocols can_write_def tx_ok_def ws_connection_def
        patient_def receiving_def received_def)
  have wr: "lws_write plain_env [0x41] LWS_WRITE_TEXT ?s = (1, t)" "trunc_len t = 0" "wire t = [0x81, 0x81, 1, 2, 3, 4, 0x40]"
    unfolding t_def
    by (simp_all add: lws_write_def write_opcode_def write_protocols opcodes mask_and_send_def frame_header_def
        lws_0405_frame_mask_generate_def send_raw_def lws_issue_raw_ext_access_def lws_issue_raw_def LWS_PRE_def
        lws_ssl_capable_write_no_ssl_def handle_truncated_send_def plain_env_def ws_connection_def
        LWS_SSL_CAPABLE_ERROR_def LWS_SSL_CAPABLE_MORE_SERVICE_def)
  have "tx_run [([0x41], LWS_WRITE_TEXT)] ?s t"
    by (rule tx_message [OF defs(1,5,2) wr(1) _ tx_done]) simp
  then show ?thesis
    using messages_arrive [of "[([0x41], LWS_WRITE_TEXT)]" ?s t plain_env ws_connection "[[0x81], [0x81, 1, 2], [3, 4, 0x40]]"]
      defs wr by (simp del: rx_packets.simps)
qed

section \<open>Frames no sender should write\<close>

text \<open>
  C36: a frame without a mask whose length 0 is written in two bytes is not taken as empty: the byte
  behind it becomes its first, and the count of the bytes to come wraps around to 4294967295, so
  the frames that follow are swallowed as its payload.
\<close>

theorem empty_long_frame_swallows:
  assumes "receiving LWS_RXPS_NEW w" and "rx_ubuf w = []" and "1 < buffer_size E"
  shows "fst (rx_bytes E [0x82, 126, 0, 0, c] w) = 0
    \<and> lws_rx_parse_state (snd (rx_bytes E [0x82, 126, 0, 0, c] w)) = LWS_RXPS_PAYLOAD_UNTIL_LENGTH_EXHAUSTED
    \<and> rx_packet_length (snd (rx_bytes E [0x82, 126, 0, 0, c] w)) = 4294967295
    \<and> rx_ubuf (snd (rx_bytes E [0x82, 126, 0, 0, c] w)) = [c]"
  using assms
  by (simp add: lws_rx_sm_def receiving_def handle_first_def header_length_def length_byte_def length_end_def
      payload_byte_def payload_end_def store_byte_def opcodes)

theorem empty_long_frame_swallows_witness:
  "rx_packet_length (snd (rx_bytes plain_env [0x82, 126, 0, 0, 0x82] ws_connection)) = 4294967295"
  using empty_long_frame_swallows [of ws_connection plain_env "0x82"]
  by (simp add: receiving_def ws_connection_def plain_env_def del: rx_bytes.simps)

text \<open>
  The receiver ends the connection on a frame with one of the ten reserved opcodes, and on a
  control frame with an extended length, whatever follows.
\<close>

theorem bad_frames_close:
  assumes "receiving LWS_RXPS_NEW w"
  shows "(n AND 0xf \<in> {3, 4, 5, 6, 7, 0xb, 0xc, 0xd, 0xe, 0xf} \<longrightarrow> fst (rx_bytes E (n # buf) w) = - 1)
    \<and> (n AND 0xf \<in> {LWSWSOPC_CLOSE, LWSWSOPC_PING, LWSWSOPC_PONG} \<and> l AND 0x7f \<in> {126, 127}
        \<longrightarrow> fst (rx_bytes E (n # l # buf) w) = - 1)"
  using assms
  by (auto simp: lws_rx_sm_def receiving_def handle_first_def header_length_def opcodes Let_def)

theorem bad_frames_close_witness: "fst (rx_bytes plain_env [0x89, 0xfe, 0] ws_connection) = - 1"
  using bad_frames_close [of ws_connection "0x89" plain_env "[0]" "0xfe"]
  by (simp add: receiving_def ws_connection_def opcodes del: rx_bytes.simps)

end
