(* ===== verification/Dui_Containers.thy ===== *)
theory Dui_Containers
  imports Prelude
begin

text \<open>
  The containers of DuiLib, the user interface library in \<open>src/dev/trunk/DuiLib\<close>, from
  \<open>Utils/Utils.cpp\<close>: \<open>CDuiPtrArray\<close>, an array of pointers that grows, and \<open>CDuiStringPtrMap\<close>, a hash
  table from strings to pointers in which a search moves what it finds to the front of its
  bucket. Pointers are numbers, \<open>0\<close> is \<open>NULL\<close>. A bucket, a doubly linked list, is a list. Strings
  are the bytes in front of the NUL, in the multi-byte build the program uses. Counts and sizes
  stay below the limit of \<open>int\<close>; \<open>new\<close> succeeds; \<open>CopyMemory\<close> on overlapping memory copies as \<open>memmove\<close>
  does.
\<close>

section \<open>Arrays\<close>

text \<open>
  \<open>m_ppVoid\<close> is the allocated memory, \<open>m_nAllocated\<close> its length. What \<open>malloc\<close> and \<open>realloc\<close> leave in new
  memory is \<open>junk\<close>, and whether \<open>realloc\<close> succeeds is \<open>grows\<close>.
\<close>

record CDuiPtrArray =
  m_ppVoid :: "nat list"
  m_nCount :: nat

record heap_answers =
  junk :: nat
  grows :: "nat \<Rightarrow> bool"

definition m_nAllocated :: "CDuiPtrArray \<Rightarrow> nat" where
  "m_nAllocated a = length (m_ppVoid a)"

definition CDuiPtrArray_ctor :: "heap_answers \<Rightarrow> nat \<Rightarrow> CDuiPtrArray" where
  "CDuiPtrArray_ctor H iPreallocSize = \<lparr>m_ppVoid = replicate iPreallocSize (junk H), m_nCount = 0\<rparr>"

definition Empty_array :: "CDuiPtrArray \<Rightarrow> CDuiPtrArray" where
  "Empty_array a = \<lparr>m_ppVoid = [], m_nCount = 0\<rparr>"

definition Resize_array :: "nat \<Rightarrow> CDuiPtrArray \<Rightarrow> CDuiPtrArray" where
  "Resize_array iSize a = (Empty_array a)\<lparr>m_ppVoid := replicate iSize 0, m_nCount := iSize\<rparr>"

definition store :: "nat \<Rightarrow> nat \<Rightarrow> CDuiPtrArray \<Rightarrow> CDuiPtrArray result" where
  "store i p a =
     (if i < length (m_ppVoid a) then Inr (a\<lparr>m_ppVoid := (m_ppVoid a)[i := p]\<rparr>) else Inl Out_Of_Range)"

text \<open>Room for one more element: \<open>++m_nCount\<close>, and a larger block of memory when it is full.\<close>

definition make_room :: "heap_answers \<Rightarrow> CDuiPtrArray \<Rightarrow> CDuiPtrArray option" where
  "make_room H a =
     (let a = a\<lparr>m_nCount := m_nCount a + 1\<rparr>
      in if m_nCount a \<ge> m_nAllocated a then
           let nAllocated = (if m_nAllocated a * 2 = 0 then 11 else m_nAllocated a * 2)
           in if grows H nAllocated
              then Some (a\<lparr>m_ppVoid := m_ppVoid a @ replicate (nAllocated - length (m_ppVoid a)) (junk H)\<rparr>)
              else None
         else Some a)"

definition Add_array :: "heap_answers \<Rightarrow> nat \<Rightarrow> CDuiPtrArray \<Rightarrow> (bool \<times> CDuiPtrArray) result" where
  "Add_array H pData a =
     (case make_room H a of
        None \<Rightarrow> Inr (False, a)
      | Some a \<Rightarrow> rbind (store (m_nCount a - 1) pData a) (\<lambda>a. Inr (True, a)))"

text \<open>\<open>memmove\<close> of \<open>n\<close> elements from \<open>src\<close> to \<open>dst\<close>.\<close>

definition move_cells :: "nat \<Rightarrow> nat \<Rightarrow> nat \<Rightarrow> CDuiPtrArray \<Rightarrow> CDuiPtrArray result" where
  "move_cells dst src n a =
     (if src + n \<le> length (m_ppVoid a) \<and> dst + n \<le> length (m_ppVoid a)
      then Inr (a\<lparr>m_ppVoid := take dst (m_ppVoid a) @ take n (drop src (m_ppVoid a)) @ drop (dst + n) (m_ppVoid a)\<rparr>)
      else Inl Out_Of_Range)"

definition InsertAt :: "heap_answers \<Rightarrow> int \<Rightarrow> nat \<Rightarrow> CDuiPtrArray \<Rightarrow> (bool \<times> CDuiPtrArray) result" where
  "InsertAt H iIndex pData a =
     (if iIndex = int (m_nCount a) then Add_array H pData a
      else if iIndex < 0 \<or> iIndex > int (m_nCount a) then Inr (False, a)
      else
        let i = nat iIndex
        in case make_room H a of
             None \<Rightarrow> Inr (False, a)
           | Some a \<Rightarrow>
               rbind (move_cells (i + 1) i (m_nCount a - i - 1) a) (\<lambda>a.
               rbind (store i pData a) (\<lambda>a. Inr (True, a))))"

definition SetAt_array :: "int \<Rightarrow> nat \<Rightarrow> CDuiPtrArray \<Rightarrow> (bool \<times> CDuiPtrArray) result" where
  "SetAt_array iIndex pData a =
     (if iIndex < 0 \<or> iIndex \<ge> int (m_nCount a) then Inr (False, a)
      else rbind (store (nat iIndex) pData a) (\<lambda>a. Inr (True, a)))"

definition Remove_array :: "int \<Rightarrow> int \<Rightarrow> CDuiPtrArray \<Rightarrow> (bool \<times> CDuiPtrArray) result" where
  "Remove_array iIndex iCount a =
     (if iIndex < 0 \<or> iCount \<le> 0 \<or> iIndex + iCount > int (m_nCount a) then Inr (False, a)
      else
        let i = nat iIndex; n = nat iCount
        in rbind (if i + n < m_nCount a then move_cells i (i + n) (m_nCount a - i - n) a else Inr a) (\<lambda>a.
           Inr (True, a\<lparr>m_nCount := m_nCount a - n\<rparr>)))"

fun find_from :: "nat \<Rightarrow> nat \<Rightarrow> nat list \<Rightarrow> int" where
  "find_from i p [] = - 1"
| "find_from i p (x # xs) = (if x = p then int i else find_from (i + 1) p xs)"

definition CDuiPtrArray_copy :: "heap_answers \<Rightarrow> CDuiPtrArray \<Rightarrow> CDuiPtrArray result" where
  "CDuiPtrArray_copy H src =
     fold (\<lambda>p r. rbind r (\<lambda>a. rbind (Add_array H p a) (\<lambda>(b, a). Inr a)))
       (take (m_nCount src) (m_ppVoid src)) (Inr \<lparr>m_ppVoid = [], m_nCount = 0\<rparr>)"

definition Find_array :: "nat \<Rightarrow> CDuiPtrArray \<Rightarrow> int" where
  "Find_array pData a = find_from 0 pData (take (m_nCount a) (m_ppVoid a))"

definition GetAt_array :: "int \<Rightarrow> CDuiPtrArray \<Rightarrow> nat result" where
  "GetAt_array iIndex a =
     (if iIndex < 0 \<or> iIndex \<ge> int (m_nCount a) then Inr 0
      else if nat iIndex < length (m_ppVoid a) then Inr (m_ppVoid a ! nat iIndex) else Inl Out_Of_Range)"

section \<open>The hash table\<close>

type_synonym items = "(string \<times> nat) list"

record CDuiStringPtrMap =
  m_aT :: "items list"
  m_nBuckets :: nat
  m_nItems :: nat

definition schar :: "char \<Rightarrow> u32" where
  "schar c = (if of_char c < (128 :: nat) then of_nat (of_char c) else of_nat (of_char c) - 256)"

definition HashKey :: "string \<Rightarrow> u32" where
  "HashKey Key = fold (\<lambda>c i. push_bit 5 i + i + schar c) (rev Key) 0"

definition CDuiStringPtrMap_ctor :: "int \<Rightarrow> CDuiStringPtrMap" where
  "CDuiStringPtrMap_ctor nSize =
     (let nSize = (if nSize < 16 then 16 else nSize)
      in \<lparr>m_aT = replicate (nat nSize) [], m_nBuckets = nat nSize, m_nItems = 0\<rparr>)"

definition Resize_map :: "int \<Rightarrow> CDuiStringPtrMap \<Rightarrow> CDuiStringPtrMap" where
  "Resize_map nSize m = \<lparr>m_aT = replicate (nat nSize) [], m_nBuckets = nat nSize, m_nItems = 0\<rparr>"

definition RemoveAll :: "CDuiStringPtrMap \<Rightarrow> CDuiStringPtrMap" where
  "RemoveAll m = Resize_map (int (m_nBuckets m)) m"

definition slot :: "CDuiStringPtrMap \<Rightarrow> string \<Rightarrow> nat" where
  "slot m key = unat (HashKey key) mod m_nBuckets m"

text \<open>The walk through a bucket: what is in front of the item, its data, and what is behind it.\<close>

fun walk :: "string \<Rightarrow> items \<Rightarrow> (items \<times> nat \<times> items) option" where
  "walk key [] = None"
| "walk key ((k, d) # b) =
     (if k = key then Some ([], d, b)
      else case walk key b of None \<Rightarrow> None | Some (xs, e, ys) \<Rightarrow> Some ((k, d) # xs, e, ys))"

definition Find_map :: "string \<Rightarrow> bool \<Rightarrow> CDuiStringPtrMap \<Rightarrow> nat \<times> CDuiStringPtrMap" where
  "Find_map key optimize m =
     (if m_nBuckets m = 0 \<or> m_nItems m = 0 then (0, m)
      else
        let s = slot m key
        in case walk key (m_aT m ! s) of
             None \<Rightarrow> (0, m)
           | Some (xs, d, ys) \<Rightarrow>
               (d, if optimize \<and> xs \<noteq> [] then m\<lparr>m_aT := (m_aT m)[s := (key, d) # xs @ ys]\<rparr> else m))"

definition Insert :: "string \<Rightarrow> nat \<Rightarrow> CDuiStringPtrMap \<Rightarrow> bool \<times> CDuiStringPtrMap" where
  "Insert key pData m =
     (if m_nBuckets m = 0 then (False, m)
      else
        let (p, m) = Find_map key True m
        in if p \<noteq> 0 then (False, m)
           else
             let s = slot m key
             in (True, m\<lparr>m_aT := (m_aT m)[s := (key, pData) # m_aT m ! s], m_nItems := m_nItems m + 1\<rparr>))"

definition Set_map :: "string \<Rightarrow> nat \<Rightarrow> CDuiStringPtrMap \<Rightarrow> nat \<times> CDuiStringPtrMap" where
  "Set_map key pData m =
     (if m_nBuckets m = 0 then (pData, m)
      else
        let s = slot m key
        in case (if m_nItems m > 0 then walk key (m_aT m ! s) else None) of
             Some (xs, d, ys) \<Rightarrow> (d, m\<lparr>m_aT := (m_aT m)[s := xs @ (key, pData) # ys]\<rparr>)
           | None \<Rightarrow> (0, snd (Insert key pData m)))"

definition Remove_map :: "string \<Rightarrow> CDuiStringPtrMap \<Rightarrow> bool \<times> CDuiStringPtrMap" where
  "Remove_map key m =
     (if m_nBuckets m = 0 \<or> m_nItems m = 0 then (False, m)
      else
        let s = slot m key
        in case walk key (m_aT m ! s) of
             None \<Rightarrow> (False, m)
           | Some (xs, d, ys) \<Rightarrow>
               (True, m\<lparr>m_aT := (m_aT m)[s := xs @ ys], m_nItems := m_nItems m - 1\<rparr>))"

definition GetSize :: "CDuiStringPtrMap \<Rightarrow> nat" where
  "GetSize m = m_nItems m"

text \<open>The keys in the order of the buckets, the last bucket first; \<open>None\<close> is \<open>NULL\<close>.\<close>

definition GetAt_map :: "int \<Rightarrow> CDuiStringPtrMap \<Rightarrow> string option" where
  "GetAt_map iIndex m =
     (if m_nBuckets m = 0 \<or> GetSize m = 0 then None
      else
        let keys = map fst (concat (rev (m_aT m)))
        in if 0 \<le> iIndex \<and> nat iIndex < length keys then Some (keys ! nat iIndex) else None)"

section \<open>An array is a list\<close>

definition arr_ok :: "CDuiPtrArray \<Rightarrow> bool" where
  "arr_ok a \<longleftrightarrow> m_nCount a \<le> length (m_ppVoid a)"

definition elements :: "CDuiPtrArray \<Rightarrow> nat list" where
  "elements a = take (m_nCount a) (m_ppVoid a)"

lemma length_elements: "arr_ok a \<Longrightarrow> length (elements a) = m_nCount a"
  by (simp add: arr_ok_def elements_def)

lemma make_room_Some:
  assumes "arr_ok a" and "make_room H a = Some a'"
  shows "m_nCount a' = m_nCount a + 1 \<and> m_nCount a' \<le> length (m_ppVoid a') \<and> take (m_nCount a) (m_ppVoid a') = elements a"
  using assms by (auto simp: make_room_def arr_ok_def elements_def m_nAllocated_def Let_def split: if_splits)
    (cases "m_ppVoid a"; simp)

lemma Add_list:
  assumes "arr_ok a"
  obtains b a' where "Add_array H p a = Inr (b, a')" "arr_ok a'" "elements a' = (if b then elements a @ [p] else elements a)"
proof (cases "make_room H a")
  case None
  then show thesis using that [of False a] assms by (simp add: Add_array_def)
next
  case (Some r)
  let ?a = "r\<lparr>m_ppVoid := (m_ppVoid r)[m_nCount a := p]\<rparr>"
  have r: "m_nCount r = m_nCount a + 1" "m_nCount r \<le> length (m_ppVoid r)" "take (m_nCount a) (m_ppVoid r) = elements a"
    using make_room_Some [OF assms Some] by auto
  then have "Add_array H p a = Inr (True, ?a)" using Some by (simp add: Add_array_def store_def)
  moreover have "elements ?a = elements a @ [p]"
    using r by (simp add: elements_def take_Suc_conv_app_nth)
  ultimately show thesis using that [of True ?a] r by (simp add: arr_ok_def)
qed

lemma insert_cells:
  assumes "i < c" and "c < length xs"
  shows "take (c + 1) ((take (i + 1) xs @ take (c - i) (drop i xs) @ drop (c + 1) xs)[i := p])
    = take i (take c xs) @ p # drop i (take c xs)"
proof -
  have "(take (i + 1) xs @ ys)[i := p] = take i xs @ p # ys" for ys
    using assms by (simp add: take_Suc_conv_app_nth list_update_append)
  then show ?thesis using assms by (simp add: drop_take min_def Suc_diff_le)
qed

lemma InsertAt_list:
  assumes "arr_ok a"
  obtains b a' where "InsertAt H i p a = Inr (b, a')" "arr_ok a'" "b \<Longrightarrow> 0 \<le> i \<and> i \<le> int (length (elements a))"
    "elements a' = (if b then take (nat i) (elements a) @ p # drop (nat i) (elements a) else elements a)"
proof -
  consider "i = int (m_nCount a)" | "i < 0 \<or> i > int (m_nCount a)" | "0 \<le> i" "i < int (m_nCount a)" by linarith
  then show thesis
  proof cases
    case 1
    then have "InsertAt H i p a = Add_array H p a" by (simp add: InsertAt_def)
    moreover obtain b a' where "Add_array H p a = Inr (b, a')" "arr_ok a'"
        "elements a' = (if b then elements a @ [p] else elements a)"
      using Add_list [OF assms] .
    ultimately show thesis using that [of b a'] 1 length_elements [OF assms] by simp
  next
    case 2
    then show thesis using that [of False a] assms by (auto simp: InsertAt_def)
  next
    case 3
    show thesis
    proof (cases "make_room H a")
      case None
      then show thesis using that [of False a] assms 3 by (simp add: InsertAt_def)
    next
      case (Some r)
      let ?i = "nat i"
      have r: "m_nCount r = m_nCount a + 1" "m_nCount r \<le> length (m_ppVoid r)" "take (m_nCount a) (m_ppVoid r) = elements a"
        using make_room_Some [OF assms Some] by auto
      have i: "?i < m_nCount a" using 3 by linarith
      let ?v = "take (?i + 1) (m_ppVoid r) @ take (m_nCount a - ?i) (drop ?i (m_ppVoid r)) @ drop (m_nCount r) (m_ppVoid r)"
      let ?a = "r\<lparr>m_ppVoid := ?v[?i := p]\<rparr>"
      have "InsertAt H i p a = Inr (True, ?a)"
        using 3 r i Some by (simp add: InsertAt_def move_cells_def store_def Let_def)
      moreover have "arr_ok ?a" using r i by (simp add: arr_ok_def)
      moreover have "elements ?a = take ?i (elements a) @ p # drop ?i (elements a)"
        using insert_cells [of ?i "m_nCount a" "m_ppVoid r" p] r i by (simp add: elements_def)
      ultimately show thesis using that [of True ?a] 3 length_elements [OF assms] by simp
    qed
  qed
qed

lemma cut_out:
  assumes "i + n + k = c" and "c \<le> length xs"
  shows "take (c - n) (take i xs @ take k (drop (i + n) xs) @ drop (i + k) xs) = take i xs @ drop (i + n) (take c xs)"
    and "length (take i xs @ take k (drop (i + n) xs) @ drop (i + k) xs) = length xs"
proof -
  have c: "c - n = i + k" "c - (i + n) = k" and len: "length (take i xs) = i" "length (take k (drop (i + n) xs)) = k"
    using assms by auto
  show "take (c - n) (take i xs @ take k (drop (i + n) xs) @ drop (i + k) xs) = take i xs @ drop (i + n) (take c xs)"
    unfolding c(1) drop_take c(2) using len by simp
  show "length (take i xs @ take k (drop (i + n) xs) @ drop (i + k) xs) = length xs" using assms by simp
qed

lemma Remove_list:
  assumes "arr_ok a"
  obtains b a' where "Remove_array i n a = Inr (b, a')" "arr_ok a'"
    "b \<longleftrightarrow> 0 \<le> i \<and> 0 < n \<and> i + n \<le> int (length (elements a))"
    "elements a' = (if b then take (nat i) (elements a) @ drop (nat (i + n)) (elements a) else elements a)"
proof (cases "0 \<le> i \<and> 0 < n \<and> i + n \<le> int (m_nCount a)")
  case False
  then show thesis using that [of False a] assms length_elements [OF assms] by (auto simp: Remove_array_def)
next
  case True
  define k where "k = m_nCount a - nat i - nat n"
  have c: "nat i + nat n + k = m_nCount a" "m_nCount a \<le> length (m_ppVoid a)" "nat (i + n) = nat i + nat n"
    using True assms by (auto simp: arr_ok_def k_def)
  let ?v = "if 0 < k then take (nat i) (m_ppVoid a) @ take k (drop (nat i + nat n) (m_ppVoid a)) @ drop (nat i + k) (m_ppVoid a)
    else m_ppVoid a"
  let ?a = "a\<lparr>m_ppVoid := ?v, m_nCount := m_nCount a - nat n\<rparr>"
  have e: "m_nCount a - nat i - nat n = k" "(nat i + nat n < m_nCount a) = (0 < k)"
      "\<not> (i < 0 \<or> n \<le> 0 \<or> i + n > int (m_nCount a))" "nat i + nat n + k \<le> length (m_ppVoid a)"
      "nat i + k \<le> length (m_ppVoid a)"
    using True c(1,2) by (simp_all only: k_def not_less not_le de_Morgan_disj) linarith+
  have "Remove_array i n a = Inr (True, ?a)"
    unfolding Remove_array_def move_cells_def Let_def e(1,2) if_not_P [OF e(3)] using e(4,5) by simp
  moreover have "arr_ok ?a \<and> elements ?a = take (nat i) (elements a) @ drop (nat i + nat n) (elements a)"
  proof (cases "k = 0")
    case True
    then have "m_nCount a - nat n = nat i" using c(1) by linarith
    then show ?thesis using True c by (simp add: arr_ok_def elements_def)
  next
    case False
    let ?w = "take (nat i) (m_ppVoid a) @ take k (drop (nat i + nat n) (m_ppVoid a)) @ drop (nat i + k) (m_ppVoid a)"
    have "elements ?a = take (m_nCount a - nat n) ?w" using False by (simp add: elements_def)
    also have "\<dots> = take (nat i) (m_ppVoid a) @ drop (nat i + nat n) (take (m_nCount a) (m_ppVoid a))"
      by (rule cut_out(1) [OF c(1,2)])
    also have "\<dots> = take (nat i) (elements a) @ drop (nat i + nat n) (elements a)"
      using c(1) by (simp add: elements_def min_def)
    finally have "elements ?a = take (nat i) (elements a) @ drop (nat i + nat n) (elements a)" .
    moreover have "length (m_ppVoid ?a) = length (m_ppVoid a)" using False cut_out(2) [OF c(1,2)] by (simp del: length_append)
    ultimately show ?thesis using c(2) by (simp add: arr_ok_def)
  qed
  ultimately show thesis using that [of True ?a] True c length_elements [OF assms] by simp
qed

lemma SetAt_list:
  assumes "arr_ok a"
  obtains b a' where "SetAt_array i p a = Inr (b, a')" "arr_ok a'"
    "elements a' = (if b then (elements a)[nat i := p] else elements a)"
proof (cases "0 \<le> i \<and> i < int (m_nCount a)")
  case False
  then show thesis using that [of False a] assms by (auto simp: SetAt_array_def)
next
  case True
  let ?a = "a\<lparr>m_ppVoid := (m_ppVoid a)[nat i := p]\<rparr>"
  have "SetAt_array i p a = Inr (True, ?a)"
    using True assms by (auto simp: SetAt_array_def store_def arr_ok_def)
  then show thesis using that [of True ?a] assms by (simp add: arr_ok_def elements_def take_update_swap)
qed

lemma find_from_first:
  "find_from k p xs = (if p \<in> set xs then int (k + length (takeWhile (\<lambda>x. x \<noteq> p) xs)) else - 1)"
  by (induction xs arbitrary: k) auto

section \<open>The hash table is a map\<close>

definition bucket_ok :: "CDuiStringPtrMap \<Rightarrow> nat \<Rightarrow> bool" where
  "bucket_ok m i \<longleftrightarrow> distinct (map fst (m_aT m ! i)) \<and> (\<forall>k \<in> fst ` set (m_aT m ! i). slot m k = i)"

definition ptr_map_ok :: "CDuiStringPtrMap \<Rightarrow> bool" where
  "ptr_map_ok m \<longleftrightarrow> 0 < m_nBuckets m \<and> length (m_aT m) = m_nBuckets m
     \<and> m_nItems m = sum_list (map length (m_aT m)) \<and> (\<forall>i < m_nBuckets m. bucket_ok m i)"

definition lookup :: "CDuiStringPtrMap \<Rightarrow> string \<Rightarrow> nat option" where
  "lookup m key = map_of (m_aT m ! slot m key) key"

lemma slot_bound: "ptr_map_ok m \<Longrightarrow> slot m key < length (m_aT m)"
  by (simp add: ptr_map_ok_def slot_def)

lemma slot_update [simp]: "slot (m\<lparr>m_aT := t\<rparr>) key = slot m key" "slot (m\<lparr>m_nItems := n\<rparr>) key = slot m key"
  by (simp_all add: slot_def)

lemma walk_Some: "walk key b = Some (xs, d, ys) \<Longrightarrow> b = xs @ (key, d) # ys \<and> key \<notin> fst ` set xs"
proof (induction b arbitrary: xs)
  case (Cons kd b)
  obtain k e where kd: "kd = (k, e)" by (cases kd)
  show ?case
  proof (cases "k = key")
    case True
    then show ?thesis using Cons.prems by (simp add: kd)
  next
    case False
    then obtain xs' where "walk key b = Some (xs', d, ys)" "xs = (k, e) # xs'"
      using Cons.prems by (cases "walk key b") (auto simp: kd)
    then show ?thesis using Cons.IH False by (simp add: kd)
  qed
qed simp

lemma walk_None: "walk key b = None \<longleftrightarrow> key \<notin> fst ` set b"
proof (induction b)
  case (Cons kd b)
  then show ?case by (cases kd; cases "walk key b") auto
qed simp

lemma no_items: "ptr_map_ok m \<Longrightarrow> m_nItems m = 0 \<Longrightarrow> m_aT m ! slot m key = []"
  using nth_mem [OF slot_bound, of m key] by (simp add: ptr_map_ok_def)

text \<open>A bucket is replaced by another with keys of the same slot.\<close>

lemma replace_bucket:
  assumes "ptr_map_ok m" and "distinct (map fst b)" and "\<forall>k \<in> fst ` set b. slot m k = s" and "s < m_nBuckets m"
    and "n + length (m_aT m ! s) = m_nItems m + length b"
  shows "ptr_map_ok (m\<lparr>m_aT := (m_aT m)[s := b], m_nItems := n\<rparr>)"
    and "lookup (m\<lparr>m_aT := (m_aT m)[s := b], m_nItems := n\<rparr>) key = (if slot m key = s then map_of b key else lookup m key)"
proof -
  have s: "s < length (m_aT m)" using assms by (simp add: ptr_map_ok_def)
  have "sum_list (map length (m_aT m)) =
      sum_list (map length (take s (m_aT m))) + length (m_aT m ! s) + sum_list (map length (drop (Suc s) (m_aT m)))"
    using arg_cong [OF id_take_nth_drop [OF s], of "\<lambda>t. sum_list (map length t)"] by simp
  moreover have "sum_list (map length ((m_aT m)[s := b])) =
      sum_list (map length (take s (m_aT m))) + length b + sum_list (map length (drop (Suc s) (m_aT m)))"
    using s by (simp add: upd_conv_take_nth_drop)
  ultimately show "ptr_map_ok (m\<lparr>m_aT := (m_aT m)[s := b], m_nItems := n\<rparr>)"
    using assms s by (auto simp: ptr_map_ok_def bucket_ok_def nth_list_update)
  show "lookup (m\<lparr>m_aT := (m_aT m)[s := b], m_nItems := n\<rparr>) key = (if slot m key = s then map_of b key else lookup m key)"
    using s by (auto simp: lookup_def nth_list_update)
qed

lemma not_found:
  assumes "ptr_map_ok m" and "walk key (m_aT m ! slot m key) = None"
  shows "lookup m key = None"
  using assms by (simp add: lookup_def walk_None map_of_eq_None_iff)

lemma found_at:
  assumes ok: "ptr_map_ok m" and w: "walk key (m_aT m ! slot m key) = Some (xs, d, ys)"
  shows "m_aT m ! slot m key = xs @ (key, d) # ys" "lookup m key = Some d" "0 < m_nItems m"
    "distinct (key # map fst (xs @ ys))" "\<forall>k \<in> insert key (fst ` set (xs @ ys)). slot m k = slot m key"
    "map_of (xs @ ys) = (map_of (xs @ (key, d) # ys))(key := None)"
    "map_of (xs @ (key, p) # ys) = (map_of (xs @ (key, d) # ys))(key \<mapsto> p)"
proof -
  show b: "m_aT m ! slot m key = xs @ (key, d) # ys" using walk_Some [OF w] by simp
  show "0 < m_nItems m" using no_items [OF ok, of key] b by (cases "m_nItems m") auto
  have "bucket_ok m (slot m key)" using ok by (simp add: ptr_map_ok_def slot_def)
  then have dist: "distinct (map fst (xs @ (key, d) # ys))" "\<forall>k \<in> fst ` set (xs @ (key, d) # ys). slot m k = slot m key"
    unfolding bucket_ok_def b by blast+
  then show "distinct (key # map fst (xs @ ys))" "\<forall>k \<in> insert key (fst ` set (xs @ ys)). slot m k = slot m key" by auto
  have none: "map_of xs key = None" "map_of ys key = None" using dist(1) by (auto simp: map_of_eq_None_iff)
  then show "lookup m key = Some d" by (simp add: lookup_def b map_add_def)
  show "map_of (xs @ ys) = (map_of (xs @ (key, d) # ys))(key := None)"
    "map_of (xs @ (key, p) # ys) = (map_of (xs @ (key, d) # ys))(key \<mapsto> p)"
    using none by (auto simp: fun_eq_iff map_add_def split: option.split)
qed

lemma slot_lt: "ptr_map_ok m \<Longrightarrow> slot m key < m_nBuckets m"
  by (simp add: ptr_map_ok_def slot_def)

lemma Find_map_ok:
  assumes ok: "ptr_map_ok m"
  shows "ptr_map_ok (snd (Find_map key opt m)) \<and> lookup (snd (Find_map key opt m)) = lookup m
    \<and> fst (Find_map key opt m) = (case lookup m key of None \<Rightarrow> 0 | Some d \<Rightarrow> d)
    \<and> slot (snd (Find_map key opt m)) = slot m"
proof (cases "walk key (m_aT m ! slot m key)")
  case None
  then show ?thesis using ok not_found [OF ok None] by (simp add: Find_map_def)
next
  case (Some r)
  then obtain xs d ys where w: "walk key (m_aT m ! slot m key) = Some (xs, d, ys)" by (cases r) auto
  note f = found_at [OF ok w]
  let ?b = "(key, d) # xs @ ys"
  let ?m = "m\<lparr>m_aT := (m_aT m)[slot m key := ?b]\<rparr>"
  have "distinct (map fst ?b)" "\<forall>k \<in> fst ` set ?b. slot m k = slot m key"
      "m_nItems m + length (m_aT m ! slot m key) = m_nItems m + length ?b"
    using f(4,5) by (simp_all add: f(1))
  note upd = replace_bucket [OF ok this(1,2) slot_lt [OF ok] this(3)]
  have "map_of ?b k = map_of (m_aT m ! slot m key) k" for k
    using f(2,6) by (simp add: f(1) lookup_def)
  then have "lookup ?m k = lookup m k" for k using upd(2) [of k] by (auto simp: lookup_def)
  then have "ptr_map_ok ?m" "lookup ?m = lookup m" "slot ?m = slot m" using upd(1) by (auto simp: fun_eq_iff)
  moreover have "m_nBuckets m \<noteq> 0" using ok by (simp add: ptr_map_ok_def)
  ultimately show ?thesis using f(2,3) w ok by (simp add: Find_map_def Let_def)
qed

text \<open>An item is put in front of its bucket.\<close>

lemma put_front:
  assumes ok: "ptr_map_ok m" and none: "lookup m key = None"
  shows "ptr_map_ok (m\<lparr>m_aT := (m_aT m)[slot m key := (key, p) # m_aT m ! slot m key], m_nItems := m_nItems m + 1\<rparr>)"
    and "lookup (m\<lparr>m_aT := (m_aT m)[slot m key := (key, p) # m_aT m ! slot m key], m_nItems := m_nItems m + 1\<rparr>)
      = (lookup m)(key \<mapsto> p)"
proof -
  let ?b = "(key, p) # m_aT m ! slot m key"
  have "bucket_ok m (slot m key)" using ok by (simp add: ptr_map_ok_def slot_def)
  then have "distinct (map fst ?b)" "\<forall>k \<in> fst ` set ?b. slot m k = slot m key"
      "m_nItems m + 1 + length (m_aT m ! slot m key) = m_nItems m + length ?b"
    using none by (auto simp: bucket_ok_def lookup_def map_of_eq_None_iff)
  note upd = replace_bucket [OF ok this(1,2) slot_lt [OF ok] this(3)]
  show "ptr_map_ok (m\<lparr>m_aT := (m_aT m)[slot m key := ?b], m_nItems := m_nItems m + 1\<rparr>)" by (rule upd(1))
  show "lookup (m\<lparr>m_aT := (m_aT m)[slot m key := ?b], m_nItems := m_nItems m + 1\<rparr>) = (lookup m)(key \<mapsto> p)"
  proof
    fix k
    show "lookup (m\<lparr>m_aT := (m_aT m)[slot m key := ?b], m_nItems := m_nItems m + 1\<rparr>) k = ((lookup m)(key \<mapsto> p)) k"
      unfolding upd(2) by (auto simp: lookup_def)
  qed
qed

lemma Insert_ok:
  assumes ok: "ptr_map_ok m" and none: "lookup m key = None"
  shows "fst (Insert key p m)" "ptr_map_ok (snd (Insert key p m))" "lookup (snd (Insert key p m)) = (lookup m)(key \<mapsto> p)"
proof -
  define m1 where "m1 = snd (Find_map key True m)"
  have m1: "ptr_map_ok m1" "lookup m1 = lookup m" "Find_map key True m = (0, m1)"
    using Find_map_ok [OF ok, of key True] none by (simp_all add: m1_def prod_eq_iff)
  have "m_nBuckets m \<noteq> 0" using ok by (simp add: ptr_map_ok_def)
  then have "Insert key p m =
      (True, m1\<lparr>m_aT := (m_aT m1)[slot m1 key := (key, p) # m_aT m1 ! slot m1 key], m_nItems := m_nItems m1 + 1\<rparr>)"
    by (simp add: Insert_def m1(3) Let_def)
  then show "fst (Insert key p m)" "ptr_map_ok (snd (Insert key p m))" "lookup (snd (Insert key p m)) = (lookup m)(key \<mapsto> p)"
    using put_front [OF m1(1), of key p] none m1(2) by simp_all
qed

lemma Insert_present:
  assumes ok: "ptr_map_ok m" and "lookup m key = Some d" and "d \<noteq> 0"
  shows "\<not> fst (Insert key p m)" "ptr_map_ok (snd (Insert key p m))" "lookup (snd (Insert key p m)) = lookup m"
proof -
  obtain m1 where m1: "Find_map key True m = (d, m1)" "ptr_map_ok m1" "lookup m1 = lookup m"
    using Find_map_ok [OF ok, of key True] assms(2) by (cases "Find_map key True m") simp
  moreover have "m_nBuckets m \<noteq> 0" using ok by (simp add: ptr_map_ok_def)
  ultimately show "\<not> fst (Insert key p m)" "ptr_map_ok (snd (Insert key p m))" "lookup (snd (Insert key p m)) = lookup m"
    using assms(3) by (simp_all add: Insert_def)
qed

lemma Set_map_ok:
  assumes ok: "ptr_map_ok m"
  shows "ptr_map_ok (snd (Set_map key p m))" "lookup (snd (Set_map key p m)) = (lookup m)(key \<mapsto> p)"
    "fst (Set_map key p m) = (case lookup m key of None \<Rightarrow> 0 | Some d \<Rightarrow> d)"
proof -
  have nb: "m_nBuckets m \<noteq> 0" using ok by (simp add: ptr_map_ok_def)
  have "ptr_map_ok (snd (Set_map key p m)) \<and> lookup (snd (Set_map key p m)) = (lookup m)(key \<mapsto> p)
    \<and> fst (Set_map key p m) = (case lookup m key of None \<Rightarrow> 0 | Some d \<Rightarrow> d)"
  proof (cases "walk key (m_aT m ! slot m key)")
    case None
    then show ?thesis using nb not_found [OF ok None] Insert_ok [OF ok, of key p] by (simp add: Set_map_def Let_def)
  next
    case (Some r)
    then obtain xs d ys where w: "walk key (m_aT m ! slot m key) = Some (xs, d, ys)" by (cases r) auto
    note f = found_at [OF ok w]
    let ?b = "xs @ (key, p) # ys"
    let ?m = "m\<lparr>m_aT := (m_aT m)[slot m key := ?b]\<rparr>"
    have "distinct (map fst ?b)" "\<forall>k \<in> fst ` set ?b. slot m k = slot m key"
        "m_nItems m + length (m_aT m ! slot m key) = m_nItems m + length ?b"
      using f(4,5) by (auto simp: f(1))
    note upd = replace_bucket [OF ok this(1,2) slot_lt [OF ok] this(3)]
    have "lookup ?m k = ((lookup m)(key \<mapsto> p)) k" for k
      using upd(2) [of k] f(7) [of p] by (auto simp: lookup_def f(1))
    then have "ptr_map_ok ?m" "lookup ?m = (lookup m)(key \<mapsto> p)" using upd(1) by auto
    then show ?thesis using nb f(2,3) w by (simp add: Set_map_def Let_def)
  qed
  then show "ptr_map_ok (snd (Set_map key p m))" "lookup (snd (Set_map key p m)) = (lookup m)(key \<mapsto> p)"
    "fst (Set_map key p m) = (case lookup m key of None \<Rightarrow> 0 | Some d \<Rightarrow> d)" by auto
qed

lemma Remove_map_ok:
  assumes ok: "ptr_map_ok m"
  shows "ptr_map_ok (snd (Remove_map key m)) \<and> lookup (snd (Remove_map key m)) = (lookup m)(key := None)
    \<and> fst (Remove_map key m) = (lookup m key \<noteq> None)"
proof (cases "walk key (m_aT m ! slot m key)")
  case None
  then show ?thesis using ok not_found [OF ok None] by (simp add: Remove_map_def fun_upd_idem Let_def)
next
  case (Some r)
  then obtain xs d ys where w: "walk key (m_aT m ! slot m key) = Some (xs, d, ys)" by (cases r) auto
  note f = found_at [OF ok w]
  let ?b = "xs @ ys"
  let ?m = "m\<lparr>m_aT := (m_aT m)[slot m key := ?b], m_nItems := m_nItems m - 1\<rparr>"
  have "distinct (map fst ?b)" "\<forall>k \<in> fst ` set ?b. slot m k = slot m key"
      "m_nItems m - 1 + length (m_aT m ! slot m key) = m_nItems m + length ?b"
    using f(3-5) by (auto simp: f(1))
  note upd = replace_bucket [OF ok this(1,2) slot_lt [OF ok] this(3)]
  have "lookup ?m k = ((lookup m)(key := None)) k" for k
    using upd(2) [of k] f(6) by (auto simp: lookup_def f(1))
  then have "ptr_map_ok ?m" "lookup ?m = (lookup m)(key := None)" using upd(1) by auto
  moreover have "m_nBuckets m \<noteq> 0" using ok by (simp add: ptr_map_ok_def)
  ultimately show ?thesis using f(2,3) w by (simp add: Remove_map_def Let_def)
qed

lemma ctor_ok: "ptr_map_ok (CDuiStringPtrMap_ctor n)" "lookup (CDuiStringPtrMap_ctor n) key = None"
  by (auto simp: CDuiStringPtrMap_ctor_def ptr_map_ok_def bucket_ok_def lookup_def slot_def Let_def sum_list_replicate)

interpretation dui_map: std_map "CDuiStringPtrMap_ctor n" lookup
    "\<lambda>k p m. snd (Set_map k p m)" "\<lambda>k m. snd (Remove_map k m)" ptr_map_ok for n
  by unfold_locales (auto simp: ctor_ok Set_map_ok Remove_map_ok)

section \<open>Properties\<close>



text \<open>Operations on a hash table with their answers, and the same on a map.\<close>

datatype map_op =
    Op_Find string bool
  | Op_Insert string nat
  | Op_Set string nat
  | Op_Remove string

fun do_op :: "map_op \<Rightarrow> CDuiStringPtrMap \<Rightarrow> nat \<times> CDuiStringPtrMap" where
  "do_op (Op_Find k opt) m = Find_map k opt m"
| "do_op (Op_Insert k p) m = map_prod of_bool id (Insert k p m)"
| "do_op (Op_Set k p) m = Set_map k p m"
| "do_op (Op_Remove k) m = map_prod of_bool id (Remove_map k m)"

fun spec_op :: "map_op \<Rightarrow> (string \<Rightarrow> nat option) \<Rightarrow> nat \<times> (string \<Rightarrow> nat option)" where
  "spec_op (Op_Find k opt) f = (case f k of None \<Rightarrow> 0 | Some d \<Rightarrow> d, f)"
| "spec_op (Op_Insert k p) f = (if f k = None then (1, f(k \<mapsto> p)) else (0, f))"
| "spec_op (Op_Set k p) f = (case f k of None \<Rightarrow> 0 | Some d \<Rightarrow> d, f(k \<mapsto> p))"
| "spec_op (Op_Remove k) f = (of_bool (f k \<noteq> None), f(k := None))"

fun stores :: "map_op \<Rightarrow> nat option" where
  "stores (Op_Insert k p) = Some p"
| "stores (Op_Set k p) = Some p"
| "stores _ = None"

fun run_ops :: "(map_op \<Rightarrow> 'm \<Rightarrow> nat \<times> 'm) \<Rightarrow> map_op list \<Rightarrow> 'm \<Rightarrow> nat list \<times> 'm" where
  "run_ops f [] m = ([], m)"
| "run_ops f (x # xs) m = (let (r, m) = f x m; (rs, m) = run_ops f xs m in (r # rs, m))"

lemma do_op_spec:
  assumes ok: "ptr_map_ok m" and nn: "0 \<notin> ran (lookup m)" and st: "stores x \<noteq> Some 0"
  shows "fst (do_op x m) = fst (spec_op x (lookup m)) \<and> lookup (snd (do_op x m)) = snd (spec_op x (lookup m))
    \<and> ptr_map_ok (snd (do_op x m)) \<and> 0 \<notin> ran (lookup (snd (do_op x m)))"
proof (cases x)
  case (Op_Find k opt)
  then show ?thesis using Find_map_ok [OF ok, of k opt] nn by simp
next
  case (Op_Insert k p)
  show ?thesis
  proof (cases "lookup m k")
    case None
    then show ?thesis using Op_Insert Insert_ok [OF ok None, of p] nn st by (auto simp: ran_map_upd)
  next
    case (Some d)
    then have "d \<in> ran (lookup m)" by (rule ranI)
    then have "d \<noteq> 0" using nn by metis
    then show ?thesis using Op_Insert Insert_present [OF ok Some, of p] nn Some by simp
  qed
next
  case (Op_Set k p)
  then show ?thesis using Set_map_ok [OF ok, of k p] nn st by (auto simp: ran_def split: if_splits)
next
  case (Op_Remove k)
  then show ?thesis using Remove_map_ok [OF ok, of k] nn by (auto simp: ran_def split: if_splits)
qed

text \<open>
  C18: a new hash table answers every sequence of searches, insertions, replacements and removals
  as a map does, as long as no \<open>NULL\<close> is stored: moving what was found to the front of its bucket
  is not seen from outside.
\<close>

theorem ptr_map_refines_map:
  assumes "list_all (\<lambda>x. stores x \<noteq> Some 0) xs"
  shows "fst (run_ops do_op xs (CDuiStringPtrMap_ctor n)) = fst (run_ops spec_op xs Map.empty)
    \<and> lookup (snd (run_ops do_op xs (CDuiStringPtrMap_ctor n))) = snd (run_ops spec_op xs Map.empty)"
proof -
  have "fst (run_ops do_op xs m) = fst (run_ops spec_op xs (lookup m))
      \<and> lookup (snd (run_ops do_op xs m)) = snd (run_ops spec_op xs (lookup m))"
    if "ptr_map_ok m" "0 \<notin> ran (lookup m)" for m
    using that assms
  proof (induction xs arbitrary: m)
    case (Cons x xs)
    then have "fst (do_op x m) = fst (spec_op x (lookup m)) \<and> lookup (snd (do_op x m)) = snd (spec_op x (lookup m))
      \<and> ptr_map_ok (snd (do_op x m)) \<and> 0 \<notin> ran (lookup (snd (do_op x m)))"
      by (intro do_op_spec) simp_all
    then show ?case using Cons.IH [of "snd (do_op x m)"] Cons.prems(3)
      by (auto simp: split_beta Let_def)
  qed simp
  moreover have "lookup (CDuiStringPtrMap_ctor n) = Map.empty" by (simp add: ctor_ok fun_eq_iff)
  ultimately show ?thesis using ctor_ok(1) [of n] by (metis ran_empty empty_iff)
qed

theorem ptr_map_refines_map_witness:
  "fst (run_ops do_op [Op_Set ''a'' 3, Op_Insert ''a'' 4, Op_Find ''a'' True] (CDuiStringPtrMap_ctor 0)) = [0, 0, 3]"
  using ptr_map_refines_map [of "[Op_Set ''a'' 3, Op_Insert ''a'' 4, Op_Find ''a'' True]" 0] by simp

text \<open>
  A key stored with the data \<open>NULL\<close> is not seen by \<open>Insert\<close>: a second insertion succeeds, the
  table counts two items for one key, and after \<open>Remove\<close> the key is still there.
\<close>

theorem null_data_inserted_twice:
  assumes "ptr_map_ok m" and "lookup m k = None" and "m1 = snd (Insert k 0 m)" and "m2 = snd (Insert k p m1)"
  shows "fst (Insert k 0 m) \<and> fst (Insert k p m1) \<and> GetSize m2 = GetSize m1 + 1
    \<and> fst (Remove_map k m2) \<and> lookup (snd (Remove_map k m2)) k = Some 0"
proof -
  have m1: "fst (Insert k 0 m)" "ptr_map_ok m1" "lookup m1 k = Some 0"
    using Insert_ok [OF assms(1,2), of 0] assms(3) by simp_all
  define m' where "m' = snd (Find_map k True m1)"
  have m': "Find_map k True m1 = (0, m')" "ptr_map_ok m'" "lookup m' k = Some 0" "m_nItems m' = m_nItems m1"
    using Find_map_ok [OF m1(2), of k True] m1(3)
    by (simp_all add: m'_def prod_eq_iff) (simp add: Find_map_def Let_def split: option.splits)
  have nb: "m_nBuckets m1 \<noteq> 0" "m_nBuckets m' \<noteq> 0" "slot m' k < length (m_aT m')"
    using m1(2) m'(2) slot_lt [OF m'(2), of k] by (simp_all add: ptr_map_ok_def)
  have ins: "Insert k p m1 = (True, m'\<lparr>m_aT := (m_aT m')[slot m' k := (k, p) # m_aT m' ! slot m' k], m_nItems := m_nItems m' + 1\<rparr>)"
    using nb by (simp add: Insert_def m'(1) Let_def)
  then have "Remove_map k m2 = (True, m2\<lparr>m_aT := (m_aT m')[slot m' k := m_aT m' ! slot m' k], m_nItems := m_nItems m'\<rparr>)"
    using nb by (simp add: assms(4) Remove_map_def Let_def)
  then show ?thesis using m1(1) ins m'(3,4) nb by (simp add: assms(4) GetSize_def lookup_def)
qed

theorem null_data_inserted_twice_witness:
  "lookup (snd (Remove_map ''k'' (snd (Insert ''k'' 5 (snd (Insert ''k'' 0 (CDuiStringPtrMap_ctor 83))))))) ''k'' = Some 0"
  using null_data_inserted_twice [OF ctor_ok(1) [of 83] ctor_ok(2) [of 83 "''k''"] refl refl, of 5] by simp

end
