(* ===== verification/Dui_String.thy ===== *)
theory Dui_String
  imports Prelude "HOL-Library.Sublist"
begin

text \<open>
  \<open>CDuiString\<close>, the string class of DuiLib (\<open>src/dev/trunk/DuiLib/Utils/Utils.cpp\<close>), in the build with
  characters of one byte. A string of less than 63 characters is in the array \<open>m_szBuffer\<close> of
  the object, a longer one in memory of its own. Memory is a list of cells with an end, so that a
  read or write behind it is \<open>Out_Of_Range\<close>; what is in new memory is \<open>junk\<close>. The program has 32 bit
  addresses: an allocation of 2 GB or more returns \<open>NULL\<close>, smaller ones succeed. A pointer into
  memory is the cells from there on; pointers given as arguments are not into the string itself.
  The code page has no lead bytes, so that the functions of \<open>tchar.h\<close> work on bytes.
\<close>

section \<open>C strings in memory\<close>

type_synonym cells = "char list"

definition tcslen :: "cells \<Rightarrow> nat result" where
  "tcslen c = (if NUL \<in> set c then Inr (length (c_str c)) else Inl Out_Of_Range)"

definition put_at :: "nat \<Rightarrow> string \<Rightarrow> cells \<Rightarrow> cells result" where
  "put_at i s c =
     (if i + length s \<le> length c then Inr (take i c @ s @ drop (i + length s) c) else Inl Out_Of_Range)"

definition tcscpy :: "cells \<Rightarrow> cells \<Rightarrow> cells result" where
  "tcscpy dst src = rbind (tcslen src) (\<lambda>n. put_at 0 (take (n + 1) src) dst)"

definition tcscat :: "cells \<Rightarrow> cells \<Rightarrow> cells result" where
  "tcscat dst src =
     rbind (tcslen dst) (\<lambda>m. rbind (tcslen src) (\<lambda>n. put_at m (take (n + 1) src) dst))"

text \<open>\<open>_tcsncpy\<close> stops at the NUL and fills up with NULs.\<close>

definition tcsncpy :: "cells \<Rightarrow> cells \<Rightarrow> nat \<Rightarrow> cells result" where
  "tcsncpy dst src n =
     (if NUL \<in> set src \<or> n \<le> length src
      then put_at 0 (take n (c_str src) @ replicate (n - length (c_str src)) NUL) dst
      else Inl Out_Of_Range)"

definition ptr_at :: "cells \<Rightarrow> int \<Rightarrow> cells result" where
  "ptr_at c i = (if 0 \<le> i \<and> nat i \<le> length c then Inr (drop (nat i) c) else Inl Out_Of_Range)"

definition realloc_cells :: "(nat \<Rightarrow> char) \<Rightarrow> cells \<Rightarrow> nat \<Rightarrow> cells result" where
  "realloc_cells junk c n =
     (if n < 2 ^ 31 then Inr (take n c @ map junk [length c..<n]) else Inl Null_Pointer)"

section \<open>The class\<close>

definition MAX_LOCAL_STRING_LEN :: nat where
  "MAX_LOCAL_STRING_LEN = 63"

text \<open>\<open>m_pstr = None\<close> is the pointer to \<open>m_szBuffer\<close>.\<close>

record CDuiString =
  m_pstr :: "cells option"
  m_szBuffer :: cells

definition GetData :: "CDuiString \<Rightarrow> cells" where
  "GetData s = (case m_pstr s of None \<Rightarrow> m_szBuffer s | Some p \<Rightarrow> p)"

definition put_data :: "cells \<Rightarrow> CDuiString \<Rightarrow> CDuiString" where
  "put_data c s = (case m_pstr s of None \<Rightarrow> s\<lparr>m_szBuffer := c\<rparr> | Some p \<Rightarrow> s\<lparr>m_pstr := Some c\<rparr>)"

definition CDuiString_ctor :: "(nat \<Rightarrow> char) \<Rightarrow> CDuiString" where
  "CDuiString_ctor junk =
     \<lparr>m_pstr = None, m_szBuffer = (map junk [0..<MAX_LOCAL_STRING_LEN + 1])[0 := NUL]\<rparr>"

definition CDuiString_ch :: "(nat \<Rightarrow> char) \<Rightarrow> char \<Rightarrow> CDuiString" where
  "CDuiString_ch junk ch =
     \<lparr>m_pstr = None, m_szBuffer = (map junk [0..<MAX_LOCAL_STRING_LEN + 1])[0 := ch, 1 := NUL]\<rparr>"

definition GetLength :: "CDuiString \<Rightarrow> nat result" where
  "GetLength s = tcslen (GetData s)"

definition Append :: "(nat \<Rightarrow> char) \<Rightarrow> cells \<Rightarrow> CDuiString \<Rightarrow> CDuiString result" where
  "Append junk pstr s =
     rbind (GetLength s) (\<lambda>m. rbind (tcslen pstr) (\<lambda>n.
       let nNewLength = m + n
       in if nNewLength \<ge> MAX_LOCAL_STRING_LEN
          then
            case m_pstr s of
              None \<Rightarrow>
                rbind (realloc_cells junk [] (nNewLength + 1)) (\<lambda>p.
                rbind (tcscpy p (m_szBuffer s)) (\<lambda>p.
                rbind (tcscat p pstr) (\<lambda>p.
                Inr (s\<lparr>m_pstr := Some p\<rparr>))))
            | Some p \<Rightarrow>
                rbind (realloc_cells junk p (nNewLength + 1)) (\<lambda>p.
                rbind (tcscat p pstr) (\<lambda>p.
                Inr (s\<lparr>m_pstr := Some p\<rparr>)))
          else
            rbind (tcscat (m_szBuffer s) pstr) (\<lambda>b.
            Inr \<lparr>m_pstr = None, m_szBuffer = b\<rparr>)))"

definition Assign :: "(nat \<Rightarrow> char) \<Rightarrow> cells option \<Rightarrow> int \<Rightarrow> CDuiString \<Rightarrow> CDuiString result" where
  "Assign junk pstr cchMax s =
     (let pstr = (case pstr of None \<Rightarrow> [NUL] | Some p \<Rightarrow> p)
      in rbind (if cchMax < 0 then tcslen pstr else Inr (nat cchMax)) (\<lambda>cchMax.
         rbind (if cchMax < MAX_LOCAL_STRING_LEN then Inr (s\<lparr>m_pstr := None\<rparr>)
                else rbind (GetLength s) (\<lambda>n.
                  if cchMax > n \<or> m_pstr s = None
                  then rbind (realloc_cells junk (case m_pstr s of None \<Rightarrow> [] | Some p \<Rightarrow> p) (cchMax + 1))
                         (\<lambda>p. Inr (s\<lparr>m_pstr := Some p\<rparr>))
                  else Inr s)) (\<lambda>s.
         rbind (tcsncpy (GetData s) pstr cchMax) (\<lambda>c.
         rbind (put_at cchMax [NUL] c) (\<lambda>c.
         Inr (put_data c s))))))"

definition CDuiString_lpsz :: "(nat \<Rightarrow> char) \<Rightarrow> cells option \<Rightarrow> int \<Rightarrow> CDuiString result" where
  "CDuiString_lpsz junk lpsz nLen = Assign junk lpsz nLen (CDuiString_ctor junk)"

definition CDuiString_copy :: "(nat \<Rightarrow> char) \<Rightarrow> CDuiString \<Rightarrow> CDuiString result" where
  "CDuiString_copy junk src = Assign junk (Some (GetData src)) (- 1) (CDuiString_ctor junk)"

definition IsEmpty :: "CDuiString \<Rightarrow> bool" where
  "IsEmpty s \<longleftrightarrow> GetData s ! 0 = NUL"

definition Empty_string :: "CDuiString \<Rightarrow> CDuiString" where
  "Empty_string s = s\<lparr>m_pstr := None, m_szBuffer := (m_szBuffer s)[0 := NUL]\<rparr>"

definition GetAt :: "int \<Rightarrow> CDuiString \<Rightarrow> char result" where
  "GetAt nIndex s =
     (if 0 \<le> nIndex \<and> nat nIndex < length (GetData s) then Inr (GetData s ! nat nIndex) else Inl Out_Of_Range)"

text \<open>The assertion is one of the debug build only.\<close>

definition SetAt :: "int \<Rightarrow> char \<Rightarrow> CDuiString \<Rightarrow> CDuiString result" where
  "SetAt nIndex ch s =
     (if 0 \<le> nIndex \<and> nat nIndex < length (GetData s) then Inr (put_data ((GetData s)[nat nIndex := ch]) s)
      else Inl Out_Of_Range)"

section \<open>Operators\<close>

definition assign_CDuiString :: "(nat \<Rightarrow> char) \<Rightarrow> CDuiString \<Rightarrow> CDuiString \<Rightarrow> CDuiString result" where
  "assign_CDuiString junk src s = Assign junk (Some (GetData src)) (- 1) s"

definition assign_lpsz :: "(nat \<Rightarrow> char) \<Rightarrow> cells option \<Rightarrow> CDuiString \<Rightarrow> CDuiString result" where
  "assign_lpsz junk lpStr s =
     (case lpStr of None \<Rightarrow> Inr (Empty_string s) | Some p \<Rightarrow> Assign junk (Some p) (- 1) s)"

definition assign_ch :: "char \<Rightarrow> CDuiString \<Rightarrow> CDuiString" where
  "assign_ch ch s = (let s = Empty_string s in s\<lparr>m_szBuffer := (m_szBuffer s)[0 := ch, 1 := NUL]\<rparr>)"

definition plus_CDuiString :: "(nat \<Rightarrow> char) \<Rightarrow> CDuiString \<Rightarrow> CDuiString \<Rightarrow> CDuiString result" where
  "plus_CDuiString junk s src = rbind (CDuiString_copy junk s) (Append junk (GetData src))"

definition plus_lpsz :: "(nat \<Rightarrow> char) \<Rightarrow> CDuiString \<Rightarrow> cells option \<Rightarrow> CDuiString result" where
  "plus_lpsz junk s lpStr =
     (case lpStr of
        None \<Rightarrow> CDuiString_copy junk s
      | Some p \<Rightarrow> rbind (CDuiString_copy junk s) (Append junk p))"

definition add_CDuiString :: "(nat \<Rightarrow> char) \<Rightarrow> CDuiString \<Rightarrow> CDuiString \<Rightarrow> CDuiString result" where
  "add_CDuiString junk src s = Append junk (GetData src) s"

definition add_lpsz :: "(nat \<Rightarrow> char) \<Rightarrow> cells option \<Rightarrow> CDuiString \<Rightarrow> CDuiString result" where
  "add_lpsz junk lpStr s = (case lpStr of None \<Rightarrow> Inr s | Some p \<Rightarrow> Append junk p s)"

definition add_ch :: "(nat \<Rightarrow> char) \<Rightarrow> char \<Rightarrow> CDuiString \<Rightarrow> CDuiString result" where
  "add_ch junk ch s = Append junk [ch, NUL] s"

section \<open>Comparison, parts and search\<close>

fun tcscmp :: "string \<Rightarrow> string \<Rightarrow> int" where
  "tcscmp [] [] = 0"
| "tcscmp [] (b # bs) = - 1"
| "tcscmp (a # as) [] = 1"
| "tcscmp (a # as) (b # bs) =
     (if a = b then tcscmp as bs else if (of_char a :: nat) < of_char b then - 1 else 1)"

definition Compare :: "cells \<Rightarrow> CDuiString \<Rightarrow> int result" where
  "Compare lpsz s =
     rbind (GetLength s) (\<lambda>_. rbind (tcslen lpsz) (\<lambda>_. Inr (tcscmp (c_str (GetData s)) (c_str lpsz))))"

definition Left :: "(nat \<Rightarrow> char) \<Rightarrow> int \<Rightarrow> CDuiString \<Rightarrow> CDuiString result" where
  "Left junk iLength s =
     (let iLength = (if iLength < 0 then 0 else iLength)
      in rbind (GetLength s) (\<lambda>n.
         let iLength = (if iLength > int n then int n else iLength)
         in CDuiString_lpsz junk (Some (GetData s)) iLength))"

text \<open>The sum in \<open>Mid\<close> is one of 32 bit numbers with a sign.\<close>

definition wrap_int :: "int \<Rightarrow> int" where
  "wrap_int i = (i + 2 ^ 31) mod 2 ^ 32 - 2 ^ 31"

definition Mid :: "(nat \<Rightarrow> char) \<Rightarrow> int \<Rightarrow> int \<Rightarrow> CDuiString \<Rightarrow> CDuiString result" where
  "Mid junk iPos iLength s =
     rbind (GetLength s) (\<lambda>n.
       let iLength = (if iLength < 0 then wrap_int (int n - iPos) else iLength);
           iLength = (if wrap_int (iPos + iLength) > int n then wrap_int (int n - iPos) else iLength)
       in if iLength \<le> 0 then Inr (CDuiString_ctor junk)
          else rbind (ptr_at (GetData s) iPos) (\<lambda>p. CDuiString_lpsz junk (Some p) iLength))"

definition Right :: "(nat \<Rightarrow> char) \<Rightarrow> int \<Rightarrow> CDuiString \<Rightarrow> CDuiString result" where
  "Right junk iLength s =
     rbind (GetLength s) (\<lambda>n.
       let iPos = wrap_int (int n - iLength);
           (iPos, iLength) = (if iPos < 0 then (0, int n) else (iPos, iLength))
       in rbind (ptr_at (GetData s) iPos) (\<lambda>p. CDuiString_lpsz junk (Some p) iLength))"

fun tcschr :: "nat \<Rightarrow> char \<Rightarrow> cells \<Rightarrow> int" where
  "tcschr i ch [] = - 1"
| "tcschr i ch (c # cs) = (if c = ch then int i else if c = NUL then - 1 else tcschr (i + 1) ch cs)"

definition Find_ch :: "char \<Rightarrow> int \<Rightarrow> CDuiString \<Rightarrow> int result" where
  "Find_ch ch iPos s =
     rbind (GetLength s) (\<lambda>n.
       if iPos \<noteq> 0 \<and> (iPos < 0 \<or> iPos \<ge> int n) then Inr (- 1)
       else rbind (ptr_at (GetData s) iPos) (\<lambda>p. Inr (tcschr (nat iPos) ch p)))"

fun tcsstr :: "nat \<Rightarrow> string \<Rightarrow> string \<Rightarrow> int" where
  "tcsstr i sub [] = (if sub = [] then int i else - 1)"
| "tcsstr i sub (c # cs) = (if prefix sub (c # cs) then int i else tcsstr (i + 1) sub cs)"

definition Find_str :: "cells \<Rightarrow> int \<Rightarrow> CDuiString \<Rightarrow> int result" where
  "Find_str pstrSub iPos s =
     rbind (GetLength s) (\<lambda>n.
       if iPos \<noteq> 0 \<and> (iPos < 0 \<or> iPos > int n) then Inr (- 1)
       else rbind (ptr_at (GetData s) iPos) (\<lambda>p. rbind (tcslen pstrSub) (\<lambda>_.
            Inr (tcsstr (nat iPos) (c_str pstrSub) (c_str p)))))"

fun tcsrchr :: "nat \<Rightarrow> int \<Rightarrow> char \<Rightarrow> cells \<Rightarrow> int" where
  "tcsrchr i r ch [] = r"
| "tcsrchr i r ch (c # cs) =
     (let r = (if c = ch then int i else r) in if c = NUL then r else tcsrchr (i + 1) r ch cs)"

definition ReverseFind :: "char \<Rightarrow> CDuiString \<Rightarrow> int result" where
  "ReverseFind ch s = rbind (GetLength s) (\<lambda>_. Inr (tcsrchr 0 (- 1) ch (GetData s)))"

section \<open>Replacing\<close>

text \<open>One round of the loop, with the place of the next occurrence.\<close>

definition replace_round :: "(nat \<Rightarrow> char) \<Rightarrow> cells \<Rightarrow> cells \<Rightarrow> nat \<Rightarrow> nat \<Rightarrow> int
    \<Rightarrow> CDuiString \<times> CDuiString \<Rightarrow> (int \<times> CDuiString \<times> CDuiString) result" where
  "replace_round junk pstrFrom pstrTo cchFrom cchTo iPos = (\<lambda>(sTemp, s).
     rbind (Left junk iPos s) (\<lambda>l.
     rbind (assign_CDuiString junk l sTemp) (\<lambda>sTemp.
     rbind (add_lpsz junk (Some pstrTo) sTemp) (\<lambda>sTemp.
     rbind (Mid junk (iPos + int cchFrom) (- 1) s) (\<lambda>m.
     rbind (add_CDuiString junk m sTemp) (\<lambda>sTemp.
     rbind (Assign junk (Some (GetData sTemp)) (- 1) s) (\<lambda>s.
     rbind (Find_str pstrFrom (iPos + int cchTo) s) (\<lambda>iPos.
     Inr (iPos, sTemp, s)))))))))"

text \<open>The loop; \<open>None\<close> is that it never ends.\<close>

partial_function (option) replace_loop :: "(nat \<Rightarrow> char) \<Rightarrow> cells \<Rightarrow> cells \<Rightarrow> nat \<Rightarrow> nat \<Rightarrow> int \<Rightarrow> int
    \<Rightarrow> CDuiString \<times> CDuiString \<Rightarrow> (int \<times> CDuiString) result option" where
  "replace_loop junk pstrFrom pstrTo cchFrom cchTo nCount iPos st =
     (if iPos < 0 then Some (Inr (nCount, snd st))
      else
        case replace_round junk pstrFrom pstrTo cchFrom cchTo iPos st of
          Inl e \<Rightarrow> Some (Inl e)
        | Inr (iPos, st) \<Rightarrow> replace_loop junk pstrFrom pstrTo cchFrom cchTo (nCount + 1) iPos st)"

definition Replace :: "(nat \<Rightarrow> char) \<Rightarrow> cells \<Rightarrow> cells \<Rightarrow> CDuiString \<Rightarrow> (int \<times> CDuiString) result option" where
  "Replace junk pstrFrom pstrTo s =
     (case Find_str pstrFrom 0 s of
        Inl e \<Rightarrow> Some (Inl e)
      | Inr iPos \<Rightarrow>
          if iPos < 0 then Some (Inr (0, s))
          else
            case (tcslen pstrFrom, tcslen pstrTo) of
              (Inr cchFrom, Inr cchTo) \<Rightarrow>
                replace_loop junk pstrFrom pstrTo cchFrom cchTo 0 iPos (CDuiString_ctor junk, s)
            | _ \<Rightarrow> Some (Inl Out_Of_Range))"

section \<open>C strings\<close>

lemma c_str_append: "c_str (xs @ NUL # ys) = c_str xs" "nul_free xs \<Longrightarrow> c_str (xs @ ys) = xs @ c_str ys"
  by (induction xs) (auto simp: c_str_def nul_free_def)

lemma c_str_at_NUL [simp]: "c_str (NUL # xs) = []"
  by (simp add: c_str_def)

lemma terminated_split: "NUL \<in> set c \<Longrightarrow> \<exists>j. c = c_str c @ NUL # j"
  by (induction c) (auto simp: c_str_def)

lemma take_with_NUL: "NUL \<in> set c \<Longrightarrow> take (length (c_str c) + 1) c = c_str c @ [NUL]"
  by (induction c) (auto simp: c_str_def)

lemma c_str_shorter: "NUL \<in> set c \<Longrightarrow> length (c_str c) < length c"
  by (induction c) (auto simp: c_str_def)

lemma take_c_str: "i \<le> length (c_str c) \<Longrightarrow> take i c = take i (c_str c)"
  by (induction c arbitrary: i) (auto simp: c_str_def take_Cons split: nat.split)

lemma put_str:
  assumes "nul_free (take i c)" "nul_free t" "i + length t < length c"
  obtains c' where "put_at i (t @ [NUL]) c = Inr c'" "c_str c' = take i c @ t" "NUL \<in> set c'" "length c' = length c"
proof -
  let ?c = "take i c @ t @ NUL # drop (i + length t + 1) c"
  have "put_at i (t @ [NUL]) c = Inr ?c" using assms(3) by (simp add: put_at_def)
  moreover have "c_str ?c = take i c @ t" using c_str_append(1) [of "take i c @ t"] assms(1,2) by simp
  ultimately show thesis using that [of ?c] assms(3) by simp
qed

lemma tcscat_ok:
  assumes "NUL \<in> set dst" "NUL \<in> set src" "length (c_str dst) + length (c_str src) < length dst"
  obtains c where "tcscat dst src = Inr c" "c_str c = c_str dst @ c_str src" "NUL \<in> set c" "length c = length dst"
proof -
  have t: "take (length (c_str dst)) dst = c_str dst" by (simp add: take_c_str)
  then obtain c where "put_at (length (c_str dst)) (c_str src @ [NUL]) dst = Inr c" "c_str c = c_str dst @ c_str src"
      "NUL \<in> set c" "length c = length dst"
    using put_str [of "length (c_str dst)" dst "c_str src"] assms by auto
  then show thesis using that [of c] assms(1,2) take_with_NUL [OF assms(2)] by (simp add: tcscat_def tcslen_def)
qed

lemma tcscpy_ok:
  assumes "NUL \<in> set src" "length (c_str src) < length dst"
  obtains c where "tcscpy dst src = Inr c" "c_str c = c_str src" "NUL \<in> set c" "length c = length dst"
proof -
  obtain c where "put_at 0 (c_str src @ [NUL]) dst = Inr c" "c_str c = c_str src" "NUL \<in> set c" "length c = length dst"
    using put_str [of 0 dst "c_str src"] assms by auto
  then show thesis using that [of c] assms take_with_NUL [OF assms(1)] by (simp add: tcscpy_def tcslen_def)
qed

lemma tcsncpy_ok:
  assumes "NUL \<in> set src \<or> n \<le> length src" "n < length dst"
  obtains c c' where "tcsncpy dst src n = Inr c" "put_at n [NUL] c = Inr c'" "c_str c' = take n (c_str src)"
    "NUL \<in> set c'" "length c' = length dst"
proof -
  define t where "t = take n (c_str src) @ replicate (n - length (c_str src)) NUL"
  let ?c = "t @ drop n dst"
  let ?c' = "t @ NUL # drop (n + 1) dst"
  have len: "length t = n" by (simp add: t_def)
  then have "tcsncpy dst src n = Inr ?c" "put_at n [NUL] ?c = Inr ?c'"
    using assms by (auto simp: tcsncpy_def put_at_def simp flip: t_def)
  moreover have "c_str ?c' = take n (c_str src)"
  proof (cases "n \<le> length (c_str src)")
    case True
    have "nul_free (take n (c_str src))"
      by (metis nul_free_c_str append_take_drop_id nul_free_simps(2) in_set_takeD nul_free_def)
    then show ?thesis using True c_str_append(1) [of "take n (c_str src)"] by (simp add: t_def)
  next
    case False
    then show ?thesis using c_str_append(1) [of "c_str src"] by (cases "n - length (c_str src)") (auto simp: t_def)
  qed
  ultimately show thesis using that [of ?c ?c'] assms(2) len by auto
qed

section \<open>The invariant\<close>

definition dui_text :: "CDuiString \<Rightarrow> string" where
  "dui_text s = c_str (GetData s)"

definition str_ok :: "CDuiString \<Rightarrow> bool" where
  "str_ok s \<longleftrightarrow> length (m_szBuffer s) = MAX_LOCAL_STRING_LEN + 1 \<and> NUL \<in> set (m_szBuffer s)
     \<and> NUL \<in> set (GetData s) \<and> (m_pstr s = None \<longleftrightarrow> length (dui_text s) < MAX_LOCAL_STRING_LEN)"

lemma nul_free_dui_text [simp]: "nul_free (dui_text s)"
  by (simp add: dui_text_def)

lemma GetLength_text: "str_ok s \<Longrightarrow> GetLength s = Inr (length (dui_text s))"
  by (simp add: GetLength_def tcslen_def str_ok_def dui_text_def)

lemma ctor_str_ok: "str_ok (CDuiString_ctor junk)" "dui_text (CDuiString_ctor junk) = []"
proof -
  have "(map junk [0..<MAX_LOCAL_STRING_LEN + 1])[0 := NUL] = NUL # map junk [1..<MAX_LOCAL_STRING_LEN + 1]"
    by (simp add: MAX_LOCAL_STRING_LEN_def upt_conv_Cons del: upt_Suc)
  then show "str_ok (CDuiString_ctor junk)" "dui_text (CDuiString_ctor junk) = []"
    by (simp_all add: CDuiString_ctor_def str_ok_def dui_text_def GetData_def MAX_LOCAL_STRING_LEN_def del: upt_Suc)
qed

lemma heap_ok:
  assumes "length (m_szBuffer s) = MAX_LOCAL_STRING_LEN + 1" "NUL \<in> set (m_szBuffer s)" "NUL \<in> set p"
    "MAX_LOCAL_STRING_LEN \<le> length (c_str p)"
  shows "str_ok (s\<lparr>m_pstr := Some p\<rparr>)" "dui_text (s\<lparr>m_pstr := Some p\<rparr>) = c_str p"
  using assms by (simp_all add: str_ok_def dui_text_def GetData_def)

lemma local_ok:
  assumes "length b = MAX_LOCAL_STRING_LEN + 1" "NUL \<in> set b" "length (c_str b) < MAX_LOCAL_STRING_LEN"
  shows "str_ok \<lparr>m_pstr = None, m_szBuffer = b\<rparr>" "dui_text \<lparr>m_pstr = None, m_szBuffer = b\<rparr> = c_str b"
  using assms by (simp_all add: str_ok_def dui_text_def GetData_def)

text \<open>Memory that grows keeps its string.\<close>

lemma realloc_keeps:
  assumes "NUL \<in> set c" "length (c_str c) < n" "n < 2 ^ 31"
  obtains c' where "realloc_cells junk c n = Inr c'" "length c' = n" "c_str c' = c_str c" "NUL \<in> set c'"
proof -
  let ?c = "take n c @ map junk [length c..<n]"
  obtain j where j: "c = c_str c @ NUL # j" using terminated_split [OF assms(1)] by blast
  have "take n c = c_str c @ NUL # take (n - length (c_str c) - 1) j"
    by (subst j, subst take_append) (use assms(2) in \<open>simp add: take_Cons'\<close>)
  then have "c_str ?c = c_str c" "NUL \<in> set ?c" using c_str_append(1) [of "c_str c"] by simp_all
  then show thesis using that [of ?c] assms(3) by (simp add: realloc_cells_def)
qed

lemma Append_ok:
  assumes ok: "str_ok s" and p: "NUL \<in> set pstr" and len: "length (dui_text s) + length (c_str pstr) < 2 ^ 31 - 1"
  obtains s' where "Append junk pstr s = Inr s'" "str_ok s'" "dui_text s' = dui_text s @ c_str pstr"
proof -
  let ?n = "length (dui_text s) + length (c_str pstr)"
  have buf: "length (m_szBuffer s) = MAX_LOCAL_STRING_LEN + 1" "NUL \<in> set (m_szBuffer s)" using ok by (simp_all add: str_ok_def)
  have lens: "GetLength s = Inr (length (dui_text s))" "tcslen pstr = Inr (length (c_str pstr))"
    using GetLength_text [OF ok] p by (simp_all add: tcslen_def)
  consider (short) "?n < MAX_LOCAL_STRING_LEN" | (grow) "MAX_LOCAL_STRING_LEN \<le> ?n" "m_pstr s = None"
    | (heap) q where "MAX_LOCAL_STRING_LEN \<le> ?n" "m_pstr s = Some q" by (cases "m_pstr s") force+
  then show thesis
  proof cases
    case short
    then have loc: "dui_text s = c_str (m_szBuffer s)" using ok by (simp add: str_ok_def dui_text_def GetData_def)
    then obtain b where "tcscat (m_szBuffer s) pstr = Inr b" "c_str b = dui_text s @ c_str pstr" "NUL \<in> set b"
        "length b = MAX_LOCAL_STRING_LEN + 1"
      using tcscat_ok [OF buf(2) p] short buf(1) by auto
    then show thesis using that [of "\<lparr>m_pstr = None, m_szBuffer = b\<rparr>"] local_ok [of b] short lens
      by (simp add: Append_def)
  next
    case grow
    then have loc: "dui_text s = c_str (m_szBuffer s)" by (simp add: dui_text_def GetData_def)
    obtain a where a: "realloc_cells junk [] (?n + 1) = Inr a" "length a = ?n + 1"
      using len by (simp add: realloc_cells_def)
    obtain b where b: "tcscpy a (m_szBuffer s) = Inr b" "c_str b = dui_text s" "NUL \<in> set b" "length b = ?n + 1"
      using tcscpy_ok [OF buf(2), of a] a loc by auto
    obtain c where c: "tcscat b pstr = Inr c" "c_str c = dui_text s @ c_str pstr" "NUL \<in> set c"
      using tcscat_ok [OF b(3) p] b by auto
    show thesis using that [of "s\<lparr>m_pstr := Some c\<rparr>"] heap_ok [OF buf c(3)] a b c grow lens
      by (simp add: Append_def)
  next
    case heap
    then have q: "NUL \<in> set q" "c_str q = dui_text s" using ok by (simp_all add: str_ok_def dui_text_def GetData_def)
    obtain a where a: "realloc_cells junk q (?n + 1) = Inr a" "length a = ?n + 1" "c_str a = dui_text s" "NUL \<in> set a"
      using realloc_keeps [OF q(1), of "?n + 1"] q(2) len by auto
    obtain c where c: "tcscat a pstr = Inr c" "c_str c = dui_text s @ c_str pstr" "NUL \<in> set c"
      using tcscat_ok [OF a(4) p] a by auto
    show thesis using that [of "s\<lparr>m_pstr := Some c\<rparr>"] heap_ok [OF buf c(3)] a c heap lens
      by (simp add: Append_def)
  qed
qed

lemma Assign_ok:
  assumes ok: "str_ok s" and n: "n = (if cchMax < 0 then length (c_str src) else nat cchMax)"
    and src: "cchMax < 0 \<longrightarrow> NUL \<in> set src" "n \<le> length (c_str src)" and len: "n < 2 ^ 31 - 1"
  obtains s' where "Assign junk (Some src) cchMax s = Inr s'" "str_ok s'" "dui_text s' = take n (c_str src)"
proof -
  have buf: "length (m_szBuffer s) = MAX_LOCAL_STRING_LEN + 1" "NUL \<in> set (m_szBuffer s)" using ok by (simp_all add: str_ok_def)
  have cch: "(if cchMax < 0 then tcslen src else Inr (nat cchMax)) = Inr n" using n src(1) by (simp add: tcslen_def)
  have rd: "NUL \<in> set src \<or> n \<le> length src"
    using src(2) length_takeWhile_le [of "\<lambda>c. c \<noteq> NUL" src] by (auto simp: c_str_def)
  have tl: "length (take n (c_str src)) = n" using src(2) by simp
  show thesis
  proof (cases "n < MAX_LOCAL_STRING_LEN")
    case True
    then obtain c c' where c: "tcsncpy (m_szBuffer s) src n = Inr c" "put_at n [NUL] c = Inr c'"
        "c_str c' = take n (c_str src)" "NUL \<in> set c'" "length c' = length (m_szBuffer s)"
      using tcsncpy_ok [OF rd, of "m_szBuffer s"] buf(1) by auto
    have "Assign junk (Some src) cchMax s = Inr \<lparr>m_pstr = None, m_szBuffer = c'\<rparr>"
      using c True by (simp add: Assign_def cch GetData_def put_data_def)
    then show thesis using that local_ok [of c'] c buf(1) True tl by simp
  next
    case False
    obtain q where q: "(if n > length (dui_text s) \<or> m_pstr s = None
        then rbind (realloc_cells junk (case m_pstr s of None \<Rightarrow> [] | Some p \<Rightarrow> p) (n + 1)) (\<lambda>p. Inr (s\<lparr>m_pstr := Some p\<rparr>))
        else Inr s) = Inr (s\<lparr>m_pstr := Some q\<rparr>)" "n < length q"
    proof (cases "n > length (dui_text s) \<or> m_pstr s = None")
      case True
      let ?p = "case m_pstr s of None \<Rightarrow> [] | Some p \<Rightarrow> p"
      have "realloc_cells junk ?p (n + 1) = Inr (take (n + 1) ?p @ map junk [length ?p..<n + 1])"
        using len by (simp add: realloc_cells_def)
      then show thesis using that True by simp
    next
      case heap: False
      then obtain p where p: "m_pstr s = Some p" by auto
      then have "length (dui_text s) < length p" using ok c_str_shorter [of p] by (simp add: str_ok_def dui_text_def GetData_def)
      then show thesis using that [of p] heap p by simp
    qed
    obtain c c' where c: "tcsncpy q src n = Inr c" "put_at n [NUL] c = Inr c'"
        "c_str c' = take n (c_str src)" "NUL \<in> set c'"
      using tcsncpy_ok [OF rd q(2)] .
    have "Assign junk (Some src) cchMax s = Inr (s\<lparr>m_pstr := Some c'\<rparr>)"
      using c False q(1) by (simp add: Assign_def cch GetData_def put_data_def GetLength_text [OF ok])
    then show thesis using that heap_ok [OF buf c(4)] c(3) False tl by simp
  qed
qed

lemma Assign_all:
  assumes "str_ok s" "NUL \<in> set src" "length (c_str src) < 2 ^ 31 - 1"
  obtains s' where "Assign junk (Some src) (- 1) s = Inr s'" "str_ok s'" "dui_text s' = c_str src"
  using Assign_ok [OF assms(1) refl, of "- 1" src] assms by auto

lemma lpsz_ok:
  assumes "0 \<le> n" "nat n \<le> length (c_str src)" "n < 2 ^ 31 - 1"
  obtains s' where "CDuiString_lpsz junk (Some src) n = Inr s'" "str_ok s'" "dui_text s' = take (nat n) (c_str src)"
proof -
  have "nat n < 2 ^ 31 - 1" using assms(1,3) by (simp add: nat_less_iff)
  then show thesis
    using Assign_ok [OF ctor_str_ok(1) refl, of n src junk junk] assms that by (auto simp: CDuiString_lpsz_def)
qed

lemma data_terminated: "str_ok s \<Longrightarrow> NUL \<in> set (GetData s)"
  by (simp add: str_ok_def)

lemma text_eq: "c_str (GetData s) = dui_text s"
  by (simp add: dui_text_def)

lemma Left_ok:
  assumes "str_ok s" "length (dui_text s) < 2 ^ 31 - 1"
  obtains s' where "Left junk i s = Inr s'" "str_ok s'" "dui_text s' = take (nat i) (dui_text s)"
proof -
  let ?i = "if i < 0 then 0 else i"
  let ?n = "if ?i > int (length (dui_text s)) then int (length (dui_text s)) else ?i"
  have "int (length (dui_text s)) < 2 ^ 31 - 1" using assms(2) by simp
  then have n: "0 \<le> ?n" "nat ?n \<le> length (c_str (GetData s))" "?n < 2 ^ 31 - 1"
    using assms(2) by (auto simp: text_eq)
  have "take (nat ?n) (dui_text s) = take (nat i) (dui_text s)" by auto
  then show thesis
    using lpsz_ok [OF n, of junk] that by (auto simp: Left_def GetLength_text [OF assms(1)] text_eq Let_def)
qed

lemma wrap_int_id: "- (2 ^ 31) \<le> i \<Longrightarrow> i < 2 ^ 31 \<Longrightarrow> wrap_int i = i"
  by (simp add: wrap_int_def)

lemma c_str_drop: "i \<le> length (c_str c) \<Longrightarrow> c_str (drop i c) = drop i (c_str c)"
  by (induction c arbitrary: i) (auto simp: c_str_def drop_Cons split: nat.split)

lemma ptr_ok:
  assumes "str_ok s" "0 \<le> i" "nat i \<le> length (dui_text s)"
  shows "ptr_at (GetData s) i = Inr (drop (nat i) (GetData s))"
    "c_str (drop (nat i) (GetData s)) = drop (nat i) (dui_text s)"
  using assms c_str_shorter [OF data_terminated [OF assms(1)]] c_str_drop [of "nat i" "GetData s"]
  by (simp_all add: ptr_at_def text_eq)

text \<open>\<open>Mid\<close> with a place in the string and a length that does not wrap around.\<close>

lemma Mid_ok:
  assumes ok: "str_ok s" and len: "length (dui_text s) < 2 ^ 31 - 1" and i: "0 \<le> iPos" "iPos < 2 ^ 31" "iPos + iLength < 2 ^ 31"
  obtains s' where "Mid junk iPos iLength s = Inr s'" "str_ok s'"
    "dui_text s' = (if iLength < 0 then drop (nat iPos) (dui_text s) else take (nat iLength) (drop (nat iPos) (dui_text s)))"
proof -
  define l where "l = int (length (dui_text s))"
  have l: "0 \<le> l" "l < 2 ^ 31 - 1" using len by (simp_all add: l_def)
  let ?n = "if iLength < 0 then l - iPos else iLength"
  define n where "n = (if iPos + ?n > l then l - iPos else ?n)"
  have w: "wrap_int (l - iPos) = l - iPos" "wrap_int (iPos + ?n) = iPos + ?n"
    using i l by (auto intro!: wrap_int_id)
  have mid: "Mid junk iPos iLength s = (if n \<le> 0 then Inr (CDuiString_ctor junk)
      else rbind (ptr_at (GetData s) iPos) (\<lambda>p. CDuiString_lpsz junk (Some p) n))"
    using w by (cases "iLength < 0") (simp_all add: Mid_def GetLength_text [OF ok] Let_def n_def flip: l_def)
  have res: "(if iLength < 0 then drop (nat iPos) (dui_text s) else take (nat iLength) (drop (nat iPos) (dui_text s)))
      = take (nat n) (drop (nat iPos) (dui_text s))"
    using i by (auto simp: n_def l_def nat_diff_distrib)
  show thesis
  proof (cases "n \<le> 0")
    case True
    then show thesis using that [of "CDuiString_ctor junk"] ctor_str_ok [of junk] mid res by simp
  next
    case False
    then have n: "0 \<le> n" "n < 2 ^ 31 - 1" "iPos + n \<le> l" using i l by (auto simp: n_def split: if_splits)
    then have p: "nat iPos \<le> length (dui_text s)" "nat n \<le> length (drop (nat iPos) (dui_text s))"
      using i unfolding l_def by auto
    obtain s' where "CDuiString_lpsz junk (Some (drop (nat iPos) (GetData s))) n = Inr s'" "str_ok s'"
        "dui_text s' = take (nat n) (drop (nat iPos) (dui_text s))"
      using lpsz_ok [of n "drop (nat iPos) (GetData s)"] n p ptr_ok(2) [OF ok i(1) p(1)] by metis
    then show thesis using that mid False res ptr_ok(1) [OF ok i(1) p(1)] by simp
  qed
qed

lemma Right_ok:
  assumes ok: "str_ok s" and len: "length (dui_text s) < 2 ^ 31 - 1" and i: "0 \<le> iLength" "iLength < 2 ^ 31"
  obtains s' where "Right junk iLength s = Inr s'" "str_ok s'"
    "dui_text s' = drop (length (dui_text s) - nat iLength) (dui_text s)"
proof -
  define l where "l = int (length (dui_text s))"
  have l: "0 \<le> l" "l < 2 ^ 31 - 1" using len by (simp_all add: l_def)
  define p where "p = (if l - iLength < 0 then 0 else l - iLength)"
  define n where "n = (if l - iLength < 0 then l else iLength)"
  have w: "wrap_int (l - iLength) = l - iLength" using i l by (intro wrap_int_id) auto
  have right: "Right junk iLength s = rbind (ptr_at (GetData s) p) (\<lambda>q. CDuiString_lpsz junk (Some q) n)"
    using w by (simp add: Right_def GetLength_text [OF ok] Let_def p_def n_def flip: l_def)
  have pn: "0 \<le> p" "0 \<le> n" "p + n = l" using i l by (auto simp: p_def n_def)
  then have p: "nat p \<le> length (dui_text s)" "nat n = length (drop (nat p) (dui_text s))" "n < 2 ^ 31 - 1"
      "nat p = length (dui_text s) - nat iLength"
    using l i unfolding l_def p_def by (auto split: if_splits)
  obtain s' where "CDuiString_lpsz junk (Some (drop (nat p) (GetData s))) n = Inr s'" "str_ok s'"
      "dui_text s' = take (nat n) (drop (nat p) (dui_text s))"
    using lpsz_ok [of n "drop (nat p) (GetData s)"] pn(2) p ptr_ok(2) [OF ok pn(1) p(1)] by (metis le_refl)
  then show thesis using that right ptr_ok(1) [OF ok pn(1) p(1)] p(2,4) by simp
qed

section \<open>Searching and replacing\<close>

text \<open>The reference: occurrences from the left, none inside another.\<close>

fun replace_all :: "string \<Rightarrow> string \<Rightarrow> string \<Rightarrow> string" where
  "replace_all f t [] = []"
| "replace_all f t (c # cs) =
     (if prefix f (c # cs) then t @ replace_all f t (drop (length f - 1) cs) else c # replace_all f t cs)"

fun occurrences :: "string \<Rightarrow> string \<Rightarrow> nat" where
  "occurrences f [] = 0"
| "occurrences f (c # cs) =
     (if prefix f (c # cs) then 1 + occurrences f (drop (length f - 1) cs) else occurrences f cs)"

lemma replace_all_at:
  assumes "f \<noteq> []" "\<forall>k < length u. \<not> prefix f (drop k (u @ f @ r))"
  shows "replace_all f t (u @ f @ r) = u @ t @ replace_all f t r" "occurrences f (u @ f @ r) = 1 + occurrences f r"
proof -
  have "replace_all f t (u @ f @ r) = u @ t @ replace_all f t r \<and> occurrences f (u @ f @ r) = 1 + occurrences f r"
    using assms(2)
  proof (induction u)
    case Nil
    then show ?case using assms(1) by (cases f) simp_all
  next
    case (Cons c u)
    have "\<not> prefix f (c # u @ f @ r)" using Cons.prems by (metis drop0 append_Cons length_greater_0_conv list.distinct(1))
    moreover have "\<forall>k < length u. \<not> prefix f (drop k (u @ f @ r))"
      using Cons.prems by (metis Suc_less_eq append_Cons drop_Suc_Cons length_Cons)
    ultimately show ?case using Cons.IH by simp
  qed
  then show "replace_all f t (u @ f @ r) = u @ t @ replace_all f t r" "occurrences f (u @ f @ r) = 1 + occurrences f r"
    by simp_all
qed

lemma tcsstr_cases:
  obtains (none) "tcsstr i sub t = - 1" "replace_all sub to t = t" "occurrences sub t = 0" "sub \<noteq> []"
  | (found) u r where "tcsstr i sub t = int (i + length u)" "t = u @ sub @ r"
      "\<forall>k < length u. \<not> prefix sub (drop k (u @ sub @ r))"
proof -
  have "(tcsstr i sub t = - 1 \<and> replace_all sub to t = t \<and> occurrences sub t = 0 \<and> sub \<noteq> [])
    \<or> (\<exists>u r. tcsstr i sub t = int (i + length u) \<and> t = u @ sub @ r \<and> (\<forall>k < length u. \<not> prefix sub (drop k t)))"
  proof (induction t arbitrary: i)
    case (Cons c t)
    show ?case
    proof (cases "prefix sub (c # t)")
      case True
      then obtain r where r: "c # t = sub @ r" by (auto simp: prefix_def)
      have "tcsstr i sub (c # t) = int i" using True by simp
      then show ?thesis using r by (intro disjI2 exI [of _ "[]"] exI [of _ r]) (simp only: list.size append_Nil, simp)
    next
      case False
      then show ?thesis using Cons.IH [of "i + 1"]
      proof (elim disjE exE conjE)
        fix u r
        assume *: "tcsstr (i + 1) sub t = int (i + 1 + length u)" "t = u @ sub @ r" "\<forall>k < length u. \<not> prefix sub (drop k t)"
        have "\<forall>k < length (c # u). \<not> prefix sub (drop k (c # t))"
          using *(3) False by (auto simp: less_Suc_eq_0_disj)
        then show ?thesis using * False by (intro disjI2 exI [of _ "c # u"] exI [of _ r]) simp
      qed simp
    qed
  qed auto
  then show thesis using that by metis
qed

lemma Find_str_ok:
  assumes "str_ok s" "NUL \<in> set sub" "i \<le> length (dui_text s)"
  shows "Find_str sub (int i) s = Inr (tcsstr i (c_str sub) (drop i (dui_text s)))"
  using assms ptr_ok [OF assms(1), of "int i"] by (simp add: Find_str_def GetLength_text tcslen_def)

lemma replace_round_ok:
  assumes ok: "str_ok sTemp" "str_ok s" and args: "NUL \<in> set from" "NUL \<in> set to"
    and tx: "dui_text s = d @ c_str from @ r"
    and len: "length (dui_text s) < 2 ^ 31 - 1" "length (d @ c_str to @ r) < 2 ^ 31 - 1"
  obtains sTemp' s' where
    "replace_round junk from to (length (c_str from)) (length (c_str to)) (int (length d)) (sTemp, s)
      = Inr (tcsstr (length (d @ c_str to)) (c_str from) r, sTemp', s')"
    "str_ok sTemp'" "str_ok s'" "dui_text s' = d @ c_str to @ r"
proof -
  obtain l where l: "Left junk (int (length d)) s = Inr l" "str_ok l" "dui_text l = d"
    using Left_ok [OF ok(2) len(1), of junk "int (length d)"] tx by auto
  obtain t1 where t1: "Assign junk (Some (GetData l)) (- 1) sTemp = Inr t1" "str_ok t1" "dui_text t1 = d"
    using Assign_all [OF ok(1) data_terminated [OF l(2)], of junk] l(3) len(2) by (auto simp: text_eq)
  obtain t2 where t2: "Append junk to t1 = Inr t2" "str_ok t2" "dui_text t2 = d @ c_str to"
    using Append_ok [OF t1(2) args(2), of junk] t1(3) len(2) by auto
  have "0 \<le> int (length d) + int (length (c_str from))" "int (length d) + int (length (c_str from)) < 2 ^ 31"
    "int (length d) + int (length (c_str from)) + - 1 < 2 ^ 31" using len(1) tx by simp_all
  from Mid_ok [OF ok(2) len(1) this, of junk]
  obtain m where m: "Mid junk (int (length d) + int (length (c_str from))) (- 1) s = Inr m" "str_ok m" "dui_text m = r"
    by (auto simp: tx nat_add_distrib)
  obtain t3 where t3: "Append junk (GetData m) t2 = Inr t3" "str_ok t3" "dui_text t3 = d @ c_str to @ r"
    using Append_ok [OF t2(2) data_terminated [OF m(2)], of junk] t2(3) m(3) len(2) by (auto simp: text_eq)
  obtain s' where s': "Assign junk (Some (GetData t3)) (- 1) s = Inr s'" "str_ok s'" "dui_text s' = d @ c_str to @ r"
    using Assign_all [OF ok(2) data_terminated [OF t3(2)], of junk] t3(3) len(2) by (auto simp: text_eq)
  have "Find_str from (int (length d) + int (length (c_str to))) s' = Inr (tcsstr (length (d @ c_str to)) (c_str from) r)"
    using Find_str_ok [OF s'(2) args(1), of "length (d @ c_str to)"] s'(3) by simp
  then show thesis using that [of t3 s'] l t1 t2 m t3 s'
    by (simp add: replace_round_def assign_CDuiString_def add_lpsz_def add_CDuiString_def)
qed

lemma replace_loop_ok:
  assumes "str_ok sTemp" "str_ok s" and args: "NUL \<in> set from" "NUL \<in> set to" "c_str from \<noteq> []"
    and "dui_text s = d @ r" and "length d + length r * (length (c_str to) + 1) < 2 ^ 31 - 1"
  shows "\<exists>s'. replace_loop junk from to (length (c_str from)) (length (c_str to)) n (tcsstr (length d) (c_str from) r) (sTemp, s)
      = Some (Inr (n + int (occurrences (c_str from) r), s')) \<and> str_ok s' \<and> dui_text s' = d @ replace_all (c_str from) (c_str to) r"
  using assms(1,2,6,7)
proof (induction r arbitrary: d n sTemp s rule: length_induct)
  case (1 r)
  let ?f = "c_str from" and ?t = "c_str to"
  show ?case
  proof (cases rule: tcsstr_cases [of "length d" ?f r ?t])
    case none
    then show ?thesis using 1 by (subst replace_loop.simps) simp
  next
    case (found u r')
    have f: "0 < length ?f" using args(3) by simp
    have "length r' * (length ?t + 1) + (length u + length ?f) * (length ?t + 1) = length r * (length ?t + 1)"
      by (simp add: found(2) algebra_simps)
    moreover have "length u + length ?t + 1 \<le> (length u + length ?f) * (length ?t + 1)"
      using f by (cases "length ?f") (simp_all add: algebra_simps)
    ultimately have b: "length (d @ u @ ?t) + length r' * (length ?t + 1) < 2 ^ 31 - 1" using "1.prems"(4) by simp
    have b1: "length ((d @ u) @ ?t @ r') < 2 ^ 31 - 1" using b by simp
    have b2: "length (dui_text s) < 2 ^ 31 - 1" using "1.prems"(3,4) by simp
    have tx: "dui_text s = (d @ u) @ ?f @ r'" using "1.prems"(3) found(2) by simp
    obtain sTemp' s' where round: "replace_round junk from to (length ?f) (length ?t) (int (length (d @ u))) (sTemp, s)
        = Inr (tcsstr (length (d @ u @ ?t)) ?f r', sTemp', s')" "str_ok sTemp'" "str_ok s'" "dui_text s' = (d @ u @ ?t) @ r'"
      using replace_round_ok [OF "1.prems"(1,2) args(1,2) tx b2 b1, of junk] by (metis append_assoc)
    have "length r' < length r" using f by (simp add: found(2))
    with "1.IH" round(2-4) b
    obtain s'' where "replace_loop junk from to (length ?f) (length ?t) (n + 1) (tcsstr (length (d @ u @ ?t)) ?f r') (sTemp', s')
        = Some (Inr (n + 1 + int (occurrences ?f r'), s''))" "str_ok s''" "dui_text s'' = (d @ u @ ?t) @ replace_all ?f ?t r'"
      by blast
    then show ?thesis using round(1) replace_all_at [OF args(3) found(3)] found(1,2)
      by (subst replace_loop.simps) simp
  qed
qed

lemma tcschr_first:
  "ch \<noteq> NUL \<Longrightarrow> tcschr i ch c = (if ch \<in> set (c_str c) then int (i + length (takeWhile (\<lambda>x. x \<noteq> ch) (c_str c))) else - 1)"
  by (induction c arbitrary: i) (auto simp: c_str_def)

lemma Find_ch_ok:
  assumes "str_ok s" "ch \<noteq> NUL" "i = 0 \<or> i < length (dui_text s)"
  shows "Find_ch ch (int i) s = Inr (if ch \<in> set (drop i (dui_text s))
    then int (i + length (takeWhile (\<lambda>x. x \<noteq> ch) (drop i (dui_text s)))) else - 1)"
  using assms ptr_ok [OF assms(1), of "int i"] by (auto simp: Find_ch_def GetLength_text tcschr_first)

lemma tcsrchr_last:
  "ch \<noteq> NUL \<Longrightarrow> (ch \<notin> set (c_str c) \<and> tcsrchr i r ch c = r)
    \<or> (\<exists>j < length (c_str c). tcsrchr i r ch c = int (i + j) \<and> c_str c ! j = ch \<and> ch \<notin> set (drop (j + 1) (c_str c)))"
proof (induction c arbitrary: i r)
  case (Cons x c)
  consider (nul) "x = NUL" | (some) "x \<noteq> NUL" by blast
  then show ?case
  proof cases
    case some
    then have x: "c_str (x # c) = x # c_str c" by (simp add: c_str_def)
    let ?r = "if x = ch then int i else r"
    from Cons.IH [OF Cons.prems, of "i + 1" ?r] show ?thesis
    proof (elim disjE exE conjE)
      assume "ch \<notin> set (c_str c)" "tcsrchr (i + 1) ?r ch c = ?r"
      then show ?thesis using some x by (cases "x = ch") (auto intro: exI [of _ 0])
    next
      fix j
      assume "j < length (c_str c)" "tcsrchr (i + 1) ?r ch c = int (i + 1 + j)" "c_str c ! j = ch"
        "ch \<notin> set (drop (j + 1) (c_str c))"
      then show ?thesis using some x by (intro disjI2 exI [of _ "j + 1"]) (simp add: Let_def)
    qed
  qed (use Cons.prems in \<open>auto simp: c_str_def\<close>)
qed (simp add: c_str_def)

lemma ReverseFind_ok:
  assumes "str_ok s" "ch \<noteq> NUL"
  obtains j where "ReverseFind ch s = Inr j"
    "if ch \<in> set (dui_text s)
     then 0 \<le> j \<and> nat j < length (dui_text s) \<and> dui_text s ! nat j = ch \<and> ch \<notin> set (drop (nat j + 1) (dui_text s))
     else j = - 1"
proof -
  have "ReverseFind ch s = Inr (tcsrchr 0 (- 1) ch (GetData s))" by (simp add: ReverseFind_def GetLength_text [OF assms(1)])
  moreover have "if ch \<in> set (dui_text s)
     then 0 \<le> j \<and> nat j < length (dui_text s) \<and> dui_text s ! nat j = ch \<and> ch \<notin> set (drop (nat j + 1) (dui_text s))
     else j = - 1" if "j = tcsrchr 0 (- 1) ch (GetData s)" for j
    using tcsrchr_last [OF assms(2), of "GetData s" 0 "- 1"] that by (auto simp: text_eq)
  ultimately show thesis using that by blast
qed

lemma tcscmp_eq: "tcscmp a b = 0 \<longleftrightarrow> a = b"
  by (induction a b rule: tcscmp.induct) auto

lemma Append_fails:
  assumes "str_ok s" "NUL \<in> set p" "2 ^ 31 - 1 \<le> length (dui_text s) + length (c_str p)"
  shows "Append junk p s = Inl Null_Pointer"
proof -
  have "\<not> length (dui_text s) + length (c_str p) + 1 < 2 ^ 31"
    "MAX_LOCAL_STRING_LEN \<le> length (dui_text s) + length (c_str p)"
    using assms(3) by (simp_all add: MAX_LOCAL_STRING_LEN_def)
  then show ?thesis using assms(2)
    by (simp add: Append_def GetLength_text [OF assms(1)] tcslen_def realloc_cells_def Let_def split: option.split)
qed

text \<open>A round that would give a string too long for memory.\<close>

lemma replace_round_fails:
  assumes ok: "str_ok sTemp" "str_ok s" and to: "NUL \<in> set to" and tx: "dui_text s = d @ r"
    and len: "length (dui_text s) < 2 ^ 31 - 1" "2 ^ 31 - 1 \<le> length (d @ c_str to @ r)"
  shows "replace_round junk from to 0 (length (c_str to)) (int (length d)) (sTemp, s) = Inl Null_Pointer"
proof -
  obtain l where l: "Left junk (int (length d)) s = Inr l" "str_ok l" "dui_text l = d"
    using Left_ok [OF ok(2) len(1), of junk "int (length d)"] tx by auto
  obtain t1 where t1: "Assign junk (Some (GetData l)) (- 1) sTemp = Inr t1" "str_ok t1" "dui_text t1 = d"
    using Assign_all [OF ok(1) data_terminated [OF l(2)], of junk] l(3) len(1) tx by (auto simp: text_eq)
  note r = l(1) t1(1) replace_round_def assign_CDuiString_def add_lpsz_def add_CDuiString_def
  show ?thesis
  proof (cases "length d + length (c_str to) < 2 ^ 31 - 1")
    case False
    then show ?thesis using Append_fails [OF t1(2) to, of junk] t1(3) by (simp add: r)
  next
    case True
    then obtain t2 where t2: "Append junk to t1 = Inr t2" "str_ok t2" "dui_text t2 = d @ c_str to"
      using Append_ok [OF t1(2) to, of junk] t1(3) by auto
    have "0 \<le> int (length d)" "int (length d) < 2 ^ 31" "int (length d) + - 1 < 2 ^ 31" using len(1) tx by simp_all
    from Mid_ok [OF ok(2) len(1) this, of junk]
    obtain m where m: "Mid junk (int (length d)) (- 1) s = Inr m" "str_ok m" "dui_text m = r" by (auto simp: tx)
    then have "Append junk (GetData m) t2 = Inl Null_Pointer"
      using Append_fails [OF t2(2) data_terminated [OF m(2)], of junk] t2(3) len(2) by (simp add: text_eq)
    then show ?thesis using t2(1) m(1) by (simp add: r)
  qed
qed

lemma tcsstr_empty [simp]: "tcsstr i [] t = int i"
  by (cases t) simp_all

lemma replace_empty_crashes:
  assumes "str_ok sTemp" "str_ok s" and args: "NUL \<in> set from" "c_str from = []" "NUL \<in> set to" "c_str to \<noteq> []"
    and "dui_text s = d @ r" "length (dui_text s) < 2 ^ 31 - 1"
  shows "replace_loop junk from to 0 (length (c_str to)) n (int (length d)) (sTemp, s) = Some (Inl Null_Pointer)"
  using assms(1,2,7,8)
proof (induction "2 ^ 31 - length (dui_text s)" arbitrary: d n sTemp s rule: less_induct)
  case less
  show ?case
  proof (cases "length (d @ c_str to @ r) < 2 ^ 31 - 1")
    case False
    then show ?thesis using replace_round_fails [OF less.prems(1,2) args(3) less.prems(3,4), of junk "from"]
      by (subst replace_loop.simps) simp
  next
    case True
    have tx: "dui_text s = d @ c_str from @ r" using less.prems(3) args(2) by simp
    obtain sTemp' s' where round: "replace_round junk from to 0 (length (c_str to)) (int (length d)) (sTemp, s)
        = Inr (int (length (d @ c_str to)), sTemp', s')" "str_ok sTemp'" "str_ok s'" "dui_text s' = (d @ c_str to) @ r"
      using replace_round_ok [OF less.prems(1,2) args(1,3) tx less.prems(4) True, of junk] args(2)
      by (metis append_assoc list.size(3) tcsstr_empty)
    have "length (dui_text s') = length (dui_text s) + length (c_str to)" "0 < length (c_str to)"
      using round(4) less.prems(3) args(4) by simp_all
    then have "2 ^ 31 - length (dui_text s') < 2 ^ 31 - length (dui_text s)"
      using less.prems(4) by (intro diff_less_mono2) simp_all
    from less.hyps [OF this round(2-4)] True round(4) show ?thesis
      using round(1) by (subst replace_loop.simps) simp
  qed
qed

definition stuck :: "cells \<Rightarrow> cells \<Rightarrow> nat \<Rightarrow> nat \<Rightarrow> int \<Rightarrow> CDuiString \<times> CDuiString \<Rightarrow> bool" where
  "stuck from to cf ct i st \<longleftrightarrow> str_ok (fst st) \<and> str_ok (snd st) \<and> NUL \<in> set from \<and> NUL \<in> set to
     \<and> c_str from = [] \<and> c_str to = [] \<and> cf = 0 \<and> ct = 0 \<and> i = 0 \<and> length (dui_text (snd st)) < 2 ^ 31 - 1"

lemma stuck_round:
  assumes "stuck from to cf ct i st"
  obtains st' where "replace_round junk from to cf ct i st = Inr (0, st')" "stuck from to cf ct 0 st'"
proof -
  obtain sTemp' s' where "replace_round junk from to 0 0 0 (fst st, snd st) = Inr (0, sTemp', s')"
      "str_ok sTemp'" "str_ok s'" "dui_text s' = dui_text (snd st)"
    using replace_round_ok [of "fst st" "snd st" "from" to "[]" "dui_text (snd st)" junk] assms
    by (auto simp: stuck_def)
  then show thesis using assms that [of "(sTemp', s')"] by (simp add: stuck_def)
qed

lemma stuck_never_ends:
  assumes "stuck from to cf ct i st"
  shows "replace_loop junk from to cf ct n i st = None"
proof -
  have "\<not> stuck from to cf ct i st" if "replace_loop junk from to cf ct n i st = Some y" for y
    using that
  proof (rule replace_loop.raw_induct [where P = "\<lambda>junk from to cf ct n i st y. \<not> stuck from to cf ct i st", rotated])
    fix loop junk "from" to cf ct n i st y
    assume IH: "\<And>junk from to cf ct n i st y. loop junk from to cf ct n i st = Some y \<Longrightarrow> \<not> stuck from to cf ct i st"
      and body: "(if i < 0 then Some (Inr (n, snd st))
        else case replace_round junk from to cf ct i st of
            Inl e \<Rightarrow> Some (Inl e)
          | Inr (i, st) \<Rightarrow> loop junk from to cf ct (n + 1) i st) = Some y"
    show "\<not> stuck from to cf ct i st"
    proof
      assume s: "stuck from to cf ct i st"
      then obtain st' where "replace_round junk from to cf ct i st = Inr (0, st')" "stuck from to cf ct 0 st'"
        using stuck_round by blast
      moreover have "i = 0" using s by (simp add: stuck_def)
      ultimately show False using body IH by fastforce
    qed
  qed
  then show ?thesis using assms by (cases "replace_loop junk from to cf ct n i st") auto
qed

section \<open>Properties\<close>



text \<open>
  C20: \<open>Replace\<close> with a pattern that is not empty returns, and has replaced every occurrence, from
  the left and none inside another; what it returns is their number. The replacement is not
  searched again, even if it has the pattern in it.
\<close>

theorem Replace_replaces_all:
  assumes "str_ok s" and "NUL \<in> set from" and "NUL \<in> set to" and "c_str from \<noteq> []"
    and "length (dui_text s) * (length (c_str to) + 1) < 2 ^ 31 - 1"
  shows "\<exists>s'. Replace junk from to s = Some (Inr (int (occurrences (c_str from) (dui_text s)), s'))
    \<and> str_ok s' \<and> dui_text s' = replace_all (c_str from) (c_str to) (dui_text s)"
proof (cases rule: tcsstr_cases [of 0 "c_str from" "dui_text s" "c_str to"])
  case none
  then show ?thesis using assms(1) Find_str_ok [OF assms(1,2), of 0] by (simp add: Replace_def)
next
  case (found u r)
  then have "Replace junk from to s = replace_loop junk from to (length (c_str from)) (length (c_str to)) 0
      (tcsstr 0 (c_str from) (dui_text s)) (CDuiString_ctor junk, s)"
    using Find_str_ok [OF assms(1,2), of 0] assms(2,3) by (simp add: Replace_def tcslen_def)
  then show ?thesis
    using replace_loop_ok [OF ctor_str_ok(1) assms(1-4), of "[]" "dui_text s" junk 0 junk] assms(5) by simp
qed

theorem Replace_replaces_all_witness:
  "\<exists>s'. Replace (\<lambda>_. CHR ''x'') [CHR ''a'', NUL] [CHR ''a'', CHR ''a'', NUL] (CDuiString_ch (\<lambda>_. CHR ''x'') CHR ''a'')
    = Some (Inr (1, s')) \<and> dui_text s' = ''aa''"
proof -
  let ?j = "\<lambda>_. CHR ''x''"
  let ?s = "CDuiString_ch ?j CHR ''a''"
  have s: "str_ok ?s" "dui_text ?s = ''a''" by code_simp+
  have c: "c_str [CHR ''a'', NUL] = ''a''" "c_str [CHR ''a'', CHR ''a'', NUL] = ''aa''" by (simp_all add: c_str_def)
  show ?thesis
    using Replace_replaces_all [OF s(1), of "[CHR ''a'', NUL]" "[CHR ''a'', CHR ''a'', NUL]" ?j] s(2) c by auto
qed

text \<open>
  C37: \<open>Replace\<close> with an empty pattern gives no result: with an empty replacement it never returns,
  with another one the string grows until there is no memory left and the program writes through
  a null pointer.
\<close>

theorem Replace_empty_pattern:
  assumes "str_ok s" and "NUL \<in> set from" and "NUL \<in> set to" and "c_str from = []"
    and "length (dui_text s) < 2 ^ 31 - 1"
  shows "Replace junk from to s = (if c_str to = [] then None else Some (Inl Null_Pointer))"
proof -
  have "Replace junk from to s = replace_loop junk from to 0 (length (c_str to)) 0 0 (CDuiString_ctor junk, s)"
    using Find_str_ok [OF assms(1,2), of 0] assms(2-4) by (simp add: Replace_def tcslen_def)
  moreover have "stuck from to 0 0 0 (CDuiString_ctor junk, s)" if "c_str to = []"
    using that assms ctor_str_ok by (simp add: stuck_def)
  ultimately show ?thesis
    using stuck_never_ends [of "from" to 0 0 0 "(CDuiString_ctor junk, s)" junk 0] assms
      replace_empty_crashes [OF ctor_str_ok(1) [of junk] assms(1,2,4,3), of "[]" "dui_text s" junk 0] by auto
qed

theorem Replace_empty_pattern_witness:
  "Replace (\<lambda>_. CHR ''x'') [NUL] [NUL] (CDuiString_ctor (\<lambda>_. CHR ''x'')) = None"
  using Replace_empty_pattern [OF ctor_str_ok(1), of "[NUL]" "[NUL]" "\<lambda>_. CHR ''x''" "\<lambda>_. CHR ''x''"]
    ctor_str_ok(2) by simp

text \<open>
  C38: when a long string was cut with \<open>SetAt\<close>, \<open>Append\<close> loses what is left of it: it appends to what
  the buffer of the object held before, and where that does not fit writes behind the object's buffer.
\<close>

theorem append_after_cut:
  assumes ok: "str_ok s" and heap: "m_pstr s = Some q" and k: "k + length (c_str p) < MAX_LOCAL_STRING_LEN"
    and p: "NUL \<in> set p"
  shows "\<exists>s1. SetAt (int k) NUL s = Inr s1 \<and> dui_text s1 = take k (dui_text s)
    \<and> (if length (c_str (m_szBuffer s)) + length (c_str p) \<le> MAX_LOCAL_STRING_LEN
       then \<exists>s2. Append junk p s1 = Inr s2 \<and> dui_text s2 = c_str (m_szBuffer s) @ c_str p
       else Append junk p s1 = Inl Out_Of_Range)"
proof -
  have q: "GetData s = q" "NUL \<in> set q" "MAX_LOCAL_STRING_LEN \<le> length (c_str q)"
    and b: "length (m_szBuffer s) = MAX_LOCAL_STRING_LEN + 1" "NUL \<in> set (m_szBuffer s)"
    using ok heap by (auto simp: str_ok_def GetData_def dui_text_def)
  have k': "k < length (c_str q)" "k < length q" using k q(3) c_str_shorter [OF q(2)] by simp_all
  let ?s1 = "s\<lparr>m_pstr := Some (q[k := NUL])\<rparr>"
  have set: "SetAt (int k) NUL s = Inr ?s1" using k'(2) heap by (simp add: SetAt_def q(1) put_data_def)
  have "q[k := NUL] = take k (c_str q) @ NUL # drop (k + 1) q"
    using k' by (simp add: upd_conv_take_nth_drop flip: take_c_str)
  moreover have "nul_free (take k (c_str q))"
    using set_take_subset [of k "c_str q"] nul_free_c_str [of q] by (auto simp: nul_free_def)
  ultimately have cut: "c_str (q[k := NUL]) = take k (c_str q)" "NUL \<in> set (q[k := NUL])"
    by (simp_all add: c_str_append(1))
  then have len: "GetLength ?s1 = Inr k" "tcslen p = Inr (length (c_str p))"
    using k' p by (simp_all add: GetLength_def tcslen_def GetData_def)
  have app: "Append junk p ?s1 = rbind (tcscat (m_szBuffer s) p) (\<lambda>b. Inr \<lparr>m_pstr = None, m_szBuffer = b\<rparr>)"
    using k len by (simp add: Append_def)
  show ?thesis
  proof (cases "length (c_str (m_szBuffer s)) + length (c_str p) \<le> MAX_LOCAL_STRING_LEN")
    case True
    then obtain c where "tcscat (m_szBuffer s) p = Inr c" "c_str c = c_str (m_szBuffer s) @ c_str p"
      using tcscat_ok [OF b(2) p] b(1) by auto
    then show ?thesis using True set cut app by (auto simp: dui_text_def GetData_def heap)
  next
    case False
    then have "tcscat (m_szBuffer s) p = Inl Out_Of_Range"
      using b p take_with_NUL [OF p] c_str_shorter [OF p] by (simp add: tcscat_def tcslen_def put_at_def)
    then show ?thesis using False set cut app by (auto simp: dui_text_def GetData_def heap)
  qed
qed

theorem append_after_cut_witness:
  "\<exists>s1. SetAt 3 NUL \<lparr>m_pstr = Some (replicate 63 CHR ''y'' @ [NUL]), m_szBuffer = NUL # replicate 63 CHR ''x''\<rparr> = Inr s1
    \<and> dui_text s1 = ''yyy'' \<and> (\<exists>s2. Append (\<lambda>_. CHR ''x'') [CHR ''a'', NUL] s1 = Inr s2 \<and> dui_text s2 = ''a'')"
proof -
  let ?s = "\<lparr>m_pstr = Some (replicate 63 CHR ''y'' @ [NUL]), m_szBuffer = NUL # replicate 63 CHR ''x''\<rparr>"
  have t: "dui_text ?s = replicate 63 CHR ''y''"
    using c_str_append(1) [of "replicate 63 CHR ''y''" "[]"] by (simp add: dui_text_def GetData_def nul_free_def)
  then have ok: "str_ok ?s" by (simp add: str_ok_def GetData_def MAX_LOCAL_STRING_LEN_def)
  have c: "c_str [CHR ''a'', NUL] = ''a''" by (simp add: c_str_def)
  show ?thesis
    using append_after_cut [OF ok, of "replicate 63 CHR ''y'' @ [NUL]" 3 "[CHR ''a'', NUL]" "\<lambda>_. CHR ''x''"] t c
    by (simp add: MAX_LOCAL_STRING_LEN_def numeral_3_eq_3)
qed

text \<open>\<open>Mid\<close> with the largest length: the sum wraps around, the length is not cut down, and there is
  no memory for it.\<close>

lemma Mid_wraps:
  assumes "str_ok s" "1 \<le> length (dui_text s)"
  shows "Mid junk 1 (2 ^ 31 - 1) s = Inl Null_Pointer"
proof -
  have "\<not> int (length (dui_text s)) < - 2147483648" "nat 2147483647 = 2147483647" by simp_all
  then show ?thesis using ptr_ok(1) [OF assms(1), of 1] assms(2) GetLength_text [OF ctor_str_ok(1), of junk]
    by (simp add: Mid_def GetLength_text [OF assms(1)] wrap_int_def CDuiString_lpsz_def Assign_def Let_def
        MAX_LOCAL_STRING_LEN_def realloc_cells_def ctor_str_ok(2))
qed

end
