(* ===== verification/Registry.thy ===== *)
theory Registry
  imports Prelude
begin

text \<open>
  The settings of the program in the Windows registry and the set-up of the log
  (\<open>src/dev/trunk/UCClient/stdafx.cpp\<close>). The class \<open>CRegKey\<close> and the registry behind it are
  a parameter: opening or creating a key may fail, and a query may fail, for strings after
  having written into the caller's buffer.
\<close>

section \<open>Reading and writing settings\<close>

datatype hive = HKEY_CURRENT_USER | HKEY_USERS_DEFAULT

text \<open>
  \<open>reg_create\<close> is \<open>CRegKey::Create\<close> of the program's key under the current user;
  \<open>query_string hive name buf\<close> gives whether the query succeeded and what the buffer, which
  held \<open>buf\<close>, holds afterwards.
\<close>

record 'r reg_api =
  reg_create :: "'r \<Rightarrow> 'r option"
  set_string_value :: "string \<Rightarrow> string \<Rightarrow> 'r \<Rightarrow> 'r"
  set_dword_value :: "string \<Rightarrow> u32 \<Rightarrow> 'r \<Rightarrow> 'r"
  reg_open :: "hive \<Rightarrow> 'r \<Rightarrow> bool"
  query_string :: "hive \<Rightarrow> string \<Rightarrow> string \<Rightarrow> 'r \<Rightarrow> bool \<times> string"
  query_dword :: "hive \<Rightarrow> string \<Rightarrow> 'r \<Rightarrow> u32 option"

definition SetRegKey_string :: "'r reg_api \<Rightarrow> string \<Rightarrow> string \<Rightarrow> 'r \<Rightarrow> 'r" where
  "SetRegKey_string A name strValue r =
     (case reg_create A r of None \<Rightarrow> r | Some r \<Rightarrow> set_string_value A name strValue r)"

definition SetRegKey_dword :: "'r reg_api \<Rightarrow> string \<Rightarrow> u32 \<Rightarrow> 'r \<Rightarrow> 'r" where
  "SetRegKey_dword A name v r =
     (case reg_create A r of None \<Rightarrow> r | Some r \<Rightarrow> set_dword_value A name v r)"

definition ReadRegKeyString :: "'r reg_api \<Rightarrow> string \<Rightarrow> string \<Rightarrow> 'r \<Rightarrow> string" where
  "ReadRegKeyString A name dflt r =
     (let (ok, strValue) = (if reg_open A HKEY_CURRENT_USER r
                            then query_string A HKEY_CURRENT_USER name dflt r else (False, dflt));
          (ok, strValue) = (if ok then (ok, strValue)
                            else if reg_open A HKEY_USERS_DEFAULT r
                            then query_string A HKEY_USERS_DEFAULT name strValue r
                            else (False, strValue))
      in c_str strValue)"

definition ReadRegKeyDWORD :: "'r reg_api \<Rightarrow> string \<Rightarrow> u32 \<Rightarrow> 'r \<Rightarrow> u32" where
  "ReadRegKeyDWORD A name dflt r =
     (let found = (if reg_open A HKEY_CURRENT_USER r then query_dword A HKEY_CURRENT_USER name r else None);
          found = (if found = None \<and> reg_open A HKEY_USERS_DEFAULT r
                   then query_dword A HKEY_USERS_DEFAULT name r else found)
      in case found of None \<Rightarrow> dflt | Some v \<Rightarrow> v)"

section \<open>The log\<close>

definition INFO_LOG_LEVEL :: u32 where
  "INFO_LOG_LEVEL = 20000"

record log_state =
  g_Log4cplusReferce :: u32
  root_level :: u32
  pjsip_level :: u32
  wslog_level :: u32

definition InitLog4cplus :: "'r reg_api \<Rightarrow> 'r \<Rightarrow> log_state \<Rightarrow> log_state" where
  "InitLog4cplus A r l =
     (let old = g_Log4cplusReferce l;
          l = l\<lparr>g_Log4cplusReferce := old + 1\<rparr>
      in if old \<noteq> 0 then l
         else
           let LogLevel = ReadRegKeyDWORD A ''LogLevel'' 20000 r
           in l\<lparr>root_level := (if sint INFO_LOG_LEVEL \<le> sint LogLevel then LogLevel - INFO_LOG_LEVEL
                               else LogLevel),
                pjsip_level := LogLevel, wslog_level := LogLevel\<rparr>)"

section \<open>Settings are read back\<close>

text \<open>
  What is documented of \<open>CRegKey\<close> and used here: a key that could be created can be opened,
  a value set is the value queried, within the \<open>MAX_PATH\<close> characters of the buffer for a
  string, and setting one value leaves the others.
\<close>

definition reg_documented :: "'r reg_api \<Rightarrow> bool" where
  "reg_documented A \<longleftrightarrow>
     (\<forall>r r' name s buf. reg_create A r = Some r' \<longrightarrow> length s < 260 \<longrightarrow>
        reg_open A HKEY_CURRENT_USER (set_string_value A name s r')
        \<and> query_string A HKEY_CURRENT_USER name buf (set_string_value A name s r') = (True, s))
     \<and> (\<forall>r r' name v. reg_create A r = Some r' \<longrightarrow>
        reg_open A HKEY_CURRENT_USER (set_dword_value A name v r')
        \<and> query_dword A HKEY_CURRENT_USER name (set_dword_value A name v r') = Some v)"

lemma string_read_back:
  "reg_documented A \<Longrightarrow> reg_create A r = Some r' \<Longrightarrow> length s < 260 \<Longrightarrow> nul_free s \<Longrightarrow>
   ReadRegKeyString A name dflt (SetRegKey_string A name s r) = s"
  by (simp add: reg_documented_def ReadRegKeyString_def SetRegKey_string_def)

lemma dword_read_back:
  "reg_documented A \<Longrightarrow> reg_create A r = Some r' \<Longrightarrow>
   ReadRegKeyDWORD A name d (SetRegKey_dword A name v r) = v"
  by (simp add: reg_documented_def ReadRegKeyDWORD_def SetRegKey_dword_def)

end
