(* ===== verification/Win_SDK.thy ===== *)
theory Win_SDK
  imports Web_Socket Json_Value
begin

text \<open>
  \<open>CWinSDKBase\<close> (\<open>src/dev/trunk/UCClient/WinSDKBase.cpp\<close>): the wrapper around the telephony
  library CCPClient, which is a closed library. Its functions are the constructors of
  \<open>sdk_call\<close>, each with the arguments the wrapper passes; the calls made are recorded, and
  what the library answers is a function of the calls so far. The state adds to that of the
  web socket layer the pointer \<open>g_Instance\<close> to the object that receives the library's
  events, the reference counter, the cached version and the account fields of each object.
  Log output is left out.
\<close>

section \<open>The library\<close>

datatype sdk_call =
    ccp_getVersion
  | ccp_servicecoreInitialize
  | ccp_unInitialize
  | ccp_setTraceFlag bool string i32
  | ccp_connectToCCPServer string i32 string string
  | ccp_disConnectToCCP
  | ccp_makeCall i32 string
  | ccp_alertingCall "string option"
  | ccp_acceptCall string i32
  | ccp_pauseCall string
  | ccp_resumeCall string
  | ccp_releaseCall "string option" i32
  | ccp_getCurrentCall
  | ccp_transferCall string string i32
  | ccp_consultTransferCall string string string
  | ccp_transferMeeting i32 string string string
  | ccp_sendDTMF string char
  | ccp_setMute bool
  | ccp_setCodecEnabled i32 i32
  | ccp_getCodecEnabled i32
  | ccp_getMicroPhoneInfo
  | ccp_selectMicroPhone i32
  | ccp_getSpeakerInfo
  | ccp_selectSpeaker i32
  | ccp_setUserData i32 string
  | ccp_setSipTransportType i32
  | ccp_setSrtpEnabled i32 i32

text \<open>A microphone or speaker: \<open>CCPMicroPhoneInfo\<close> and \<open>CCPSpeakerInfo\<close> have the same fields.\<close>

record device =
  dev_index :: i32
  dev_name :: string
  dev_guid :: string

record ccp =
  int_answer :: "sdk_call list \<Rightarrow> i32"
  text_answer :: "sdk_call list \<Rightarrow> string option"
  device_answer :: "sdk_call list \<Rightarrow> device list"

record account =
  m_addr :: string
  acc_port :: i32
  m_voipid :: string
  m_voippwd :: string

record sdk_world = ws_world +
  g_Instance :: nat
  g_pjsipReferce :: u32
  version_result :: string
  sdk_calls :: "sdk_call list"
  accounts :: "nat \<Rightarrow> account option"

definition ask :: "sdk_call \<Rightarrow> 'z sdk_world_scheme \<Rightarrow> 'z sdk_world_scheme" where
  "ask c w = w\<lparr>sdk_calls := sdk_calls w @ [c]\<rparr>"

definition ask_int :: "ccp \<Rightarrow> sdk_call \<Rightarrow> 'z sdk_world_scheme \<Rightarrow> i32 \<times> 'z sdk_world_scheme" where
  "ask_int K c w = (int_answer K (sdk_calls w @ [c]), ask c w)"

definition ask_text ::
    "ccp \<Rightarrow> sdk_call \<Rightarrow> 'z sdk_world_scheme \<Rightarrow> string option \<times> 'z sdk_world_scheme" where
  "ask_text K c w = (map_option c_str (text_answer K (sdk_calls w @ [c])), ask c w)"

section \<open>Construction and the reference counter\<close>

text \<open>The version is asked for once, unless it is empty; a null pointer makes no \<open>std::string\<close>.\<close>

definition getVersion :: "ccp \<Rightarrow> 'z sdk_world_scheme \<Rightarrow> (string \<times> 'z sdk_world_scheme) result" where
  "getVersion K w =
     (if version_result w \<noteq> [] then Inr (version_result w, w)
      else
        case ask_text K ccp_getVersion w of
          (None, w) \<Rightarrow> Inl Null_Pointer
        | (Some v, w) \<Rightarrow> Inr (v, w\<lparr>version_result := v\<rparr>))"

definition new_account :: account where
  "new_account = \<lparr>m_addr = [], acc_port = 5060, m_voipid = [], m_voippwd = []\<rparr>"

definition CWinSDKBase_ctor :: "ccp \<Rightarrow> nat \<Rightarrow> 'z sdk_world_scheme \<Rightarrow> 'z sdk_world_scheme result" where
  "CWinSDKBase_ctor K this w =
     rbind (getVersion K w) (\<lambda>(v, w).
       Inr (w\<lparr>accounts := (accounts w)(this \<mapsto> new_account), g_Instance := this\<rparr>))"

definition CWinSDKBase_dtor :: "nat \<Rightarrow> 'z sdk_world_scheme \<Rightarrow> 'z sdk_world_scheme" where
  "CWinSDKBase_dtor this w = w\<lparr>accounts := (accounts w)(this := None), g_Instance := 0\<rparr>"

definition codec_H264 :: i32 where "codec_H264 = 4"
definition codec_VP8 :: i32 where "codec_VP8 = 7"
definition codec_H264_HIGH :: i32 where "codec_H264_HIGH = 12"

definition initialize :: "ccp \<Rightarrow> 'z sdk_world_scheme \<Rightarrow> i32 \<times> 'z sdk_world_scheme" where
  "initialize K w =
     (let old = g_pjsipReferce w;
          w = w\<lparr>g_pjsipReferce := old + 1\<rparr>
      in if old = 0 then
           let (ret, w) = ask_int K ccp_servicecoreInitialize w
           in (ret, ask (ccp_setCodecEnabled codec_H264_HIGH 0)
                     (ask (ccp_setCodecEnabled codec_H264 0)
                       (ask (ccp_setCodecEnabled codec_VP8 0) w)))
         else (0, w))"

definition unInitialize :: "ccp \<Rightarrow> 'z sdk_world_scheme \<Rightarrow> i32 \<times> 'z sdk_world_scheme" where
  "unInitialize K w =
     (let old = g_pjsipReferce w;
          w = w\<lparr>g_pjsipReferce := old - 1\<rparr>
      in if old = 1 then ask_int K ccp_unInitialize w else (0, w))"

section \<open>Calls\<close>

text \<open>\<open>connectToCCPServer\<close> keeps the account and always reports success.\<close>

definition connectToCCPServer ::
    "ccp \<Rightarrow> nat \<Rightarrow> string \<Rightarrow> i32 \<Rightarrow> string \<Rightarrow> string \<Rightarrow> 'z sdk_world_scheme
     \<Rightarrow> i32 \<times> 'z sdk_world_scheme" where
  "connectToCCPServer K this utf8Addr p utf8voipId utf8voipPwd w =
     (let w = w\<lparr>accounts := (accounts w)(this \<mapsto>
                  \<lparr>m_addr = utf8Addr, acc_port = p, m_voipid = utf8voipId, m_voippwd = utf8voipPwd\<rparr>)\<rparr>;
          (ret, w) = ask_int K (ccp_connectToCCPServer (c_str utf8Addr) p (c_str utf8voipId) (c_str utf8voipPwd)) w
      in (0, w))"

definition makeCall :: "ccp \<Rightarrow> string \<Rightarrow> 'z sdk_world_scheme \<Rightarrow> i32 \<times> 'z sdk_world_scheme" where
  "makeCall K strCalled = ask_int K (ccp_makeCall 0 (c_str strCalled))"

definition acceptCall :: "ccp \<Rightarrow> string \<Rightarrow> 'z sdk_world_scheme \<Rightarrow> i32 \<times> 'z sdk_world_scheme" where
  "acceptCall K callid = ask_int K (ccp_acceptCall callid 0)"

definition pauseCall :: "ccp \<Rightarrow> string \<Rightarrow> 'z sdk_world_scheme \<Rightarrow> i32 \<times> 'z sdk_world_scheme" where
  "pauseCall K callid = ask_int K (ccp_pauseCall callid)"

definition resumeCall :: "ccp \<Rightarrow> string \<Rightarrow> 'z sdk_world_scheme \<Rightarrow> i32 \<times> 'z sdk_world_scheme" where
  "resumeCall K callid = ask_int K (ccp_resumeCall callid)"

definition transferCall ::
    "ccp \<Rightarrow> string \<Rightarrow> string \<Rightarrow> i32 \<Rightarrow> 'z sdk_world_scheme \<Rightarrow> i32 \<times> 'z sdk_world_scheme" where
  "transferCall K callid destination type = ask_int K (ccp_transferCall callid (c_str destination) type)"

definition sendDTMF ::
    "ccp \<Rightarrow> string \<Rightarrow> char \<Rightarrow> 'z sdk_world_scheme \<Rightarrow> i32 \<times> 'z sdk_world_scheme" where
  "sendDTMF K callid dtmf = ask_int K (ccp_sendDTMF callid dtmf)"

definition releaseCall ::
    "ccp \<Rightarrow> string option \<Rightarrow> i32 \<Rightarrow> 'z sdk_world_scheme \<Rightarrow> i32 \<times> 'z sdk_world_scheme" where
  "releaseCall K callid reason = ask_int K (ccp_releaseCall callid reason)"

definition getCurrentCall :: "ccp \<Rightarrow> 'z sdk_world_scheme \<Rightarrow> string option \<times> 'z sdk_world_scheme" where
  "getCurrentCall K = ask_text K ccp_getCurrentCall"

definition disConnectToCCP :: "ccp \<Rightarrow> 'z sdk_world_scheme \<Rightarrow> i32 \<times> 'z sdk_world_scheme" where
  "disConnectToCCP K = ask_int K ccp_disConnectToCCP"

definition setTraceFlag :: "bool \<Rightarrow> string \<Rightarrow> i32 \<Rightarrow> 'z sdk_world_scheme \<Rightarrow> 'z sdk_world_scheme" where
  "setTraceFlag enable logFileName level = ask (ccp_setTraceFlag enable logFileName level)"

definition setCodecEnabled ::
    "ccp \<Rightarrow> i32 \<Rightarrow> i32 \<Rightarrow> 'z sdk_world_scheme \<Rightarrow> i32 \<times> 'z sdk_world_scheme" where
  "setCodecEnabled K codecid enabled = ask_int K (ccp_setCodecEnabled codecid enabled)"

definition getCodecEnabled :: "ccp \<Rightarrow> i32 \<Rightarrow> 'z sdk_world_scheme \<Rightarrow> bool \<times> 'z sdk_world_scheme" where
  "getCodecEnabled K codecid w =
     (let (ret, w) = ask_int K (ccp_getCodecEnabled codecid) w in (ret \<noteq> 0, w))"

definition setMute :: "ccp \<Rightarrow> bool \<Rightarrow> 'z sdk_world_scheme \<Rightarrow> i32 \<times> 'z sdk_world_scheme" where
  "setMute K on = ask_int K (ccp_setMute on)"

definition selectMicroPhone :: "ccp \<Rightarrow> i32 \<Rightarrow> 'z sdk_world_scheme \<Rightarrow> i32 \<times> 'z sdk_world_scheme" where
  "selectMicroPhone K microphoneIndex = ask_int K (ccp_selectMicroPhone microphoneIndex)"

definition selectSpeaker :: "ccp \<Rightarrow> i32 \<Rightarrow> 'z sdk_world_scheme \<Rightarrow> i32 \<times> 'z sdk_world_scheme" where
  "selectSpeaker K speakerIndex = ask_int K (ccp_selectSpeaker speakerIndex)"

definition setUserData :: "ccp \<Rightarrow> i32 \<Rightarrow> string \<Rightarrow> 'z sdk_world_scheme \<Rightarrow> i32 \<times> 'z sdk_world_scheme" where
  "setUserData K type data = ask_int K (ccp_setUserData type data)"

definition consultTransferCall ::
    "ccp \<Rightarrow> string \<Rightarrow> string \<Rightarrow> string \<Rightarrow> 'z sdk_world_scheme \<Rightarrow> i32 \<times> 'z sdk_world_scheme" where
  "consultTransferCall K callid consultCallid destination =
     ask_int K (ccp_consultTransferCall callid consultCallid destination)"

definition transferMeeting ::
    "ccp \<Rightarrow> i32 \<Rightarrow> string \<Rightarrow> string \<Rightarrow> string \<Rightarrow> 'z sdk_world_scheme \<Rightarrow> i32 \<times> 'z sdk_world_scheme" where
  "transferMeeting K type callid consultCallid consultedUser =
     ask_int K (ccp_transferMeeting type callid consultCallid consultedUser)"

definition setSipTransportType :: "ccp \<Rightarrow> i32 \<Rightarrow> 'z sdk_world_scheme \<Rightarrow> i32 \<times> 'z sdk_world_scheme" where
  "setSipTransportType K transType = ask_int K (ccp_setSipTransportType transType)"

definition setSrtpEnabled :: "i32 \<Rightarrow> i32 \<Rightarrow> 'z sdk_world_scheme \<Rightarrow> 'z sdk_world_scheme" where
  "setSrtpEnabled TransportType cryptoType = ask (ccp_setSrtpEnabled TransportType cryptoType)"

section \<open>Device lists\<close>

definition device_json :: "device \<Rightarrow> 'd jvalue result" where
  "device_json d =
     rbind (store_key nullValue ''guid'' (Value_string (dev_guid d))) (\<lambda>j.
     rbind (store_key j ''index'' (intValue (dev_index d))) (\<lambda>j.
       store_key j ''name'' (Value_string (dev_name d))))"

fun append_devices :: "device list \<Rightarrow> 'd jvalue \<Rightarrow> 'd jvalue result" where
  "append_devices [] info = Inr info"
| "append_devices (d # ds) info =
     rbind (device_json d) (\<lambda>j. rbind (append_value info j) (append_devices ds))"

definition getMicroPhoneInfo ::
    "ccp \<Rightarrow> 'z sdk_world_scheme \<Rightarrow> ('d jvalue \<times> 'z sdk_world_scheme) result" where
  "getMicroPhoneInfo K w =
     rbind (append_devices (device_answer K (sdk_calls w @ [ccp_getMicroPhoneInfo])) (arrayValue []))
       (\<lambda>info. Inr (info, ask ccp_getMicroPhoneInfo w))"

definition getSpeakerInfo ::
    "ccp \<Rightarrow> 'z sdk_world_scheme \<Rightarrow> ('d jvalue \<times> 'z sdk_world_scheme) result" where
  "getSpeakerInfo K w =
     rbind (append_devices (device_answer K (sdk_calls w @ [ccp_getSpeakerInfo])) (arrayValue []))
       (\<lambda>info. Inr (info, ask ccp_getSpeakerInfo w))"

section \<open>The library runs while it is used\<close>

fun core_step :: "bool \<Rightarrow> sdk_call \<Rightarrow> bool" where
  "core_step running ccp_servicecoreInitialize = True"
| "core_step running ccp_unInitialize = False"
| "core_step running _ = running"

definition core_running :: "sdk_call list \<Rightarrow> bool" where
  "core_running calls = foldl core_step False calls"

lemma core_running_append [simp]: "core_running (calls @ cs) = foldl core_step (core_running calls) cs"
  by (simp add: core_running_def)

lemma sdk_calls_ask [simp]: "sdk_calls (ask c w) = sdk_calls w @ [c]"
  by (simp add: ask_def)

lemma g_pjsipReferce_ask [simp]: "g_pjsipReferce (ask c w) = g_pjsipReferce w"
  by (simp add: ask_def)

lemma g_pjsipReferce_initialize: "g_pjsipReferce (snd (initialize K w)) = g_pjsipReferce w + 1"
  by (simp add: initialize_def Let_def ask_int_def)

lemma g_pjsipReferce_unInitialize: "g_pjsipReferce (snd (unInitialize K w)) = g_pjsipReferce w - 1"
  by (simp add: unInitialize_def Let_def ask_int_def)

lemma core_running_initialize:
  "core_running (sdk_calls (snd (initialize K w))) = (g_pjsipReferce w = 0 \<or> core_running (sdk_calls w))"
  by (simp add: initialize_def Let_def ask_int_def)

lemma core_running_unInitialize:
  "core_running (sdk_calls (snd (unInitialize K w))) = (g_pjsipReferce w \<noteq> 1 \<and> core_running (sdk_calls w))"
  by (simp add: unInitialize_def Let_def ask_int_def)

lemma unat_Suc_word: "unat (x :: u32) < 4294967295 \<Longrightarrow> unat (x + 1) = unat x + 1"
  by (simp add: unat_word_ariths)

lemma unat_pred_word: "0 < unat (x :: u32) \<Longrightarrow> unat (x - 1) = unat x - 1"
  by (simp add: unat_minus_one unat_gt_0)

lemma unat_one_iff: "unat (x :: u32) = 1 \<longleftrightarrow> x = 1"
  by (metis unat_1 word_unat_eq_iff)

interpretation sdk_count: refcounted
  "\<lambda>w. unat (g_pjsipReferce w)" "\<lambda>w. core_running (sdk_calls w)"
  "\<lambda>w. snd (initialize K w)" "\<lambda>w. snd (unInitialize K w)" 4294967295 for K
  by unfold_locales
    (simp_all add: g_pjsipReferce_initialize g_pjsipReferce_unInitialize core_running_initialize
      core_running_unInitialize unat_Suc_word unat_pred_word unat_eq_0 unat_one_iff [simplified])

text \<open>
  C14: over any sequence of \<open>initialize\<close> and \<open>unInitialize\<close> that never releases more than it
  acquired, the reference counter is the number of users, and the telephony library is
  initialised exactly while there is one: it is started by the first and stopped by the last.
\<close>

theorem sdk_runs_while_used:
  assumes "balanced 4294967295 0 ops" and "g_pjsipReferce w = 0" and "\<not> core_running (sdk_calls w)"
  shows "unat (g_pjsipReferce (run_counted (\<lambda>w. snd (initialize K w)) (\<lambda>w. snd (unInitialize K w)) ops w))
           = users 0 ops
    \<and> core_running (sdk_calls (run_counted (\<lambda>w. snd (initialize K w)) (\<lambda>w. snd (unInitialize K w)) ops w))
           = (0 < users 0 ops)"
  using sdk_count.active_while_used [of w ops K] assms by simp

definition silent_ccp :: ccp where
  "silent_ccp = \<lparr>int_answer = (\<lambda>_. 0), text_answer = (\<lambda>_. Some ''5.4''), device_answer = (\<lambda>_. [])\<rparr>"

definition sdk_start :: sdk_world where
  "sdk_start =
     \<lparr>WSClientSet = [], heap = (\<lambda>_. None), next_obj = 5, lws_calls = [], g_Instance = 0,
      g_pjsipReferce = 0, version_result = [], sdk_calls = [], accounts = (\<lambda>_. None)\<rparr>"

theorem sdk_runs_while_used_witness:
  "unat (g_pjsipReferce (run_counted (\<lambda>w. snd (initialize silent_ccp w)) (\<lambda>w. snd (unInitialize silent_ccp w))
           [True, True, False, True, False, False, True] sdk_start)) = 1
   \<and> core_running (sdk_calls (run_counted (\<lambda>w. snd (initialize silent_ccp w)) (\<lambda>w. snd (unInitialize silent_ccp w))
           [True, True, False, True, False, False, True] sdk_start))"
  using sdk_runs_while_used [of "[True, True, False, True, False, False, True]" sdk_start silent_ccp]
  by (simp add: sdk_start_def core_running_def del: run_counted.simps)

section \<open>What the device lists hold\<close>

definition device_object :: "device \<Rightarrow> 'd jvalue" where
  "device_object d =
     objectValue [(''guid'', Value_string (dev_guid d)), (''index'', intValue (dev_index d)),
                  (''name'', Value_string (dev_name d))]"

lemma device_json_object: "device_json d = Inr (device_object d)"
  by (simp add: device_json_def device_object_def)

lemma append_devices_dense:
  "dense m \<Longrightarrow> length m + length ds < 2 ^ 31 \<Longrightarrow>
   \<exists>m'. append_devices ds (arrayValue m) = Inr (arrayValue m') \<and> dense m'
     \<and> map snd m' = map snd m @ map device_object ds"
proof (induction ds arbitrary: m)
  case (Cons d ds)
  have "length m < 2 ^ 31" using Cons.prems(2) by simp
  note step = append_dense [OF Cons.prems(1) this, of "device_object d"]
  have "dense (m @ [(int (length m), device_object d)])" using Cons.prems(1) by (rule dense_snoc)
  moreover have "length (m @ [(int (length m), device_object d)]) + length ds < 2 ^ 31" using Cons.prems(2) by simp
  ultimately have "\<exists>m'. append_devices ds (arrayValue (m @ [(int (length m), device_object d)])) = Inr (arrayValue m')
      \<and> dense m' \<and> map snd m' = map snd (m @ [(int (length m), device_object d)]) @ map device_object ds"
    by (rule Cons.IH)
  then show ?case by (auto simp: device_json_object step)
qed simp

text \<open>
  \<open>getMicroPhoneInfo\<close> returns an array without holes with one object per microphone the
  library lists, in the library's order, with its guid, index and name.
\<close>

theorem getMicroPhoneInfo_lists:
  assumes "int (length (device_answer K (sdk_calls w @ [ccp_getMicroPhoneInfo]))) < 2147483648"
  shows "\<exists>m :: (int \<times> 'd jvalue) list.
      getMicroPhoneInfo K w = Inr (arrayValue m, ask ccp_getMicroPhoneInfo w) \<and> dense m
    \<and> map snd m = map device_object (device_answer K (sdk_calls w @ [ccp_getMicroPhoneInfo]))"
  using append_devices_dense [of "[] :: (int \<times> 'd jvalue) list" "device_answer K (sdk_calls w @ [ccp_getMicroPhoneInfo])"] assms
  by (auto simp: getMicroPhoneInfo_def)

theorem getMicroPhoneInfo_lists_witness:
  "\<exists>m :: (int \<times> int jvalue) list.
     getMicroPhoneInfo (silent_ccp\<lparr>device_answer := (\<lambda>_. [\<lparr>dev_index = 2, dev_name = ''mic'', dev_guid = ''g''\<rparr>])\<rparr>) sdk_start
       = Inr (arrayValue m, ask ccp_getMicroPhoneInfo sdk_start)
     \<and> map snd m = [device_object \<lparr>dev_index = 2, dev_name = ''mic'', dev_guid = ''g''\<rparr>]"
  using getMicroPhoneInfo_lists [of "silent_ccp\<lparr>device_answer := (\<lambda>_. [\<lparr>dev_index = 2, dev_name = ''mic'', dev_guid = ''g''\<rparr>])\<rparr>" sdk_start]
  by auto

end
