(* ===== verification/UC_Client.thy ===== *)
theory UC_Client
  imports Win_SDK Registry Json_Roundtrip
begin

text \<open>
  \<open>UCClientWSclient\<close> (\<open>src/dev/trunk/UCClient/UCClientWebSocket.cpp\<close>): one object per
  connected browser, both a \<open>WebSocketClient\<close> and a \<open>CWinSDKBase\<close>. \<open>OnMessage\<close> takes a JSON
  command, carries it out on the telephony library or the registry, and sends one JSON
  reply. The telephony library's events, which go to every connected browser, are in
  \<open>UC_Events\<close>.

  The code reads its parameters as \<open>jsonEvent["param"]["x"]\<close> on a non-const value, which
  inserts null members on the way; \<open>read_param\<close> is that access. The handlers use \<open>param_at\<close>
  instead, which looks without inserting: \<open>read_params_look\<close> shows that any sequence of
  reads sees the same values either way.
\<close>

section \<open>State\<close>

record 'r uc_world = sdk_world +
  g_WSClientSet :: "nat list"
  reg :: 'r

section \<open>Construction, opening and closing\<close>

definition UCClientWSclient_ctor :: "ccp \<Rightarrow> nat \<Rightarrow> 'r uc_world \<Rightarrow> 'r uc_world result" where
  "UCClientWSclient_ctor K k w =
     (let (this, w) = WebSocketClient_wsi True k w in CWinSDKBase_ctor K this w)"

text \<open>
  \<open>delete\<close> runs the destructor's body, then those of the bases, the last one first.
\<close>

definition UCClientWSclient_dtor :: "nat \<Rightarrow> 'r uc_world \<Rightarrow> 'r uc_world result" where
  "UCClientWSclient_dtor this w =
     destroy_WebSocketClient this
       (CWinSDKBase_dtor this (w\<lparr>g_WSClientSet := removeAll this (g_WSClientSet w)\<rparr>))"

definition UC_OnOpen :: "nat \<Rightarrow> 'r uc_world \<Rightarrow> 'r uc_world result" where
  "UC_OnOpen this w = Inr (w\<lparr>g_WSClientSet := g_WSClientSet w @ [this]\<rparr>)"

definition UC_OnClose :: "nat \<Rightarrow> string \<Rightarrow> 'r uc_world \<Rightarrow> 'r uc_world result" where
  "UC_OnClose this errorCode w = UCClientWSclient_dtor this w"

definition UC_OnError :: "nat \<Rightarrow> string \<Rightarrow> 'r uc_world \<Rightarrow> 'r uc_world result" where
  "UC_OnError this errorCode w = Inr w"

definition UC_OnSend :: "nat \<Rightarrow> 'r uc_world \<Rightarrow> 'r uc_world result" where
  "UC_OnSend this w = Inr w"

definition UCClientWSServer_OnAccept :: "ccp \<Rightarrow> nat \<Rightarrow> 'r uc_world \<Rightarrow> 'r uc_world result" where
  "UCClientWSServer_OnAccept K k w = UCClientWSclient_ctor K k w"

section \<open>Parameters of a command\<close>

definition read_param :: "'d jvalue \<Rightarrow> string \<Rightarrow> ('d jvalue \<times> 'd jvalue) result" where
  "read_param doc key =
     rbind (resolveReference doc ''param'') (\<lambda>(doc, p).
     rbind (resolveReference p key) (\<lambda>(p, v).
     rbind (store_key doc ''param'' p) (\<lambda>doc. Inr (doc, v))))"

definition param_at :: "'d jvalue \<Rightarrow> string \<Rightarrow> 'd jvalue result" where
  "param_at doc key = rbind (key_const doc ''param'') (\<lambda>p. key_const p key)"

definition str_param :: "'d jvalue \<Rightarrow> string \<Rightarrow> string \<Rightarrow> string result" where
  "str_param doc key dflt = rbind (param_at doc key) (\<lambda>v. if isString v then asString v else Inr dflt)"

definition int_param :: "'d crt \<Rightarrow> 'd jvalue \<Rightarrow> string \<Rightarrow> i32 \<Rightarrow> i32 result" where
  "int_param R doc key dflt = rbind (param_at doc key) (\<lambda>v. if isInt v then asInt R v else Inr dflt)"

definition cstr_param :: "'d jvalue \<Rightarrow> string \<Rightarrow> string option \<Rightarrow> string option result" where
  "cstr_param doc key dflt =
     rbind (param_at doc key) (\<lambda>v. if isString v then rbind (asCString v) (\<lambda>s. Inr (Some s)) else Inr dflt)"

text \<open>
  What a command leaves: the members of the reply's \<open>param\<close> it assigned, in the order of the
  assignments, and the state.
\<close>

type_synonym ('d, 'r) handled = "((string \<times> 'd jvalue) list \<times> 'r uc_world) result"

definition returns :: "i32 \<times> 'r uc_world \<Rightarrow> (string \<times> 'd jvalue) list \<Rightarrow> ('d, 'r) handled" where
  "returns rw others = Inr ((''return'', intValue (fst rw)) # others, snd rw)"

section \<open>Commands\<close>

definition cmd_initialize :: "'r uc_world \<Rightarrow> ('d, 'r) handled" where
  "cmd_initialize w = Inr ([(''return'', intValue 0)], w)"

definition cmd_unInitialize :: "'r uc_world \<Rightarrow> ('d, 'r) handled" where
  "cmd_unInitialize w = Inr ([(''return'', intValue 0)], w)"

definition cmd_connectToCCPServer ::
    "'d crt \<Rightarrow> ccp \<Rightarrow> nat \<Rightarrow> 'd jvalue \<Rightarrow> 'r uc_world \<Rightarrow> ('d, 'r) handled" where
  "cmd_connectToCCPServer R K this doc w =
     rbind (str_param doc ''serverAddr'' []) (\<lambda>serverAddr.
     rbind (int_param R doc ''serverPort'' 0) (\<lambda>p.
     rbind (str_param doc ''voipId'' []) (\<lambda>voipId.
     rbind (str_param doc ''voipPwd'' []) (\<lambda>voipPwd.
       returns (connectToCCPServer K this (c_str serverAddr) p (c_str voipId) (c_str voipPwd) w) []))))"

definition cmd_disConnectToCCP :: "ccp \<Rightarrow> 'r uc_world \<Rightarrow> ('d, 'r) handled" where
  "cmd_disConnectToCCP K w = returns (disConnectToCCP K w) []"

text \<open>The library is asked twice: once for the test, once for the value.\<close>

definition cmd_getCurrentCall :: "ccp \<Rightarrow> 'r uc_world \<Rightarrow> ('d, 'r) handled" where
  "cmd_getCurrentCall K w =
     (case getCurrentCall K w of
        (None, w) \<Rightarrow> Inr ([(''callid'', Value_string [])], w)
      | (Some _, w) \<Rightarrow>
          let (callid, w) = getCurrentCall K w
          in rbind (Value_cstring callid) (\<lambda>v. Inr ([(''callid'', v)], w)))"

text \<open>
  \<open>enable\<close> is assigned \<open>isInt()\<close> rather than \<open>asInt()\<close>, under the condition that \<open>isInt()\<close>.
\<close>

definition cmd_setTraceFlag :: "'d crt \<Rightarrow> 'd jvalue \<Rightarrow> 'r uc_world \<Rightarrow> ('d, 'r) handled" where
  "cmd_setTraceFlag R doc w =
     rbind (param_at doc ''enable'') (\<lambda>e.
     let enable = (if isInt e then isInt e else True) in
     rbind (cstr_param doc ''logFileName'' (Some [])) (\<lambda>fileName.
     rbind (int_param R doc ''logLevel'' 23) (\<lambda>logLevel.
       Inr ([(''return'', intValue 0)], setTraceFlag enable (the fileName) logLevel w))))"

definition cmd_makeCall :: "ccp \<Rightarrow> 'd jvalue \<Rightarrow> 'r uc_world \<Rightarrow> ('d, 'r) handled" where
  "cmd_makeCall K doc w =
     rbind (str_param doc ''caller'' []) (\<lambda>caller.
     rbind (str_param doc ''called'' []) (\<lambda>called.
     let (ret, w) = makeCall K (c_str called) w in
     case getCurrentCall K w of
       (None, w) \<Rightarrow> Inr ([(''return'', intValue ret)], w)
     | (Some _, w) \<Rightarrow>
         let (callid, w) = getCurrentCall K w
         in rbind (Value_cstring callid) (\<lambda>v. Inr ([(''return'', intValue ret), (''callid'', v)], w))))"

definition cmd_acceptCall :: "ccp \<Rightarrow> 'd jvalue \<Rightarrow> 'r uc_world \<Rightarrow> ('d, 'r) handled" where
  "cmd_acceptCall K doc w =
     rbind (str_param doc ''callid'' []) (\<lambda>callid.
       returns (acceptCall K (c_str callid) w) [(''callid'', Value_string callid)])"

definition cmd_pauseCall :: "ccp \<Rightarrow> 'd jvalue \<Rightarrow> 'r uc_world \<Rightarrow> ('d, 'r) handled" where
  "cmd_pauseCall K doc w =
     rbind (str_param doc ''callid'' []) (\<lambda>callid.
       returns (pauseCall K (c_str callid) w) [(''callid'', Value_string callid)])"

definition cmd_resumeCall :: "ccp \<Rightarrow> 'd jvalue \<Rightarrow> 'r uc_world \<Rightarrow> ('d, 'r) handled" where
  "cmd_resumeCall K doc w =
     rbind (str_param doc ''callid'' []) (\<lambda>callid.
       returns (resumeCall K (c_str callid) w) [(''callid'', Value_string callid)])"

definition cmd_releaseCall ::
    "'d crt \<Rightarrow> ccp \<Rightarrow> 'd jvalue \<Rightarrow> 'r uc_world \<Rightarrow> ('d, 'r) handled" where
  "cmd_releaseCall R K doc w =
     rbind (cstr_param doc ''callid'' None) (\<lambda>callid.
     rbind (int_param R doc ''reason'' 0) (\<lambda>reason.
       returns (releaseCall K callid reason w)
         (case callid of None \<Rightarrow> [] | Some s \<Rightarrow> [(''callid'', Value_string s)])))"

text \<open>One call of \<open>sendDTMF\<close> per character, each assigning \<open>return\<close> anew.\<close>

fun send_digits ::
    "ccp \<Rightarrow> string \<Rightarrow> string \<Rightarrow> 'r uc_world \<Rightarrow> (string \<times> 'd jvalue) list \<times> 'r uc_world" where
  "send_digits K callid [] w = ([], w)"
| "send_digits K callid (c # cs) w =
     (let (ret, w) = sendDTMF K callid c w;
          (sets, w) = send_digits K callid cs w
      in ((''return'', intValue ret) # sets, w))"

definition cmd_sendDTMF :: "ccp \<Rightarrow> 'd jvalue \<Rightarrow> 'r uc_world \<Rightarrow> ('d, 'r) handled" where
  "cmd_sendDTMF K doc w =
     rbind (str_param doc ''callid'' []) (\<lambda>callid.
     rbind (str_param doc ''dtmf'' []) (\<lambda>dtmf.
     let (sets, w) = send_digits K (c_str callid) dtmf w in
       Inr (sets @ [(''callid'', Value_string callid), (''dtmf'', Value_string dtmf)], w)))"

definition cmd_setMute :: "'d crt \<Rightarrow> ccp \<Rightarrow> 'd jvalue \<Rightarrow> 'r uc_world \<Rightarrow> ('d, 'r) handled" where
  "cmd_setMute R K doc w =
     rbind (int_param R doc ''on'' 0) (\<lambda>on. returns (setMute K (on \<noteq> 0) w) [])"

definition cmd_transferCall ::
    "'d crt \<Rightarrow> ccp \<Rightarrow> 'd jvalue \<Rightarrow> 'r uc_world \<Rightarrow> ('d, 'r) handled" where
  "cmd_transferCall R K doc w =
     rbind (str_param doc ''callid'' []) (\<lambda>callid.
     rbind (str_param doc ''dest'' []) (\<lambda>dest.
     rbind (int_param R doc ''type'' 0) (\<lambda>type.
       returns (transferCall K (c_str callid) dest type w) [(''callid'', Value_string callid)])))"

definition cmd_consultTransferCall :: "ccp \<Rightarrow> 'd jvalue \<Rightarrow> 'r uc_world \<Rightarrow> ('d, 'r) handled" where
  "cmd_consultTransferCall K doc w =
     rbind (str_param doc ''callid'' []) (\<lambda>callid.
     rbind (str_param doc ''dest'' []) (\<lambda>dest.
     rbind (str_param doc ''consultCallid'' []) (\<lambda>consultCallid.
       returns (consultTransferCall K (c_str callid) (c_str consultCallid) (c_str dest) w)
         [(''callid'', Value_string callid)])))"

definition cmd_transferMeeting ::
    "'d crt \<Rightarrow> ccp \<Rightarrow> 'd jvalue \<Rightarrow> 'r uc_world \<Rightarrow> ('d, 'r) handled" where
  "cmd_transferMeeting R K doc w =
     rbind (int_param R doc ''type'' 0) (\<lambda>type.
     rbind (str_param doc ''callid'' []) (\<lambda>callid.
     rbind (str_param doc ''consultedUser'' []) (\<lambda>consultedUser.
     rbind (str_param doc ''consultCallid'' []) (\<lambda>consultCallid.
       returns (transferMeeting K type (c_str callid) (c_str consultCallid) (c_str consultedUser) w)
         [(''callid'', Value_string callid)]))))"

definition cmd_setUserData :: "'d crt \<Rightarrow> ccp \<Rightarrow> 'd jvalue \<Rightarrow> 'r uc_world \<Rightarrow> ('d, 'r) handled" where
  "cmd_setUserData R K doc w =
     rbind (int_param R doc ''type'' 0) (\<lambda>type.
     rbind (str_param doc ''data'' []) (\<lambda>data.
       returns (setUserData K type (c_str data) w) []))"

definition cmd_setSipTransportType ::
    "'d crt \<Rightarrow> ccp \<Rightarrow> 'd jvalue \<Rightarrow> 'r uc_world \<Rightarrow> ('d, 'r) handled" where
  "cmd_setSipTransportType R K doc w =
     rbind (int_param R doc ''transType'' 0) (\<lambda>type. returns (setSipTransportType K type w) [])"

definition cmd_setSrtpEnabled :: "'d crt \<Rightarrow> 'd jvalue \<Rightarrow> 'r uc_world \<Rightarrow> ('d, 'r) handled" where
  "cmd_setSrtpEnabled R doc w =
     rbind (int_param R doc ''TransportType'' 0) (\<lambda>type.
     rbind (int_param R doc ''cryptoType'' 0) (\<lambda>cryptoType.
       Inr ([], setSrtpEnabled type cryptoType w)))"

definition cmd_setCodecEnabled ::
    "'d crt \<Rightarrow> ccp \<Rightarrow> 'd jvalue \<Rightarrow> 'r uc_world \<Rightarrow> ('d, 'r) handled" where
  "cmd_setCodecEnabled R K doc w =
     rbind (int_param R doc ''type'' 0) (\<lambda>type.
     rbind (int_param R doc ''enable'' 0) (\<lambda>enable.
       returns (setCodecEnabled K type (if enable = 0 then 0 else 1) w)
         [(''type'', uintValue type), (''enable'', uintValue enable)]))"

definition cmd_getCodecEnabled ::
    "'d crt \<Rightarrow> ccp \<Rightarrow> 'd jvalue \<Rightarrow> 'r uc_world \<Rightarrow> ('d, 'r) handled" where
  "cmd_getCodecEnabled R K doc w =
     rbind (int_param R doc ''type'' 0) (\<lambda>type.
     let (ret, w) = getCodecEnabled K type w in
       Inr ([(''return'', booleanValue ret), (''type'', uintValue type)], w))"

definition cmd_getMicroPhoneInfo :: "ccp \<Rightarrow> 'r uc_world \<Rightarrow> ('d, 'r) handled" where
  "cmd_getMicroPhoneInfo K w = rbind (getMicroPhoneInfo K w) (\<lambda>(info, w). Inr ([(''return'', info)], w))"

definition cmd_selectMicroPhone ::
    "'d crt \<Rightarrow> ccp \<Rightarrow> 'd jvalue \<Rightarrow> 'r uc_world \<Rightarrow> ('d, 'r) handled" where
  "cmd_selectMicroPhone R K doc w =
     rbind (int_param R doc ''index'' 0) (\<lambda>index. returns (selectMicroPhone K index w) [])"

definition cmd_getSpeakerInfo :: "ccp \<Rightarrow> 'r uc_world \<Rightarrow> ('d, 'r) handled" where
  "cmd_getSpeakerInfo K w = rbind (getSpeakerInfo K w) (\<lambda>(info, w). Inr ([(''return'', info)], w))"

definition cmd_selectSpeaker ::
    "'d crt \<Rightarrow> ccp \<Rightarrow> 'd jvalue \<Rightarrow> 'r uc_world \<Rightarrow> ('d, 'r) handled" where
  "cmd_selectSpeaker R K doc w =
     rbind (int_param R doc ''index'' 0) (\<lambda>index. returns (selectSpeaker K index w) [])"

definition cmd_setAudioRecordStatus :: "'d crt \<Rightarrow> 'd jvalue \<Rightarrow> 'r uc_world \<Rightarrow> ('d, 'r) handled" where
  "cmd_setAudioRecordStatus R doc w =
     rbind (str_param doc ''path'' []) (\<lambda>path.
     rbind (int_param R doc ''enable'' 0) (\<lambda>status. Inr ([(''return'', intValue 0)], w)))"

text \<open>
  \<open>uint32_t index;\<close> has no initial value: without an integer \<open>index\<close> in the command, \<open>junk\<close> is
  what the registry gets.
\<close>

definition cmd_selectAudioRecordDevice ::
    "'d crt \<Rightarrow> 'r reg_api \<Rightarrow> u32 \<Rightarrow> 'd jvalue \<Rightarrow> 'r uc_world \<Rightarrow> ('d, 'r) handled" where
  "cmd_selectAudioRecordDevice R A junk doc w =
     rbind (int_param R doc ''index'' junk) (\<lambda>index.
       Inr ([], w\<lparr>reg := SetRegKey_dword A ''MicroPhone'' index (reg w)\<rparr>))"

definition cmd_selectAudioPlayoutDevice ::
    "'d crt \<Rightarrow> 'r reg_api \<Rightarrow> u32 \<Rightarrow> 'd jvalue \<Rightarrow> 'r uc_world \<Rightarrow> ('d, 'r) handled" where
  "cmd_selectAudioPlayoutDevice R A junk doc w =
     rbind (int_param R doc ''index'' junk) (\<lambda>index.
       Inr ([], w\<lparr>reg := SetRegKey_dword A ''Speaker'' index (reg w)\<rparr>))"

definition cmd_setAudioPlayoutVolume ::
    "'d crt \<Rightarrow> 'r reg_api \<Rightarrow> 'd jvalue \<Rightarrow> 'r uc_world \<Rightarrow> ('d, 'r) handled" where
  "cmd_setAudioPlayoutVolume R A doc w =
     rbind (int_param R doc ''volume'' 0) (\<lambda>volume.
       Inr ([], w\<lparr>reg := SetRegKey_dword A ''SpeakerVolume'' volume (reg w)\<rparr>))"

definition cmd_enableGlobalAudioInDevice :: "'d crt \<Rightarrow> 'd jvalue \<Rightarrow> 'r uc_world \<Rightarrow> ('d, 'r) handled" where
  "cmd_enableGlobalAudioInDevice R doc w =
     rbind (int_param R doc ''enable'' 0) (\<lambda>enable. Inr ([], w))"

definition cmd_getVersion :: "ccp \<Rightarrow> 'r uc_world \<Rightarrow> ('d, 'r) handled" where
  "cmd_getVersion K w = rbind (getVersion K w) (\<lambda>(v, w). Inr ([(''return'', Value_string v)], w))"

fun set_members ::
    "'d crt \<Rightarrow> 'r reg_api \<Rightarrow> 'd jvalue \<Rightarrow> string list \<Rightarrow> 'r \<Rightarrow> 'r result" where
  "set_members R A p [] r = Inr r"
| "set_members R A p (it # names) r =
     rbind (key_const p it) (\<lambda>v.
     rbind (if isInt v then rbind (asInt R v) (\<lambda>i. Inr (SetRegKey_dword A (c_str it) i r))
            else if isString v then rbind (asString v) (\<lambda>s. Inr (SetRegKey_string A (c_str it) (c_str s) r))
            else Inr r) (set_members R A p names))"

definition cmd_setRegConfig ::
    "'d crt \<Rightarrow> 'r reg_api \<Rightarrow> 'd jvalue \<Rightarrow> 'r uc_world \<Rightarrow> ('d, 'r) handled" where
  "cmd_setRegConfig R A doc w =
     rbind (key_const doc ''param'') (\<lambda>p.
     rbind (getMemberNames p) (\<lambda>names.
     rbind (set_members R A p names (reg w)) (\<lambda>r.
       Inr ([(''return'', intValue 0)], w\<lparr>reg := r\<rparr>))))"

section \<open>Dispatch and reply\<close>

text \<open>The chain of comparisons of \<open>OnMessage\<close>, cut in two: calls first, then devices and settings.\<close>

definition run_device_cmd ::
    "'d crt \<Rightarrow> ccp \<Rightarrow> 'r reg_api \<Rightarrow> u32 \<Rightarrow> nat \<Rightarrow> string \<Rightarrow> 'd jvalue \<Rightarrow> 'r uc_world \<Rightarrow> ('d, 'r) handled" where
  "run_device_cmd R K A junk this cmd doc w =
     (if cmd = ''setCodecEnabled'' then cmd_setCodecEnabled R K doc w
      else if cmd = ''getCodecEnabled'' then cmd_getCodecEnabled R K doc w
      else if cmd = ''getMicroPhoneInfo'' then cmd_getMicroPhoneInfo K w
      else if cmd = ''selectMicroPhone'' then cmd_selectMicroPhone R K doc w
      else if cmd = ''getSpeakerInfo'' then cmd_getSpeakerInfo K w
      else if cmd = ''selectSpeaker'' then cmd_selectSpeaker R K doc w
      else if cmd = ''setAudioRecordStatus'' then cmd_setAudioRecordStatus R doc w
      else if cmd = ''getAudioRecordDeviceList'' then Inr ([], w)
      else if cmd = ''getAudioPlayoutDeviceList'' then Inr ([], w)
      else if cmd = ''selectAudioRecordDevice'' then cmd_selectAudioRecordDevice R A junk doc w
      else if cmd = ''selectAudioPlayoutDevice'' then cmd_selectAudioPlayoutDevice R A junk doc w
      else if cmd = ''setAudioPlayoutVolume'' then cmd_setAudioPlayoutVolume R A doc w
      else if cmd = ''startMicrophoneTest'' then Inr ([], w)
      else if cmd = ''stopMicrophoneTest'' then Inr ([], w)
      else if cmd = ''startPlayoutTest'' then Inr ([], w)
      else if cmd = ''stopPlayoutTest'' then Inr ([], w)
      else if cmd = ''enableGlobalAudioInDevice'' then cmd_enableGlobalAudioInDevice R doc w
      else if cmd = ''getVersion'' then cmd_getVersion K w
      else if cmd = ''version'' then cmd_getVersion K w
      else if cmd = ''setRegConfig'' then cmd_setRegConfig R A doc w
      else Inr ([], w))"

definition run_cmd ::
    "'d crt \<Rightarrow> ccp \<Rightarrow> 'r reg_api \<Rightarrow> u32 \<Rightarrow> nat \<Rightarrow> string \<Rightarrow> 'd jvalue \<Rightarrow> 'r uc_world \<Rightarrow> ('d, 'r) handled" where
  "run_cmd R K A junk this cmd doc w =
     (if cmd = ''initialize'' then cmd_initialize w
      else if cmd = ''unInitialize '' then cmd_unInitialize w
      else if cmd = ''connectToCCPServer'' then cmd_connectToCCPServer R K this doc w
      else if cmd = ''disConnectToCCP'' then cmd_disConnectToCCP K w
      else if cmd = ''getCurrentCall'' then cmd_getCurrentCall K w
      else if cmd = ''setTraceFlag'' then cmd_setTraceFlag R doc w
      else if cmd = ''makeCall'' then cmd_makeCall K doc w
      else if cmd = ''acceptCall'' then cmd_acceptCall K doc w
      else if cmd = ''pauseCall'' then cmd_pauseCall K doc w
      else if cmd = ''resumeCall'' then cmd_resumeCall K doc w
      else if cmd = ''releaseCall'' then cmd_releaseCall R K doc w
      else if cmd = ''sendDTMF'' then cmd_sendDTMF K doc w
      else if cmd = ''setMute'' then cmd_setMute R K doc w
      else if cmd = ''transferCall'' then cmd_transferCall R K doc w
      else if cmd = ''consultTransferCall'' then cmd_consultTransferCall K doc w
      else if cmd = ''transferMeeting'' then cmd_transferMeeting R K doc w
      else if cmd = ''setUserData'' then cmd_setUserData R K doc w
      else if cmd = ''setSipTransportType'' then cmd_setSipTransportType R K doc w
      else if cmd = ''setSrtpEnabled'' then cmd_setSrtpEnabled R doc w
      else run_device_cmd R K A junk this cmd doc w)"

text \<open>\<open>out["param"][key] = v\<close> on a value that is not const.\<close>

definition put_param :: "'d jvalue \<Rightarrow> string \<Rightarrow> 'd jvalue \<Rightarrow> 'd jvalue result" where
  "put_param out key v =
     rbind (resolveReference out ''param'') (\<lambda>(out, p).
     rbind (store_key p key v) (\<lambda>p. store_key out ''param'' p))"

fun put_params :: "'d jvalue \<Rightarrow> (string \<times> 'd jvalue) list \<Rightarrow> 'd jvalue result" where
  "put_params out [] = Inr out"
| "put_params out (e # es) = rbind (put_param out (fst e) (snd e)) (\<lambda>out. put_params out es)"

definition cmd_reply :: "string \<Rightarrow> (string \<times> 'd jvalue) list \<Rightarrow> 'd jvalue result" where
  "cmd_reply cmd sets =
     rbind (store_key nullValue ''type'' (Value_string ''cmdresult'')) (\<lambda>out.
     rbind (store_key out ''cmdresult'' (Value_string cmd)) (\<lambda>out. put_params out sets))"

definition is_cmd :: "'d jvalue \<Rightarrow> bool result" where
  "is_cmd doc =
     (if isObject doc
      then rbind (key_const doc ''type'') (\<lambda>t.
             if isString t then rbind (asString t) (\<lambda>s. Inr (s = ''cmd'')) else Inr False)
      else Inr False)"

definition cmd_of :: "'d jvalue \<Rightarrow> string result" where
  "cmd_of doc = rbind (key_const doc ''cmd'') (\<lambda>c. if isString c then asString c else Inr [])"

definition UC_OnMessage ::
    "'d crt \<Rightarrow> ccp \<Rightarrow> 'r reg_api \<Rightarrow> u32 \<Rightarrow> nat \<Rightarrow> string \<Rightarrow> 'r uc_world \<Rightarrow> 'r uc_world result" where
  "UC_OnMessage R K A junk this message w =
     (case parse R message nullValue of
        Done ok doc rest \<Rightarrow>
          if \<not> ok then Inr w
          else
            rbind (is_cmd doc) (\<lambda>c.
              if \<not> c then Inr w
              else
                rbind (cmd_of doc) (\<lambda>cmd.
                rbind (run_cmd R K A junk this cmd doc w) (\<lambda>(sets, w).
                rbind (cmd_reply cmd sets) (\<lambda>out. Send this (FastWriter_write R out) w))))
      | Fault e \<Rightarrow> Inl e
      | Diverge \<Rightarrow> Inr w)"

definition uc_vtable :: "'d crt \<Rightarrow> ccp \<Rightarrow> 'r reg_api \<Rightarrow> u32 \<Rightarrow> 'r uc_world vtable" where
  "uc_vtable R K A junk =
     \<lparr>OnOpen_of = UC_OnOpen, OnSend_of = UC_OnSend, OnClose_of = UC_OnClose, OnError_of = UC_OnError,
      OnMessage_of = UC_OnMessage R K A junk, OnAccept_of = UCClientWSServer_OnAccept K\<rparr>"

end
