(* ===== verification/UC_Messages.thy ===== *)
theory UC_Messages
  imports UC_Client
begin

text \<open>
  What \<open>UCClientWSclient::OnMessage\<close> does with a message, for every command: which part of the
  state a command can change, the one reply it gets, what other messages do, and the
  commands that do not do what they say.
\<close>

section \<open>Reading parameters does not change what is read\<close>

fun read_params :: "'d jvalue \<Rightarrow> string list \<Rightarrow> 'd jvalue list result" where
  "read_params doc [] = Inr []"
| "read_params doc (key # keys) =
     rbind (read_param doc key) (\<lambda>(doc, v). rbind (read_params doc keys) (\<lambda>vs. Inr (v # vs)))"

fun look_params :: "'d jvalue \<Rightarrow> string list \<Rightarrow> 'd jvalue list result" where
  "look_params doc [] = Inr []"
| "look_params doc (key # keys) =
     rbind (param_at doc key) (\<lambda>v. rbind (look_params doc keys) (\<lambda>vs. Inr (v # vs)))"

lemma read_param_look:
  assumes "wf_value doc" and "isObject doc"
  shows "(\<exists>e. read_param doc key = Inl e \<and> param_at doc key = Inl e)
    \<or> (\<exists>doc' v. read_param doc key = Inr (doc', v) \<and> param_at doc key = Inr v \<and> wf_value doc' \<and> isObject doc'
         \<and> (\<forall>k. param_at doc' k = param_at doc k))"
proof -
  obtain d p where d: "resolveReference doc ''param'' = Inr (d, p)"
    using assms(2) resolveReference_fails_iff [of doc "''param''"]
    by (cases "resolveReference doc ''param''") auto
  have wf: "wf_value d" "wf_value p" using wf_resolveReference [OF assms(1) d] by simp_all
  have p: "key_const doc ''param'' = Inr p" using resolveReference_const [OF assms(1) d] by blast
  show ?thesis
  proof (cases "resolveReference p key")
    case (Inl e)
    then have "key_const p key = Inl e"
      by (cases p) (auto simp: isObject_def split: option.splits)
    with Inl d p show ?thesis by (simp add: read_param_def param_at_def)
  next
    case (Inr r)
    then obtain p' v where r: "resolveReference p key = Inr (p', v)" by (cases r) auto
    have p': "key_const p key = Inr v" "key_const p' k = key_const p k" for k
      using resolveReference_const [OF wf(2) r] by blast+
    obtain d' where d': "store_key d ''param'' p' = Inr d'" "isObject d'"
      using store_key_total resolveReference_isObject [OF d] by blast
    have "wf_value d'" using wf_store_key [OF wf(1) _ d'(1)] wf_resolveReference [OF wf(2) r] by blast
    moreover have "key_const d' ''param'' = Inr p'" using key_const_store [OF wf(1) d'(1)] by simp
    ultimately show ?thesis using d r d' p p' by (simp add: read_param_def param_at_def)
  qed
qed

lemma look_params_cong: "(\<And>k. param_at doc' k = param_at doc k) \<Longrightarrow> look_params doc' keys = look_params doc keys"
  by (induction keys) simp_all

text \<open>
  C27: reading any sequence of parameters through the non-const \<open>operator[]\<close>, as the command
  handlers do, gives the values, and fails on the first parameter, that looking each of them
  up in the received document gives: the null members it inserts are never seen.
\<close>

theorem read_params_look:
  assumes "wf_value doc" and "isObject doc"
  shows "read_params doc keys = look_params doc keys"
  using assms
proof (induction keys arbitrary: doc)
  case (Cons key keys)
  from read_param_look [OF Cons.prems, of key] show ?case
  proof (elim disjE exE conjE)
    fix e
    assume "read_param doc key = Inl e" "param_at doc key = Inl e"
    then show ?thesis by simp
  next
    fix doc' v
    assume *: "read_param doc key = Inr (doc', v)" "param_at doc key = Inr v" "wf_value doc'" "isObject doc'"
      "\<forall>k. param_at doc' k = param_at doc k"
    then show ?thesis using Cons.IH [of doc'] look_params_cong [of doc' doc keys] by simp
  qed
qed simp

theorem read_params_look_witness:
  "read_params (objectValue [(''cmd'', stringValue ''setMute'')] :: int jvalue) [''on'', ''on'']
   = Inr [nullValue, nullValue]"
  using read_params_look [of "objectValue [(''cmd'', stringValue ''setMute'')] :: int jvalue" "[''on'', ''on'']"]
  by (simp add: isObject_def param_at_def)

section \<open>The reply\<close>

definition reply_object :: "string \<Rightarrow> (string \<times> 'd jvalue) list \<Rightarrow> 'd jvalue" where
  "reply_object cmd sets =
     objectValue ([(''cmdresult'', Value_string cmd)]
       @ (if sets = [] then [] else [(''param'', objectValue (fold (\<lambda>e. map_put (c_str (fst e)) (snd e)) sets []))])
       @ [(''type'', Value_string ''cmdresult'')])"

lemma put_params_object:
  "put_params (objectValue [(''cmdresult'', c), (''param'', objectValue p), (''type'', t)]) sets
   = Inr (objectValue [(''cmdresult'', c), (''param'', objectValue (fold (\<lambda>e. map_put (c_str (fst e)) (snd e)) sets p)), (''type'', t)])"
  by (induction sets arbitrary: p) (simp_all add: put_param_def)

lemma cmd_reply_object: "cmd_reply cmd sets = Inr (reply_object cmd sets)"
  by (cases sets) (simp_all add: cmd_reply_def reply_object_def put_param_def put_params_object)

section \<open>What a command may change\<close>

text \<open>The part of the state the commands leave alone: connections, queues, and the reference counter.\<close>

definition core :: "'r uc_world \<Rightarrow> (nat \<times> nat) list \<times> (nat \<Rightarrow> WebSocketClient option) \<times> nat \<times> lws_call list \<times> nat \<times> u32 \<times> nat list" where
  "core w = (WSClientSet w, heap w, next_obj w, lws_calls w, g_Instance w, g_pjsipReferce w, g_WSClientSet w)"

lemma core_updates [simp]:
  "core (ask c w) = core w"
  "core (w\<lparr>reg := r\<rparr>) = core w"
  "core (w\<lparr>version_result := v\<rparr>) = core w"
  "core (w\<lparr>accounts := a\<rparr>) = core w"
  by (simp_all add: core_def ask_def)

lemma core_asked [simp]: "core (snd (ask_int K c w)) = core w" "core (snd (ask_text K c w)) = core w"
  by (simp_all add: ask_int_def ask_text_def)

lemmas sdk_wrappers = connectToCCPServer_def makeCall_def acceptCall_def pauseCall_def resumeCall_def
  transferCall_def sendDTMF_def releaseCall_def getCurrentCall_def disConnectToCCP_def setTraceFlag_def
  setCodecEnabled_def getCodecEnabled_def setMute_def selectMicroPhone_def selectSpeaker_def setUserData_def
  consultTransferCall_def transferMeeting_def setSipTransportType_def setSrtpEnabled_def returns_def ask_int_def

lemma safe_key_const: "safe (\<lambda>_. True) (key_const v key)"
  by (cases v) (auto split: option.splits)

lemma safe_param_at: "safe (\<lambda>_. True) (param_at doc key)"
  unfolding param_at_def by (rule safe_rbind [OF safe_key_const safe_key_const])

lemma safe_asString: "safe (\<lambda>_. True) (asString v)"
  by (cases v) simp_all

lemma safe_asCString: "safe (\<lambda>_. True) (asCString v)"
  by (cases v) simp_all

lemma safe_asInt: "safe (\<lambda>_. True) (asInt R v)"
  by (cases v) simp_all

lemma safe_str_param: "safe (\<lambda>_. True) (str_param doc key d)"
  unfolding str_param_def by (rule safe_rbind [OF safe_param_at]) (simp add: safe_asString)

lemma safe_int_param: "safe (\<lambda>_. True) (int_param R doc key d)"
  unfolding int_param_def by (rule safe_rbind [OF safe_param_at]) (simp add: safe_asInt)

lemma safe_cstr_param: "safe (\<lambda>_. True) (cstr_param doc key d)"
  unfolding cstr_param_def
  by (rule safe_rbind [OF safe_param_at]) (auto intro: safe_rbind [OF safe_asCString])

lemma safe_Value_cstring: "safe (\<lambda>_. True) (Value_cstring p)"
  by (simp add: Value_cstring_def split: option.splits)

lemma safe_getMemberNames: "safe (\<lambda>_. True) (getMemberNames v)"
  by (cases v) simp_all

lemmas plain_cmds = cmd_initialize_def cmd_unInitialize_def cmd_connectToCCPServer_def cmd_disConnectToCCP_def
  cmd_setTraceFlag_def cmd_acceptCall_def cmd_pauseCall_def cmd_resumeCall_def
  cmd_releaseCall_def cmd_setMute_def cmd_transferCall_def cmd_consultTransferCall_def
  cmd_transferMeeting_def cmd_setUserData_def cmd_setSipTransportType_def cmd_setSrtpEnabled_def
  cmd_setCodecEnabled_def cmd_getCodecEnabled_def cmd_selectMicroPhone_def cmd_selectSpeaker_def
  cmd_setAudioRecordStatus_def cmd_selectAudioRecordDevice_def cmd_selectAudioPlayoutDevice_def
  cmd_setAudioPlayoutVolume_def cmd_enableGlobalAudioInDevice_def

lemmas safe_reads = safe_rbind [OF safe_str_param] safe_rbind [OF safe_int_param]
  safe_rbind [OF safe_cstr_param] safe_rbind [OF safe_param_at]

lemma same_core_plain:
  "safe (\<lambda>(_, w'). core w' = core w) (cmd_initialize w)"
  "safe (\<lambda>(_, w'). core w' = core w) (cmd_unInitialize w)"
  "safe (\<lambda>(_, w'). core w' = core w) (cmd_connectToCCPServer R K this doc w)"
  "safe (\<lambda>(_, w'). core w' = core w) (cmd_disConnectToCCP K w)"
  "safe (\<lambda>(_, w'). core w' = core w) (cmd_setTraceFlag R doc w)"
  "safe (\<lambda>(_, w'). core w' = core w) (cmd_acceptCall K doc w)"
  "safe (\<lambda>(_, w'). core w' = core w) (cmd_pauseCall K doc w)"
  "safe (\<lambda>(_, w'). core w' = core w) (cmd_resumeCall K doc w)"
  "safe (\<lambda>(_, w'). core w' = core w) (cmd_releaseCall R K doc w)"
  "safe (\<lambda>(_, w'). core w' = core w) (cmd_setMute R K doc w)"
  "safe (\<lambda>(_, w'). core w' = core w) (cmd_transferCall R K doc w)"
  "safe (\<lambda>(_, w'). core w' = core w) (cmd_consultTransferCall K doc w)"
  "safe (\<lambda>(_, w'). core w' = core w) (cmd_transferMeeting R K doc w)"
  "safe (\<lambda>(_, w'). core w' = core w) (cmd_setUserData R K doc w)"
  "safe (\<lambda>(_, w'). core w' = core w) (cmd_setSipTransportType R K doc w)"
  "safe (\<lambda>(_, w'). core w' = core w) (cmd_setSrtpEnabled R doc w)"
  "safe (\<lambda>(_, w'). core w' = core w) (cmd_setCodecEnabled R K doc w)"
  "safe (\<lambda>(_, w'). core w' = core w) (cmd_getCodecEnabled R K doc w)"
  "safe (\<lambda>(_, w'). core w' = core w) (cmd_selectMicroPhone R K doc w)"
  "safe (\<lambda>(_, w'). core w' = core w) (cmd_selectSpeaker R K doc w)"
  "safe (\<lambda>(_, w'). core w' = core w) (cmd_setAudioRecordStatus R doc w)"
  "safe (\<lambda>(_, w'). core w' = core w) (cmd_selectAudioRecordDevice R A junk doc w)"
  "safe (\<lambda>(_, w'). core w' = core w) (cmd_selectAudioPlayoutDevice R A junk doc w)"
  "safe (\<lambda>(_, w'). core w' = core w) (cmd_setAudioPlayoutVolume R A doc w)"
  "safe (\<lambda>(_, w'). core w' = core w) (cmd_enableGlobalAudioInDevice R doc w)"
  by (simp only: plain_cmds Let_def, (intro safe_reads)?, simp add: sdk_wrappers Let_def)+

lemma safe_getVersion: "safe (\<lambda>(_, w'). core w' = core w) (getVersion K w)"
  by (simp add: getVersion_def ask_text_def split: prod.splits option.splits)

lemma safe_append_devices: "safe (\<lambda>_. True) (append_devices ds v)"
proof (induction ds arbitrary: v)
  case (Cons d ds)
  have "safe (\<lambda>_. True) (append_value v j)" for j by (cases v) (simp_all add: append_value_def)
  then show ?case using Cons.IH by (simp add: device_json_object) (rule safe_rbind, assumption)
qed simp

lemma core_send_digits: "core (snd (send_digits K callid cs w)) = core w"
  by (induction cs arbitrary: w) (simp_all add: sendDTMF_def ask_int_def Let_def case_prod_beta)

lemma safe_set_members: "safe (\<lambda>_. True) (set_members R A p names r)"
proof (induction names arbitrary: r)
  case (Cons it names)
  have "safe (\<lambda>_. True) (if isInt v then rbind (asInt R v) (\<lambda>i. Inr (SetRegKey_dword A (c_str it) i r))
      else if isString v then rbind (asString v) (\<lambda>s. Inr (SetRegKey_string A (c_str it) (c_str s) r)) else Inr r)" for v
    by (auto intro: safe_rbind [OF safe_asInt] safe_rbind [OF safe_asString])
  then show ?case using Cons.IH by (auto intro!: safe_rbind [OF safe_key_const] intro: safe_rbind)
qed simp

lemma same_core_current:
  "safe (\<lambda>(_, w'). core w' = core w) (cmd_getCurrentCall K w)"
  "safe (\<lambda>(_, w'). core w' = core w) (cmd_makeCall K doc w)"
proof -
  show "safe (\<lambda>(_, w'). core w' = core w) (cmd_getCurrentCall K w)"
    unfolding cmd_getCurrentCall_def getCurrentCall_def ask_text_def
    by (auto split: option.splits intro: safe_rbind [OF safe_Value_cstring])
  show "safe (\<lambda>(_, w'). core w' = core w) (cmd_makeCall K doc w)"
    unfolding cmd_makeCall_def getCurrentCall_def ask_text_def makeCall_def ask_int_def Let_def
    by (intro safe_reads) (auto split: option.splits intro: safe_rbind [OF safe_Value_cstring])
qed

lemma same_core_sendDTMF: "safe (\<lambda>(_, w'). core w' = core w) (cmd_sendDTMF K doc w)"
  unfolding cmd_sendDTMF_def
proof (intro safe_reads)
  fix callid dtmf
  show "safe (\<lambda>(_, w'). core w' = core w) (let (sets, w) = send_digits K (c_str callid) dtmf w in
      Inr (sets @ [(''callid'', Value_string callid), (''dtmf'', Value_string dtmf)], w))"
    by (simp add: case_prod_beta core_send_digits)
qed

lemma same_core_devices:
  "safe (\<lambda>(_, w'). core w' = core w) (cmd_getMicroPhoneInfo K w)"
  "safe (\<lambda>(_, w'). core w' = core w) (cmd_getSpeakerInfo K w)"
  unfolding cmd_getMicroPhoneInfo_def getMicroPhoneInfo_def cmd_getSpeakerInfo_def getSpeakerInfo_def rbind_assoc
  by (rule safe_rbind [OF safe_append_devices], simp)+

lemma same_core_getVersion: "safe (\<lambda>(_, w'). core w' = core w) (cmd_getVersion K w)"
  unfolding cmd_getVersion_def by (rule safe_rbind [OF safe_getVersion]) auto

lemma same_core_setRegConfig: "safe (\<lambda>(_, w'). core w' = core w) (cmd_setRegConfig R A doc w)"
  unfolding cmd_setRegConfig_def
  by (intro safe_rbind [OF safe_key_const] safe_rbind [OF safe_getMemberNames] safe_rbind [OF safe_set_members]) simp

lemmas same_core = same_core_plain same_core_current same_core_sendDTMF same_core_devices
  same_core_getVersion same_core_setRegConfig

lemma same_core_run_cmd: "safe (\<lambda>(_, w'). core w' = core w) (run_cmd R K A junk this cmd doc w)"
  unfolding run_cmd_def run_device_cmd_def by (simp add: same_core)

section \<open>Messages\<close>

lemma key_const_total: "isObject v \<Longrightarrow> \<exists>r. key_const v key = Inr r"
proof (cases v)
  case (objectValue m)
  then show ?thesis by (cases "map_of m (c_str key)") auto
qed (auto simp: isObject_def)

lemma core_heap: "core w' = core w \<Longrightarrow> heap w' = heap w"
  by (simp add: core_def)

text \<open>
  C31: a message that is not JSON, or whose JSON is not an object with \<open>type\<close> equal to \<open>cmd\<close>, is
  ignored: the state is unchanged and nothing is sent.
\<close>

theorem other_messages_ignored:
  assumes "parse R message nullValue = Done ok doc rest"
    and "\<not> ok \<or> \<not> isObject doc \<or> key_const doc ''type'' \<noteq> Inr (stringValue ''cmd'')"
    and "wf_value doc"
  shows "UC_OnMessage R K A junk this message w = Inr w"
proof (cases "ok \<and> isObject doc")
  case True
  then obtain t where t: "key_const doc ''type'' = Inr t" using key_const_total [of doc] by blast
  then have "wf_value t" using assms(3) wf_key_const by blast
  moreover have "t \<noteq> stringValue ''cmd''" using t True assms(2) by auto
  ultimately have "is_cmd doc = Inr False" using t True
    by (cases t) (auto simp: is_cmd_def isString_def)
  then show ?thesis using assms(1) True by (simp add: UC_OnMessage_def)
next
  case False
  then show ?thesis using assms(1) by (auto simp: UC_OnMessage_def is_cmd_def)
qed

text \<open>
  C3: a command is answered exactly once, to its sender: what \<open>OnMessage\<close> does to the
  connections is to append one message to the sender's queue, the JSON text of an object that
  echoes the command; every other queue, the table of connections and the list of open
  clients stay as they are.
\<close>

theorem command_answered_once:
  assumes "parse R message nullValue = Done True doc rest" and "is_cmd doc = Inr True"
    and "heap w this = Some c" and "UC_OnMessage R K A junk this message w = Inr w'"
  shows "\<exists>cmd sets. cmd_of doc = Inr cmd
    \<and> heap w' = (heap w)(this \<mapsto> c\<lparr>m_sendBuf := m_sendBuf c
          @ [replicate LWS_PRE NUL @ FastWriter_write R (reply_object cmd sets)]\<rparr>)
    \<and> WSClientSet w' = WSClientSet w \<and> g_WSClientSet w' = g_WSClientSet w \<and> g_Instance w' = g_Instance w"
proof -
  obtain cmd sets w1 where cmd: "cmd_of doc = Inr cmd" and run: "run_cmd R K A junk this cmd doc w = Inr (sets, w1)"
    and send: "Send this (FastWriter_write R (reply_object cmd sets)) w1 = Inr w'"
    using assms by (auto simp: UC_OnMessage_def rbind_Inr_iff cmd_reply_object)
  have core: "core w1 = core w" using same_core_run_cmd [of w R K A junk this cmd doc] run by simp
  then have "heap w1 = heap w" "WSClientSet w1 = WSClientSet w" "g_WSClientSet w1 = g_WSClientSet w" "g_Instance w1 = g_Instance w"
    by (simp_all add: core_def)
  then show ?thesis using cmd send assms(3)
    by (auto simp: Send_def Let_def lws_do_def put_client_def)
qed

lemma fold_put_printable:
  assumes "list_all (\<lambda>e. printable R (snd e)) sets" and "printable R (objectValue m)"
  shows "printable R (objectValue (fold (\<lambda>e. map_put (c_str (fst e)) (snd e)) sets m))"
  using assms
proof (induction sets arbitrary: m)
  case (Cons e sets)
  have "printable R (objectValue (map_put (c_str (fst e)) (snd e) m))"
    using Cons.prems by (auto intro!: list_all_map_put)
  then show ?case using Cons.IH Cons.prems(1) by simp
qed simp

lemma printable_reply:
  "list_all (\<lambda>e. printable R (snd e)) sets \<Longrightarrow> printable R (reply_object cmd sets)"
  using fold_put_printable [of R sets "[]"]
  by (auto simp: reply_object_def Value_string_def simp del: fold_simps)



lemma sdk_calls_send_digits:
  "sdk_calls (snd (send_digits K callid cs w)) = sdk_calls w @ map (ccp_sendDTMF callid) cs"
  by (induction cs arbitrary: w) (simp_all add: sendDTMF_def ask_int_def Let_def case_prod_beta)

text \<open>
  C32: \<open>sendDTMF\<close> passes every character of \<open>dtmf\<close> to the telephony library, once, in order,
  for the call named, and calls nothing else of it.
\<close>

theorem sendDTMF_in_order:
  assumes "str_param doc ''callid'' [] = Inr callid" and "str_param doc ''dtmf'' [] = Inr dtmf"
  shows "\<exists>sets w'. run_cmd R K A junk this ''sendDTMF'' doc w = Inr (sets, w')
    \<and> sdk_calls w' = sdk_calls w @ map (ccp_sendDTMF (c_str callid)) dtmf"
  using assms sdk_calls_send_digits [of K "c_str callid" dtmf w]
  by (simp add: run_cmd_def cmd_sendDTMF_def case_prod_beta)

text \<open>
  Whatever \<open>enable\<close> says, 0 included, the command \<open>setTraceFlag\<close> turns tracing on.
\<close>

theorem setTraceFlag_always_enables:
  assumes "run_cmd R K A junk this ''setTraceFlag'' doc w = Inr (sets, w')"
  shows "\<exists>file level. sdk_calls w' = sdk_calls w @ [ccp_setTraceFlag True file level]"
  using assms by (auto simp: run_cmd_def cmd_setTraceFlag_def rbind_Inr_iff setTraceFlag_def Let_def)

text \<open>The commands whose handlers read a member of \<open>param\<close> before anything else.\<close>

definition reading_cmds :: "string list" where
  "reading_cmds =
     [''connectToCCPServer'', ''setTraceFlag'', ''makeCall'', ''acceptCall'', ''pauseCall'', ''resumeCall'',
      ''releaseCall'', ''sendDTMF'', ''setMute'', ''transferCall'', ''consultTransferCall'',
      ''transferMeeting'', ''setUserData'', ''setSipTransportType'', ''setSrtpEnabled'', ''setCodecEnabled'',
      ''getCodecEnabled'', ''selectMicroPhone'', ''selectSpeaker'', ''setAudioRecordStatus'',
      ''selectAudioRecordDevice'', ''selectAudioPlayoutDevice'', ''setAudioPlayoutVolume'',
      ''enableGlobalAudioInDevice'', ''setRegConfig'']"

lemma key_const_scalar: "\<not> isObject p \<Longrightarrow> key_const p key = Inl Assertion_Failed"
  by (cases p) (simp_all add: isObject_def)

lemma getMemberNames_scalar: "\<not> isObject p \<Longrightarrow> getMemberNames p = Inl Assertion_Failed"
  by (cases p) (simp_all add: isObject_def)

lemma scalar_params:
  assumes "key_const doc ''param'' = Inr p" and "\<not> isObject p"
  shows "param_at doc key = Inl Assertion_Failed" "str_param doc key d = Inl Assertion_Failed"
    "int_param R doc key i = Inl Assertion_Failed" "cstr_param doc key s = Inl Assertion_Failed"
  using assms by (simp_all add: param_at_def str_param_def int_param_def cstr_param_def key_const_scalar)

text \<open>
  C40: a command whose \<open>param\<close> is neither an object nor null, for example a string, fails an
  assertion in \<open>operator[]\<close> for every command that reads a parameter: with assertions enabled
  any browser page can end the program with one message.
\<close>

theorem scalar_param_asserts:
  assumes "key_const doc ''param'' = Inr p" and "\<not> isObject p" and "cmd \<in> set reading_cmds"
  shows "run_cmd R K A junk this cmd doc w = Inl Assertion_Failed"
proof -
  note fails = scalar_params [OF assms(1,2)]
  have "cmd_setRegConfig R A doc w = Inl Assertion_Failed"
    using assms(1,2) by (simp add: cmd_setRegConfig_def getMemberNames_scalar)
  moreover note plain = plain_cmds cmd_makeCall_def cmd_sendDTMF_def
  ultimately show ?thesis
    using assms(3) unfolding reading_cmds_def list.set
    by (elim insertE emptyE) (simp_all add: run_cmd_def run_device_cmd_def plain fails)
qed

section \<open>Concrete messages\<close>

definition uc_opened :: "unit uc_world" where
  "uc_opened =
     \<lparr>WSClientSet = [(7, 5)],
      heap = (\<lambda>_. None)(5 \<mapsto> (new_client True 7 [])\<lparr>m_state := OPEN\<rparr>), next_obj = 6, lws_calls = [],
      g_Instance = 5, g_pjsipReferce = 1, version_result = ''5.4'', sdk_calls = [],
      accounts = (\<lambda>_. None)(5 \<mapsto> new_account), g_WSClientSet = [5], reg = ()\<rparr>"

text \<open>A registry that takes nothing and holds nothing.\<close>

definition no_reg :: "unit reg_api" where
  "no_reg =
     \<lparr>reg_create = (\<lambda>_. None), set_string_value = (\<lambda>_ _ r. r), set_dword_value = (\<lambda>_ _ r. r),
      reg_open = (\<lambda>_ _. False), query_string = (\<lambda>_ _ b _. (False, b)), query_dword = (\<lambda>_ _ _. None)\<rparr>"

definition message_of :: "int jvalue \<Rightarrow> string" where
  "message_of doc = FastWriter_write whole_crt doc"

definition version_cmd :: "int jvalue" where
  "version_cmd = objectValue [(''cmd'', stringValue ''version''), (''type'', stringValue ''cmd'')]"

lemma parse_version_cmd: "parse whole_crt (message_of version_cmd) nullValue = Done True version_cmd []"
  unfolding message_of_def by (subst written_parses) (simp_all add: version_cmd_def nul_free_def)

theorem other_messages_ignored_witness:
  "UC_OnMessage whole_crt silent_ccp no_reg 0 5 (message_of (booleanValue True)) uc_opened = Inr uc_opened"
proof -
  have "parse whole_crt (message_of (booleanValue True)) nullValue = Done True (booleanValue True) []"
    unfolding message_of_def by (subst written_parses) simp_all
  from other_messages_ignored [OF this] show ?thesis by (simp add: isObject_def)
qed

theorem command_answered_once_witness:
  "\<exists>w'. UC_OnMessage whole_crt silent_ccp no_reg 0 5 (message_of version_cmd) uc_opened = Inr w'
     \<and> (\<exists>c' text. heap w' 5 = Some c' \<and> m_sendBuf c' = [replicate LWS_PRE NUL @ text])"
proof -
  have isc: "is_cmd version_cmd = Inr True" by (simp add: is_cmd_def version_cmd_def isObject_def isString_def)
  have c: "heap uc_opened 5 = Some ((new_client True 7 [])\<lparr>m_state := OPEN\<rparr>)" by (simp add: uc_opened_def)
  have cmd: "cmd_of version_cmd = Inr ''version''" by (simp add: cmd_of_def version_cmd_def isString_def)
  have "run_cmd whole_crt silent_ccp no_reg 0 5 ''version'' version_cmd uc_opened
      = Inr ([(''return'', Value_string ''5.4'')], uc_opened)"
    by (simp add: run_cmd_def run_device_cmd_def cmd_getVersion_def getVersion_def uc_opened_def)
  then have "\<exists>w'. UC_OnMessage whole_crt silent_ccp no_reg 0 5 (message_of version_cmd) uc_opened = Inr w'"
    using isc cmd c by (simp add: UC_OnMessage_def parse_version_cmd cmd_reply_object Send_def Let_def)
  then obtain w' where w': "UC_OnMessage whole_crt silent_ccp no_reg 0 5 (message_of version_cmd) uc_opened = Inr w'" ..
  from command_answered_once [OF parse_version_cmd isc c w'] w' show ?thesis
    by (auto simp: new_client_def)
qed

theorem sendDTMF_in_order_witness:
  "\<exists>sets w'. run_cmd whole_crt silent_ccp no_reg 0 5 ''sendDTMF''
       (objectValue [(''param'', objectValue [(''callid'', stringValue ''c1''), (''dtmf'', stringValue ''42#'')])]) uc_opened
       = Inr (sets, w')
     \<and> sdk_calls w' = map (ccp_sendDTMF ''c1'') ''42#''"
proof -
  let ?doc = "objectValue [(''param'', objectValue [(''callid'', stringValue ''c1''), (''dtmf'', stringValue ''42#'')])] :: int jvalue"
  have "str_param ?doc ''callid'' [] = Inr ''c1''" "str_param ?doc ''dtmf'' [] = Inr ''42#''"
    by (simp_all add: str_param_def param_at_def isString_def)
  from sendDTMF_in_order [OF this, of whole_crt silent_ccp no_reg 0 5 uc_opened]
  show ?thesis by (simp add: uc_opened_def nul_free_def)
qed

theorem setTraceFlag_always_enables_witness:
  "\<exists>sets w' file level. run_cmd whole_crt silent_ccp no_reg 0 5 ''setTraceFlag''
       (objectValue [(''param'', objectValue [(''enable'', intValue 0)])]) uc_opened = Inr (sets, w')
     \<and> sdk_calls w' = [ccp_setTraceFlag True file level]"
proof -
  let ?doc = "objectValue [(''param'', objectValue [(''enable'', intValue 0)])] :: int jvalue"
  obtain sets w' where w': "run_cmd whole_crt silent_ccp no_reg 0 5 ''setTraceFlag'' ?doc uc_opened = Inr (sets, w')"
    by (simp add: run_cmd_def cmd_setTraceFlag_def param_at_def cstr_param_def int_param_def type_preds)
  from setTraceFlag_always_enables [OF w'] w' show ?thesis by (simp add: uc_opened_def)
qed

theorem scalar_param_asserts_witness:
  "run_cmd whole_crt silent_ccp no_reg 0 5 ''acceptCall'' (objectValue [(''param'', stringValue ''x'')]) uc_opened
   = Inl Assertion_Failed"
  using scalar_param_asserts [of "objectValue [(''param'', stringValue ''x'')]" "stringValue ''x''" "''acceptCall''"
      whole_crt silent_ccp no_reg 0 5 uc_opened]
  by (simp add: isObject_def reading_cmds_def)

end
