(* ===== verification/UC_Events.thy ===== *)
theory UC_Events
  imports UC_Messages
begin

text \<open>
  The events of the telephony library. The library calls one of the static functions \<open>son...\<close>
  of \<open>CWinSDKBase\<close> (\<open>src/dev/trunk/UCClient/WinSDKBase.cpp\<close>), which calls the virtual
  method \<open>on...\<close> of \<open>g_Instance\<close> if there is one; the methods are those of \<open>UCClientWSclient\<close>
  (\<open>src/dev/trunk/UCClient/UCClientWebSocket.cpp\<close>), and each of them writes the event as JSON
  and sends it to every client in \<open>g_WSClientSet\<close>. A \<open>const char *\<close> argument is an optional
  string, a buffer with its length a list of bytes.
\<close>

section \<open>Writing an event\<close>

fun put_args :: "'d jvalue \<Rightarrow> (string \<times> 'd jvalue result) list \<Rightarrow> 'd jvalue result" where
  "put_args out [] = Inr out"
| "put_args out (e # es) =
     rbind (snd e) (\<lambda>v. rbind (put_param out (fst e) v) (\<lambda>out. put_args out es))"

definition event_json :: "string \<Rightarrow> (string \<times> 'd jvalue result) list \<Rightarrow> 'd jvalue result" where
  "event_json name args =
     rbind (store_key nullValue ''type'' (Value_string ''event'')) (\<lambda>out.
     rbind (store_key out ''event'' (Value_string name)) (\<lambda>out. put_args out args))"

text \<open>The loop over \<open>g_WSClientSet\<close>.\<close>

fun broadcast :: "nat list \<Rightarrow> string \<Rightarrow> 'r uc_world \<Rightarrow> 'r uc_world result" where
  "broadcast [] strout w = Inr w"
| "broadcast (it # its) strout w = rbind (Send it strout w) (broadcast its strout)"

definition emit ::
    "'d crt \<Rightarrow> string \<Rightarrow> (string \<times> 'd jvalue result) list \<Rightarrow> 'r uc_world \<Rightarrow> 'r uc_world result" where
  "emit R name args w =
     rbind (event_json name args) (\<lambda>out. broadcast (g_WSClientSet w) (FastWriter_write R out) w)"

section \<open>The methods of UCClientWSclient\<close>

definition onLogInfo ::
    "'d crt \<Rightarrow> string option \<Rightarrow> 'r uc_world \<Rightarrow> 'r uc_world result" where
  "onLogInfo R loginfo w =
     emit R ''onLogInfo''
       [(''loginfo'', Value_cstring loginfo)] w"

definition onConnect ::
    "'d crt \<Rightarrow> u32 \<Rightarrow> i32 \<Rightarrow> string option \<Rightarrow> i32 \<Rightarrow> 'r uc_world \<Rightarrow> 'r uc_world result" where
  "onConnect R tcpMsgIdOut reason jsonString autoReconnect w =
     emit R ''onConnect''
       [(''tcpMsgIdOut'', Inr (uintValue tcpMsgIdOut)), (''reason'', Inr (intValue reason)),
        (''jsonString'', Value_cstring jsonString),
        (''autoReconnect'', Inr (intValue autoReconnect))] w"

definition onLogOut ::
    "'d crt \<Rightarrow> u32 \<Rightarrow> i32 \<Rightarrow> 'r uc_world \<Rightarrow> 'r uc_world result" where
  "onLogOut R tcpMsgIdOut reason w =
     emit R ''onLogOut''
       [(''tcpMsgIdOut'', Inr (uintValue tcpMsgIdOut)), (''reason'', Inr (intValue reason))] w"

definition onWillCloseTcp ::
    "'d crt \<Rightarrow> 'r uc_world \<Rightarrow> 'r uc_world result" where
  "onWillCloseTcp R w =
     emit R ''onWillCloseTcp''
       [] w"

definition onIncomingCallReceived ::
    "'d crt \<Rightarrow> i32 \<Rightarrow> i32 \<Rightarrow> string option \<Rightarrow> string option \<Rightarrow> 'r uc_world \<Rightarrow> 'r uc_world result" where
  "onIncomingCallReceived R callType confType callid caller w =
     emit R ''onIncomingCallReceived''
       [(''caller'', Value_cstring caller), (''callid'', Value_cstring callid),
        (''callType'', Inr (intValue callType)), (''confType'', Inr (intValue confType))] w"

definition onCallProceeding ::
    "'d crt \<Rightarrow> string option \<Rightarrow> 'r uc_world \<Rightarrow> 'r uc_world result" where
  "onCallProceeding R callid w =
     emit R ''onCallProceeding''
       [(''callid'', Value_cstring callid)] w"

definition onCallAlerting ::
    "'d crt \<Rightarrow> string option \<Rightarrow> 'r uc_world \<Rightarrow> 'r uc_world result" where
  "onCallAlerting R callid w =
     emit R ''onCallAlerting''
       [(''callid'', Value_cstring callid)] w"

definition onCallAnswered ::
    "'d crt \<Rightarrow> string option \<Rightarrow> 'r uc_world \<Rightarrow> 'r uc_world result" where
  "onCallAnswered R callid w =
     emit R ''onCallAnswered''
       [(''callid'', Value_cstring callid)] w"

definition onCallReleased ::
    "'d crt \<Rightarrow> string option \<Rightarrow> i32 \<Rightarrow> i32 \<Rightarrow> i32 \<Rightarrow> 'r uc_world \<Rightarrow> 'r uc_world result" where
  "onCallReleased R callid reason st CallEvent w =
     emit R ''onCallReleased''
       [(''callid'', Value_cstring callid), (''reason'', Inr (intValue reason)),
        (''state'', Inr (intValue st)), (''CallEvent'', Inr (intValue CallEvent))] w"

definition onDtmfReceived ::
    "'d crt \<Rightarrow> string option \<Rightarrow> char \<Rightarrow> 'r uc_world \<Rightarrow> 'r uc_world result" where
  "onDtmfReceived R callid dtmf w =
     emit R ''onDtmfReceived''
       [(''callid'', Value_cstring callid), (''dtmf'', Inr (Value_string [dtmf]))] w"

definition onCallPaused ::
    "'d crt \<Rightarrow> string option \<Rightarrow> i32 \<Rightarrow> i32 \<Rightarrow> 'r uc_world \<Rightarrow> 'r uc_world result" where
  "onCallPaused R callid typ reason w =
     emit R ''onCallPaused''
       [(''callid'', Value_cstring callid), (''type'', Inr (intValue typ)),
        (''reason'', Inr (intValue reason))] w"

definition onCallResumed ::
    "'d crt \<Rightarrow> string option \<Rightarrow> i32 \<Rightarrow> i32 \<Rightarrow> 'r uc_world \<Rightarrow> 'r uc_world result" where
  "onCallResumed R callid typ reason w =
     emit R ''onCallResumed''
       [(''callid'', Value_cstring callid), (''type'', Inr (intValue typ)),
        (''reason'', Inr (intValue reason))] w"

definition onSwitchCallMediaTypeRequest ::
    "'d crt \<Rightarrow> string option \<Rightarrow> i32 \<Rightarrow> i32 \<Rightarrow> 'r uc_world \<Rightarrow> 'r uc_world result" where
  "onSwitchCallMediaTypeRequest R callid video reason w =
     emit R ''onSwitchCallMediaTypeRequest''
       [(''callid'', Value_cstring callid), (''video'', Inr (intValue video)),
        (''reason'', Inr (intValue reason))] w"

definition onSwitchCallMediaTypeResponse ::
    "'d crt \<Rightarrow> string option \<Rightarrow> i32 \<Rightarrow> i32 \<Rightarrow> 'r uc_world \<Rightarrow> 'r uc_world result" where
  "onSwitchCallMediaTypeResponse R callid video reason w =
     emit R ''onSwitchCallMediaTypeResponse''
       [(''callid'', Value_cstring callid), (''video'', Inr (intValue video)),
        (''reason'', Inr (intValue reason))] w"

definition onRemoteVideoRatio ::
    "'d crt \<Rightarrow> string option \<Rightarrow> i32 \<Rightarrow> i32 \<Rightarrow> i32 \<Rightarrow> string option \<Rightarrow> string option \<Rightarrow> i32 \<Rightarrow> 'r uc_world \<Rightarrow> 'r uc_world result" where
  "onRemoteVideoRatio R CallidOrConferenceId width height typ member ip prt w =
     emit R ''onRemoteVideoRatio''
       [(''callid'', Value_cstring CallidOrConferenceId), (''width'', Inr (intValue width)),
        (''height'', Inr (intValue height)), (''type'', Inr (intValue typ)),
        (''member'', Value_cstring member), (''ip'', Value_cstring ip),
        (''port'', Inr (intValue prt))] w"

definition onAudioData ::
    "'d crt \<Rightarrow> string option \<Rightarrow> byte list \<Rightarrow> bool \<Rightarrow> 'r uc_world \<Rightarrow> 'r uc_world result" where
  "onAudioData R callid inData snd_flag w =
     emit R ''onAudioData''
       [(''callid'', Value_cstring callid), (''inData'', Inr (Value_string inData)),
        (''send'', Inr (booleanValue snd_flag))] w"

definition onVideoData ::
    "'d crt \<Rightarrow> string option \<Rightarrow> byte list \<Rightarrow> bool \<Rightarrow> 'r uc_world \<Rightarrow> 'r uc_world result" where
  "onVideoData R callid inData snd_flag w =
     emit R ''onVideoData''
       [(''callid'', Value_cstring callid), (''inData'', Inr (Value_string inData)),
        (''send'', Inr (booleanValue snd_flag))] w"

definition onAudioCaptureData ::
    "'d crt \<Rightarrow> string option \<Rightarrow> byte list \<Rightarrow> i32 \<Rightarrow> i32 \<Rightarrow> i32 \<Rightarrow> 'r uc_world \<Rightarrow> 'r uc_world result" where
  "onAudioCaptureData R callid data samples sampleRate numChannels w =
     emit R ''onAudioCaptureData''
       [(''callid'', Value_cstring callid), (''data'', Inr (Value_string data)),
        (''samples'', Inr (intValue samples)), (''sampleRate'', Inr (intValue sampleRate)),
        (''numChannels'', Inr (intValue numChannels))] w"

definition onVideoCaptureData ::
    "'d crt \<Rightarrow> string option \<Rightarrow> byte list \<Rightarrow> i32 \<Rightarrow> i32 \<Rightarrow> i32 \<Rightarrow> i32 \<Rightarrow> 'r uc_world \<Rightarrow> 'r uc_world result" where
  "onVideoCaptureData R callid data width height y_stride uv_stride w =
     emit R ''onVideoCaptureData''
       [(''callid'', Value_cstring callid), (''data'', Inr (Value_string data)),
        (''width'', Inr (intValue width)), (''height'', Inr (intValue height)),
        (''y_stride'', Inr (intValue y_stride)), (''uv_stride'', Inr (intValue uv_stride))] w"

definition onMediaDestinationChanged ::
    "'d crt \<Rightarrow> string option \<Rightarrow> i32 \<Rightarrow> string option \<Rightarrow> i32 \<Rightarrow> i32 \<Rightarrow> 'r uc_world \<Rightarrow> 'r uc_world result" where
  "onMediaDestinationChanged R callid mediaType ip prt typ w =
     emit R ''onMediaDestinationChanged''
       [(''callid'', Value_cstring callid), (''mediaType'', Inr (intValue mediaType)),
        (''ip'', Value_cstring ip), (''port'', Inr (intValue prt)),
        (''type'', Inr (intValue typ))] w"

definition onNoCamera ::
    "'d crt \<Rightarrow> string option \<Rightarrow> 'r uc_world \<Rightarrow> 'r uc_world result" where
  "onNoCamera R callid w =
     emit R ''onNoCamera''
       [(''callid'', Value_cstring callid)] w"

definition onNoMicRecording ::
    "'d crt \<Rightarrow> string option \<Rightarrow> i32 \<Rightarrow> 'r uc_world \<Rightarrow> 'r uc_world result" where
  "onNoMicRecording R callid reason w =
     emit R ''onNoMicRecording''
       [(''callid'', Value_cstring callid), (''reason'', Inr (intValue reason))] w"

definition onCallTransfered ::
    "'d crt \<Rightarrow> string option \<Rightarrow> string option \<Rightarrow> i32 \<Rightarrow> 'r uc_world \<Rightarrow> 'r uc_world result" where
  "onCallTransfered R callid destionation reason w =
     emit R ''onCallTransfered''
       [(''callid'', Value_cstring callid), (''destionation'', Value_cstring destionation),
        (''reason'', Inr (intValue reason))] w"

definition onMeetingTransfered ::
    "'d crt \<Rightarrow> string option \<Rightarrow> i32 \<Rightarrow> 'r uc_world \<Rightarrow> 'r uc_world result" where
  "onMeetingTransfered R callid reason w =
     emit R ''onMeetingTransfered''
       [(''callid'', Value_cstring callid), (''reason'', Inr (intValue reason))] w"

definition onAudioEnergyFeedback ::
    "'d crt \<Rightarrow> i32 \<Rightarrow> 'r uc_world \<Rightarrow> 'r uc_world result" where
  "onAudioEnergyFeedback R averageEnergy w =
     emit R ''onAudioEnergyFeedback''
       [(''averageEnergy'', Inr (intValue averageEnergy))] w"

definition onSipConnect ::
    "'d crt \<Rightarrow> i32 \<Rightarrow> 'r uc_world \<Rightarrow> 'r uc_world result" where
  "onSipConnect R reason w =
     emit R ''onSipConnect''
       [(''reason'', Inr (intValue reason))] w"

definition onSipLogOut ::
    "'d crt \<Rightarrow> i32 \<Rightarrow> 'r uc_world \<Rightarrow> 'r uc_world result" where
  "onSipLogOut R reason w =
     emit R ''onSipLogOut''
       [(''reason'', Inr (intValue reason))] w"

section \<open>The callbacks of CWinSDKBase\<close>

text \<open>\<open>if (g_Instance) g_Instance->on...\<close>: a virtual call needs the object to be there.\<close>

definition to_instance ::
    "('r uc_world \<Rightarrow> 'r uc_world result) \<Rightarrow> 'r uc_world \<Rightarrow> 'r uc_world result" where
  "to_instance f w =
     (if g_Instance w \<noteq> 0 then rbind (client_at (g_Instance w) w) (\<lambda>_. f w) else Inr w)"

text \<open>\<open>sonLogInfo\<close> has its body commented out.\<close>

definition sonLogInfo :: "string option \<Rightarrow> 'r uc_world \<Rightarrow> 'r uc_world result" where
  "sonLogInfo loginfo w = Inr w"

definition sonConnect ::
    "'d crt \<Rightarrow> u32 \<Rightarrow> i32 \<Rightarrow> string option \<Rightarrow> i32 \<Rightarrow> 'r uc_world \<Rightarrow> 'r uc_world result" where
  "sonConnect R tcpMsgIdOut reason jsonString autoReconnect w =
     to_instance (onConnect R tcpMsgIdOut reason jsonString autoReconnect) w"

definition sonLogOut ::
    "'d crt \<Rightarrow> u32 \<Rightarrow> i32 \<Rightarrow> 'r uc_world \<Rightarrow> 'r uc_world result" where
  "sonLogOut R tcpMsgIdOut reason w =
     to_instance (onLogOut R tcpMsgIdOut reason) w"

definition sonWillCloseTcp ::
    "'d crt \<Rightarrow> 'r uc_world \<Rightarrow> 'r uc_world result" where
  "sonWillCloseTcp R w =
     to_instance (onWillCloseTcp R) w"

definition sonIncomingCallReceived ::
    "'d crt \<Rightarrow> i32 \<Rightarrow> i32 \<Rightarrow> string option \<Rightarrow> string option \<Rightarrow> 'r uc_world \<Rightarrow> 'r uc_world result" where
  "sonIncomingCallReceived R callType confType callid caller w =
     to_instance (onIncomingCallReceived R callType confType callid caller) (ask (ccp_alertingCall callid) w)"

definition sonCallProceeding ::
    "'d crt \<Rightarrow> string option \<Rightarrow> 'r uc_world \<Rightarrow> 'r uc_world result" where
  "sonCallProceeding R callid w =
     to_instance (onCallProceeding R callid) w"

definition sonCallAlerting ::
    "'d crt \<Rightarrow> string option \<Rightarrow> 'r uc_world \<Rightarrow> 'r uc_world result" where
  "sonCallAlerting R callid w =
     to_instance (onCallAlerting R callid) w"

definition sonCallAnswered ::
    "'d crt \<Rightarrow> string option \<Rightarrow> 'r uc_world \<Rightarrow> 'r uc_world result" where
  "sonCallAnswered R callid w =
     to_instance (onCallAnswered R callid) w"

definition sonCallReleased ::
    "'d crt \<Rightarrow> string option \<Rightarrow> i32 \<Rightarrow> i32 \<Rightarrow> i32 \<Rightarrow> 'r uc_world \<Rightarrow> 'r uc_world result" where
  "sonCallReleased R callid reason st CallEvent w =
     to_instance (onCallReleased R callid reason st CallEvent) w"

definition sonDtmfReceived ::
    "'d crt \<Rightarrow> string option \<Rightarrow> char \<Rightarrow> 'r uc_world \<Rightarrow> 'r uc_world result" where
  "sonDtmfReceived R callid dtmf w =
     to_instance (onDtmfReceived R callid dtmf) w"

definition sonCallPaused ::
    "'d crt \<Rightarrow> string option \<Rightarrow> i32 \<Rightarrow> i32 \<Rightarrow> 'r uc_world \<Rightarrow> 'r uc_world result" where
  "sonCallPaused R callid typ reason w =
     to_instance (onCallPaused R callid typ reason) w"

definition sonCallResumed ::
    "'d crt \<Rightarrow> string option \<Rightarrow> i32 \<Rightarrow> i32 \<Rightarrow> 'r uc_world \<Rightarrow> 'r uc_world result" where
  "sonCallResumed R callid typ reason w =
     to_instance (onCallResumed R callid typ reason) w"

text \<open>
  \<open>sonSwitchCallMediaTypeRequest\<close> calls itself instead of the virtual method. \<open>None\<close> is not
  returning.
\<close>

partial_function (option) sonSwitchCallMediaTypeRequest ::
    "string option \<Rightarrow> i32 \<Rightarrow> i32 \<Rightarrow> 'r uc_world \<Rightarrow> 'r uc_world option" where
  "sonSwitchCallMediaTypeRequest callid video reason w =
     (if g_Instance w \<noteq> 0 then sonSwitchCallMediaTypeRequest callid video reason w else Some w)"

definition sonSwitchCallMediaTypeResponse ::
    "'d crt \<Rightarrow> string option \<Rightarrow> i32 \<Rightarrow> i32 \<Rightarrow> 'r uc_world \<Rightarrow> 'r uc_world result" where
  "sonSwitchCallMediaTypeResponse R callid video reason w =
     to_instance (onSwitchCallMediaTypeResponse R callid video reason) w"

definition sonRemoteVideoRatio ::
    "'d crt \<Rightarrow> string option \<Rightarrow> i32 \<Rightarrow> i32 \<Rightarrow> i32 \<Rightarrow> string option \<Rightarrow> string option \<Rightarrow> i32 \<Rightarrow> 'r uc_world \<Rightarrow> 'r uc_world result" where
  "sonRemoteVideoRatio R CallidOrConferenceId width height typ member ip prt w =
     to_instance (onRemoteVideoRatio R CallidOrConferenceId width height typ member ip prt) w"

definition sonAudioData ::
    "'d crt \<Rightarrow> string option \<Rightarrow> byte list \<Rightarrow> bool \<Rightarrow> 'r uc_world \<Rightarrow> 'r uc_world result" where
  "sonAudioData R callid inData snd_flag w =
     to_instance (onAudioData R callid inData snd_flag) w"

definition sonVideoData ::
    "'d crt \<Rightarrow> string option \<Rightarrow> byte list \<Rightarrow> bool \<Rightarrow> 'r uc_world \<Rightarrow> 'r uc_world result" where
  "sonVideoData R callid inData snd_flag w =
     to_instance (onVideoData R callid inData snd_flag) w"

definition sonAudioCaptureData ::
    "'d crt \<Rightarrow> string option \<Rightarrow> byte list \<Rightarrow> i32 \<Rightarrow> i32 \<Rightarrow> i32 \<Rightarrow> 'r uc_world \<Rightarrow> 'r uc_world result" where
  "sonAudioCaptureData R callid data samples sampleRate numChannels w =
     to_instance (onAudioCaptureData R callid data samples sampleRate numChannels) w"

definition sonVideoCaptureData ::
    "'d crt \<Rightarrow> string option \<Rightarrow> byte list \<Rightarrow> i32 \<Rightarrow> i32 \<Rightarrow> i32 \<Rightarrow> i32 \<Rightarrow> 'r uc_world \<Rightarrow> 'r uc_world result" where
  "sonVideoCaptureData R callid data width height y_stride uv_stride w =
     to_instance (onVideoCaptureData R callid data width height y_stride uv_stride) w"

definition sonMediaDestinationChanged ::
    "'d crt \<Rightarrow> string option \<Rightarrow> i32 \<Rightarrow> string option \<Rightarrow> i32 \<Rightarrow> i32 \<Rightarrow> 'r uc_world \<Rightarrow> 'r uc_world result" where
  "sonMediaDestinationChanged R callid mediaType ip prt typ w =
     to_instance (onMediaDestinationChanged R callid mediaType ip prt typ) w"

definition sonNoCamera ::
    "'d crt \<Rightarrow> string option \<Rightarrow> 'r uc_world \<Rightarrow> 'r uc_world result" where
  "sonNoCamera R callid w =
     to_instance (onNoCamera R callid) w"

definition sonNoMicRecording ::
    "'d crt \<Rightarrow> string option \<Rightarrow> i32 \<Rightarrow> 'r uc_world \<Rightarrow> 'r uc_world result" where
  "sonNoMicRecording R callid reason w =
     to_instance (onNoMicRecording R callid reason) w"

definition sonCallTransfered ::
    "'d crt \<Rightarrow> string option \<Rightarrow> string option \<Rightarrow> i32 \<Rightarrow> 'r uc_world \<Rightarrow> 'r uc_world result" where
  "sonCallTransfered R callid destionation reason w =
     to_instance (onCallTransfered R callid destionation reason) w"

definition sonMeetingTransfered ::
    "'d crt \<Rightarrow> string option \<Rightarrow> i32 \<Rightarrow> 'r uc_world \<Rightarrow> 'r uc_world result" where
  "sonMeetingTransfered R callid reason w =
     to_instance (onMeetingTransfered R callid reason) w"

definition sonAudioEnergyFeedback ::
    "'d crt \<Rightarrow> i32 \<Rightarrow> 'r uc_world \<Rightarrow> 'r uc_world result" where
  "sonAudioEnergyFeedback R averageEnergy w =
     to_instance (onAudioEnergyFeedback R averageEnergy) w"

definition sonSipConnect ::
    "'d crt \<Rightarrow> i32 \<Rightarrow> 'r uc_world \<Rightarrow> 'r uc_world result" where
  "sonSipConnect R reason w =
     to_instance (onSipConnect R reason) w"

definition sonSipLogOut ::
    "'d crt \<Rightarrow> i32 \<Rightarrow> 'r uc_world \<Rightarrow> 'r uc_world result" where
  "sonSipLogOut R reason w =
     to_instance (onSipLogOut R reason) w"

text \<open>The table \<open>CB\<close> that \<open>initialize\<close> hands to the library: which function serves which event.\<close>

datatype sdk_event =
    LogInfo_ev "string option"
  | Connect_ev u32 i32 "string option" i32
  | LogOut_ev u32 i32
  | WillCloseTcp_ev
  | IncomingCallReceived_ev i32 i32 "string option" "string option"
  | CallProceeding_ev "string option"
  | CallAlerting_ev "string option"
  | CallAnswered_ev "string option"
  | CallReleased_ev "string option" i32 i32 i32
  | DtmfReceived_ev "string option" char
  | CallPaused_ev "string option" i32 i32
  | CallResumed_ev "string option" i32 i32
  | SwitchCallMediaTypeRequest_ev "string option" i32 i32
  | SwitchCallMediaTypeResponse_ev "string option" i32 i32
  | RemoteVideoRatio_ev "string option" i32 i32 i32 "string option" "string option" i32
  | AudioData_ev "string option" "byte list" bool
  | VideoData_ev "string option" "byte list" bool
  | AudioCaptureData_ev "string option" "byte list" i32 i32 i32
  | VideoCaptureData_ev "string option" "byte list" i32 i32 i32 i32
  | MediaDestinationChanged_ev "string option" i32 "string option" i32 i32
  | NoCamera_ev "string option"
  | NoMicRecording_ev "string option" i32
  | CallTransfered_ev "string option" "string option" i32
  | MeetingTransfered_ev "string option" i32
  | AudioEnergyFeedback_ev i32
  | SipConnect_ev i32
  | SipLogOut_ev i32

fun CB_dispatch :: "'d crt \<Rightarrow> sdk_event \<Rightarrow> 'r uc_world \<Rightarrow> 'r uc_world result option" where
  "CB_dispatch R (LogInfo_ev loginfo) w =
     Some (sonLogInfo loginfo w)"
| "CB_dispatch R (Connect_ev tcpMsgIdOut reason jsonString autoReconnect) w =
     Some (sonConnect R tcpMsgIdOut reason jsonString autoReconnect w)"
| "CB_dispatch R (LogOut_ev tcpMsgIdOut reason) w =
     Some (sonLogOut R tcpMsgIdOut reason w)"
| "CB_dispatch R WillCloseTcp_ev w =
     Some (sonWillCloseTcp R w)"
| "CB_dispatch R (IncomingCallReceived_ev callType confType callid caller) w =
     Some (sonIncomingCallReceived R callType confType callid caller w)"
| "CB_dispatch R (CallProceeding_ev callid) w =
     Some (sonCallProceeding R callid w)"
| "CB_dispatch R (CallAlerting_ev callid) w =
     Some (sonCallAlerting R callid w)"
| "CB_dispatch R (CallAnswered_ev callid) w =
     Some (sonCallAnswered R callid w)"
| "CB_dispatch R (CallReleased_ev callid reason st CallEvent) w =
     Some (sonCallReleased R callid reason st CallEvent w)"
| "CB_dispatch R (DtmfReceived_ev callid dtmf) w =
     Some (sonDtmfReceived R callid dtmf w)"
| "CB_dispatch R (CallPaused_ev callid typ reason) w =
     Some (sonCallPaused R callid typ reason w)"
| "CB_dispatch R (CallResumed_ev callid typ reason) w =
     Some (sonCallResumed R callid typ reason w)"
| "CB_dispatch R (SwitchCallMediaTypeRequest_ev callid video reason) w =
     map_option Inr (sonSwitchCallMediaTypeRequest callid video reason w)"
| "CB_dispatch R (SwitchCallMediaTypeResponse_ev callid video reason) w =
     Some (sonSwitchCallMediaTypeResponse R callid video reason w)"
| "CB_dispatch R (RemoteVideoRatio_ev CallidOrConferenceId width height typ member ip prt) w =
     Some (sonRemoteVideoRatio R CallidOrConferenceId width height typ member ip prt w)"
| "CB_dispatch R (AudioData_ev callid inData snd_flag) w =
     Some (sonAudioData R callid inData snd_flag w)"
| "CB_dispatch R (VideoData_ev callid inData snd_flag) w =
     Some (sonVideoData R callid inData snd_flag w)"
| "CB_dispatch R (AudioCaptureData_ev callid data samples sampleRate numChannels) w =
     Some (sonAudioCaptureData R callid data samples sampleRate numChannels w)"
| "CB_dispatch R (VideoCaptureData_ev callid data width height y_stride uv_stride) w =
     Some (sonVideoCaptureData R callid data width height y_stride uv_stride w)"
| "CB_dispatch R (MediaDestinationChanged_ev callid mediaType ip prt typ) w =
     Some (sonMediaDestinationChanged R callid mediaType ip prt typ w)"
| "CB_dispatch R (NoCamera_ev callid) w =
     Some (sonNoCamera R callid w)"
| "CB_dispatch R (NoMicRecording_ev callid reason) w =
     Some (sonNoMicRecording R callid reason w)"
| "CB_dispatch R (CallTransfered_ev callid destionation reason) w =
     Some (sonCallTransfered R callid destionation reason w)"
| "CB_dispatch R (MeetingTransfered_ev callid reason) w =
     Some (sonMeetingTransfered R callid reason w)"
| "CB_dispatch R (AudioEnergyFeedback_ev averageEnergy) w =
     Some (sonAudioEnergyFeedback R averageEnergy w)"
| "CB_dispatch R (SipConnect_ev reason) w =
     Some (sonSipConnect R reason w)"
| "CB_dispatch R (SipLogOut_ev reason) w =
     Some (sonSipLogOut R reason w)"

end
