(* ===== verification/Main_Wnd.thy ===== *)
theory Main_Wnd
  imports UC_Events
begin

text \<open>
  The main window (\<open>src/dev/trunk/UCClient/MainWnd.cpp\<close>), as far as it is not user interface:
  the life of the telephony library and of the web socket thread, the event it sends when the
  Windows session changes, the search for a running process, and the placement of a window
  in the corner of the desktop.
\<close>

section \<open>Start and stop\<close>

text \<open>The port is a \<open>uint16_t\<close>: the number in the registry is cut. \<open>m_wsserver\<close> is whether the thread object is joinable; \<open>ws_threads\<close> counts its starts.\<close>

record CMainWnd =
  m_wsPort :: "16 word"
  m_bWSRunning :: bool
  m_wsserver :: bool
  ws_threads :: nat

definition CMainWnd_ctor :: "ccp \<Rightarrow> 'r reg_api \<Rightarrow> 'r uc_world \<Rightarrow> CMainWnd \<times> 'r uc_world" where
  "CMainWnd_ctor K A w =
     (\<lparr>m_wsPort = ucast (ReadRegKeyDWORD A ''WebSocketPort'' 19998 (reg w)), m_bWSRunning = False,
       m_wsserver = False, ws_threads = 0\<rparr>,
      snd (initialize K w))"

definition CMainWnd_dtor :: "ccp \<Rightarrow> 'r uc_world \<Rightarrow> 'r uc_world" where
  "CMainWnd_dtor K w = snd (unInitialize K w)"

definition WSStart :: "CMainWnd \<Rightarrow> CMainWnd" where
  "WSStart m =
     (let m = m\<lparr>m_bWSRunning := True\<rparr>
      in if \<not> m_wsserver m then m\<lparr>m_wsserver := True, ws_threads := ws_threads m + 1\<rparr> else m)"

text \<open>\<open>join\<close> waits for \<open>listenWS\<close>, which returns once \<open>m_bWSRunning\<close> is false.\<close>

definition WSStop :: "CMainWnd \<Rightarrow> CMainWnd" where
  "WSStop m =
     (let m = m\<lparr>m_bWSRunning := False\<rparr>
      in if m_wsserver m then m\<lparr>m_wsserver := False\<rparr> else m)"

section \<open>The web socket thread\<close>

text \<open>What libwebsockets reports: connection, reason, whether there is user data, and the data.\<close>

type_synonym lws_report = "nat \<times> reason \<times> bool \<times> string option"

text \<open>\<open>Loop\<close> waits in \<open>lws_service\<close>, which calls \<open>callback_lws\<close> for each report in turn.\<close>

fun Loop ::
    "lws_lib \<Rightarrow> 'z ws_world_scheme vtable \<Rightarrow> lws_report list \<Rightarrow> 'z ws_world_scheme \<Rightarrow> 'z ws_world_scheme result" where
  "Loop L V [] w = Inr w"
| "Loop L V ((k, reason, user, inp) # rs) w =
     rbind (callback_lws L V k reason user inp w) (\<lambda>(r, w). Loop L V rs w)"

text \<open>\<open>while (m_bWSRunning) wsserver.Loop(1000)\<close>: the flag as each test finds it, and the reports that follow.\<close>

fun listen_rounds ::
    "lws_lib \<Rightarrow> 'z ws_world_scheme vtable \<Rightarrow> (bool \<times> lws_report list) list \<Rightarrow> 'z ws_world_scheme
     \<Rightarrow> 'z ws_world_scheme result" where
  "listen_rounds L V [] w = Inr w"
| "listen_rounds L V (r # rs) w =
     (if fst r then rbind (Loop L V (snd r) w) (listen_rounds L V rs) else Inr w)"

text \<open>Destroying the context closes the connections that are left: the last reports.\<close>

definition listenWS ::
    "lws_lib \<Rightarrow> 'z ws_world_scheme vtable \<Rightarrow> (int \<Rightarrow> nat) \<Rightarrow> (bool \<times> lws_report list) list \<Rightarrow> lws_report list
     \<Rightarrow> CMainWnd \<Rightarrow> 'z ws_world_scheme \<Rightarrow> 'z ws_world_scheme result" where
  "listenWS L V lws_create_context rounds closing m w =
     (let (_, wsserver) = InitInstance lws_create_context \<lparr>m_port = uint (m_wsPort m), m_Context = 0\<rparr>
      in rbind (listen_rounds L V rounds w) (\<lambda>w.
           case UnInitInstance wsserver of
             (_, None, _) \<Rightarrow> Inr w
           | (_, Some ctx, _) \<Rightarrow> Loop L V closing w))"

section \<open>Session changes\<close>

definition session_states :: "(u32 \<times> string) list" where
  "session_states =
     [(1, ''CONSOLE_CONNECT''), (2, ''CONSOLE_DISCONNECT''), (3, ''REMOTE_CONNECT''),
      (4, ''REMOTE_DISCONNECT''), (5, ''SESSION_LOGON''), (6, ''SESSION_LOGOFF''), (7, ''SESSION_LOCK''),
      (8, ''SESSION_UNLOCK''), (9, ''SESSION_REMOTE_CONTROL'')]"

definition OnSessionChange :: "'d crt \<Rightarrow> u32 \<Rightarrow> 'r uc_world \<Rightarrow> 'r uc_world result" where
  "OnSessionChange R nSessionState w =
     emit R ''OnWTSSessionChange''
       (case map_of session_states nSessionState of
          None \<Rightarrow> []
        | Some s \<Rightarrow> [(''sessionState'', Value_cstring (Some s))]) w"

section \<open>Looking for a process\<close>

text \<open>\<open>strstr\<close> as a test: the name occurs in the text.\<close>

fun occurs_in :: "string \<Rightarrow> string \<Rightarrow> bool" where
  "occurs_in name [] = (name = [])"
| "occurs_in name (c # s) = (take (length name) (c # s) = name \<or> occurs_in name s)"

fun find_process :: "string \<Rightarrow> string list \<Rightarrow> bool" where
  "find_process pName [] = False"
| "find_process pName (szExeFile # rest) = (if occurs_in pName szExeFile then True else find_process pName rest)"

text \<open>The snapshot of the processes may fail, and may be empty.\<close>

definition IsProcessRun :: "string \<Rightarrow> string list option \<Rightarrow> bool" where
  "IsProcessRun pName snapshot =
     (case snapshot of None \<Rightarrow> False | Some procs \<Rightarrow> if procs = [] then False else find_process pName procs)"

section \<open>The corner of the desktop\<close>

record RECT =
  left :: int
  top :: int
  right :: int
  bottom :: int

text \<open>The upper left corner for a window \<open>rcDlg\<close> over its owner, if it has one.\<close>

definition MoveToDesktopRightBottom :: "RECT \<Rightarrow> RECT \<Rightarrow> RECT option \<Rightarrow> int \<times> int" where
  "MoveToDesktopRightBottom rcDlg rcArea owner =
     (let rcCenter = (case owner of None \<Rightarrow> rcArea | Some r \<Rightarrow> r);
          DlgWidth = right rcDlg - left rcDlg;
          DlgHeight = bottom rcDlg - top rcDlg;
          xLeft = right rcCenter - DlgWidth;
          yTop = bottom rcCenter - DlgHeight;
          xLeft = (if xLeft < left rcArea then left rcArea
                   else if xLeft + DlgWidth > right rcArea then right rcArea - DlgWidth else xLeft);
          yTop = (if yTop < top rcArea then top rcArea
                  else if yTop + DlgHeight > bottom rcArea then bottom rcArea - DlgHeight else yTop)
      in (xLeft, yTop))"

section \<open>Properties\<close>

text \<open>How often the thread is started in a row of starts (\<open>True\<close>) and stops.\<close>

fun rises :: "bool \<Rightarrow> bool list \<Rightarrow> nat" where
  "rises b [] = 0"
| "rises b (x # xs) = (if x \<and> \<not> b then 1 else 0) + rises x xs"

text \<open>
  C33: whatever the order of starts and stops, the thread is there exactly when the last of them
  was a start, \<open>m_bWSRunning\<close> says so, and a second start in a row starts no second thread.
\<close>

theorem one_ws_thread:
  assumes "m_bWSRunning m = m_wsserver m"
    and "m' = fold (\<lambda>b. if b then WSStart else WSStop) ops m"
  shows "m_wsserver m' = last (m_wsserver m # ops) \<and> m_bWSRunning m' = m_wsserver m'
    \<and> ws_threads m' = ws_threads m + rises (m_wsserver m) ops"
  using assms
proof (induction ops arbitrary: m)
  case (Cons b ops)
  let ?m = "if b then WSStart m else WSStop m"
  have m: "m_wsserver ?m = b" "m_bWSRunning ?m = b"
    "ws_threads ?m = ws_threads m + (if b \<and> \<not> m_wsserver m then 1 else 0)"
    by (simp_all add: WSStart_def WSStop_def Let_def)
  have "m_wsserver m' = last (m_wsserver ?m # ops) \<and> m_bWSRunning m' = m_wsserver m'
      \<and> ws_threads m' = ws_threads ?m + rises (m_wsserver ?m) ops"
    by (rule Cons.IH) (use m Cons.prems(2) in auto)
  with m show ?case by simp
qed simp

theorem one_ws_thread_witness:
  "ws_threads (fold (\<lambda>b. if b then WSStart else WSStop) [True, True, False, True]
      \<lparr>m_wsPort = 19998, m_bWSRunning = False, m_wsserver = False, ws_threads = 0\<rparr>) = 2"
  using one_ws_thread [OF _ refl, of "\<lparr>m_wsPort = 19998, m_bWSRunning = False, m_wsserver = False, ws_threads = 0\<rparr>"
      "[True, True, False, True]"]
  by simp

lemma occurs_in_iff: "occurs_in name s \<longleftrightarrow> (\<exists>pre post. s = pre @ name @ post)"
proof (induction s)
  case (Cons c s)
  have "(\<exists>pre post. c # s = pre @ name @ post) \<longleftrightarrow>
      (\<exists>post. c # s = name @ post) \<or> (\<exists>pre post. s = pre @ name @ post)"
    by (metis append_Cons append_Nil list.sel(3) neq_Nil_conv)
  moreover have "take (length name) (c # s) = name \<longleftrightarrow> (\<exists>post. c # s = name @ post)"
    by (metis append_eq_conv_conj append_take_drop_id)
  ultimately show ?case using Cons.IH by simp
qed simp

lemma find_process_iff: "find_process p procs \<longleftrightarrow> (\<exists>e \<in> set procs. occurs_in p e)"
  by (induction procs) auto

text \<open>
  \<open>IsProcessRun\<close> tells whether some process of the snapshot has the name in its file name.
\<close>

theorem IsProcessRun_iff:
  "IsProcessRun p (Some procs) \<longleftrightarrow> (\<exists>pre post. pre @ p @ post \<in> set procs)"
  by (auto simp: IsProcessRun_def find_process_iff occurs_in_iff)

text \<open>
  A window no larger than the work area ends up inside it, against the lower right corner
  of its owner as far as that leaves it inside; without an owner, one that is wider starts at
  the left edge.
\<close>

theorem window_inside_area:
  assumes "left rcDlg \<le> right rcDlg" and "top rcDlg \<le> bottom rcDlg"
    and "left rcArea \<le> right rcArea" and "top rcArea \<le> bottom rcArea"
    and "MoveToDesktopRightBottom rcDlg rcArea owner = (x, y)"
  shows "(right rcDlg - left rcDlg \<le> right rcArea - left rcArea \<longrightarrow>
            left rcArea \<le> x \<and> x + (right rcDlg - left rcDlg) \<le> right rcArea)
    \<and> (bottom rcDlg - top rcDlg \<le> bottom rcArea - top rcArea \<longrightarrow>
            top rcArea \<le> y \<and> y + (bottom rcDlg - top rcDlg) \<le> bottom rcArea)
    \<and> (right rcArea - left rcArea < right rcDlg - left rcDlg \<and> owner = None \<longrightarrow> x = left rcArea)"
  using assms by (cases owner) (auto simp: MoveToDesktopRightBottom_def Let_def split: if_splits)

theorem window_inside_area_witness:
  "MoveToDesktopRightBottom \<lparr>left = 0, top = 0, right = 300, bottom = 200\<rparr>
      \<lparr>left = 0, top = 0, right = 1920, bottom = 1040\<rparr> (Some \<lparr>left = 1800, top = 900, right = 2000, bottom = 1200\<rparr>)
     = (1620, 840)
   \<and> (1620 :: int) + (300 - 0) \<le> 1920"
proof -
  let ?d = "\<lparr>left = 0, top = 0, right = 300, bottom = 200\<rparr>"
    and ?a = "\<lparr>left = 0, top = 0, right = 1920, bottom = 1040\<rparr>"
    and ?o = "Some \<lparr>left = 1800, top = 900, right = 2000, bottom = 1200\<rparr>"
  have "MoveToDesktopRightBottom ?d ?a ?o = (1620, 840)" by (simp add: MoveToDesktopRightBottom_def)
  then show ?thesis using window_inside_area [of ?d ?a ?o 1620 840] by simp
qed

end
