(* ===== verification/UC_System.thy ===== *)
theory UC_System
  imports Main_Wnd Send_Queue
begin

text \<open>
  The program as a whole: whatever libwebsockets, the telephony library and Windows report,
  in any order, no operation uses a deleted object. Then what the events of the telephony
  library and of the session do to the queues of the connected browsers.
\<close>

section \<open>The invariant\<close>

text \<open>The objects in \<open>g_WSClientSet\<close> and behind \<open>g_Instance\<close> are live clients of the program's class.\<close>

definition uc_live :: "'r uc_world \<Rightarrow> nat \<Rightarrow> bool" where
  "uc_live w ob \<longleftrightarrow> (\<exists>c. heap w ob = Some c \<and> derived c)"

definition uc_inv :: "'r uc_world \<Rightarrow> bool" where
  "uc_inv w \<longleftrightarrow>
     ws_inv w \<and> 0 < next_obj w \<and> (\<forall>ob \<in> set (g_WSClientSet w). uc_live w ob)
     \<and> (g_Instance w \<noteq> 0 \<longrightarrow> uc_live w (g_Instance w))"

lemma uc_inv_same_core: "core w' = core w \<Longrightarrow> uc_inv w \<Longrightarrow> uc_inv w'"
  unfolding uc_inv_def ws_inv_def uc_live_def core_def by simp

lemma uc_fields [simp]:
  "g_WSClientSet (lws_do x w) = g_WSClientSet w" "g_Instance (lws_do x w) = g_Instance w"
  "g_WSClientSet (put_client ob c w) = g_WSClientSet w" "g_Instance (put_client ob c w) = g_Instance w"
  "g_WSClientSet (unregister k w) = g_WSClientSet w" "g_Instance (unregister k w) = g_Instance w"
  "g_WSClientSet (register k ob w) = g_WSClientSet w" "g_Instance (register k ob w) = g_Instance w"
  by (simp_all add: lws_do_def put_client_def unregister_def register_def)

lemma uc_inv_lws_do: "uc_inv w \<Longrightarrow> uc_inv (lws_do x w)"
  by (simp add: uc_inv_def ws_inv_lws_do uc_live_def)

lemma uc_inv_unregister: "uc_inv w \<Longrightarrow> uc_inv (unregister k w)"
  by (simp add: uc_inv_def ws_inv_unregister uc_live_def)

lemma uc_inv_put:
  assumes "uc_inv w" and "heap w ob = Some c" and "client_ok c'" and "ws_wsi c' = ws_wsi c" and "derived c' = derived c"
  shows "uc_inv (put_client ob c' w)"
proof -
  have live: "uc_live w x \<Longrightarrow> uc_live (put_client ob c' w) x" for x
    using assms(2,5) by (auto simp: uc_live_def)
  have "ws_inv w" using assms(1) by (simp add: uc_inv_def)
  then have "ws_inv (put_client ob c' w)" using assms(2-4) by (rule ws_inv_put)
  with assms(1) live show ?thesis by (auto simp: uc_inv_def)
qed

lemma uc_inv_Send:
  assumes "uc_inv w" and "uc_live w ob"
  shows "safe (\<lambda>w'. uc_inv w' \<and> g_WSClientSet w' = g_WSClientSet w \<and> (\<forall>x. uc_live w x \<longrightarrow> uc_live w' x)) (Send ob d w)"
proof -
  obtain c where c: "heap w ob = Some c" "derived c" using assms(2) by (auto simp: uc_live_def)
  let ?c = "c\<lparr>m_sendBuf := m_sendBuf c @ [replicate LWS_PRE NUL @ d]\<rparr>"
  have "client_ok c" using assms(1) c(1) by (auto simp: uc_inv_def intro: ws_inv_client_ok)
  then have "uc_inv (put_client ob ?c w)"
    using uc_inv_put [OF assms(1) c(1), of ?c] client_ok_send by simp
  moreover have "uc_live w x \<Longrightarrow> uc_live (put_client ob ?c w) x" for x
    using c by (auto simp: uc_live_def)
  ultimately show ?thesis
    using c by (auto simp: Send_def Let_def uc_inv_lws_do) (auto simp: uc_live_def)
qed

text \<open>Destroying an object takes it out of the heap and leaves the other objects there.\<close>

lemma destroy_others:
  assumes "destroy_WebSocketClient ob w = Inr w'"
  shows "next_obj w' = next_obj w" and "x \<noteq> ob \<Longrightarrow> heap w' x = heap w x"
    and "g_WSClientSet w' = g_WSClientSet w" and "g_Instance w' = g_Instance w"
  using assms
  by (auto simp: destroy_WebSocketClient_def Close_def rbind_Inr_iff client_at_Inr unregister_def lws_do_def
      put_client_def split: if_splits)

lemma uc_inv_destroy:
  assumes ws: "ws_inv w" and c: "heap w ob = Some c" and nx: "0 < next_obj w"
    and live: "\<And>x. x \<in> set (g_WSClientSet w) \<Longrightarrow> x \<noteq> ob \<and> uc_live w x"
    and inst: "g_Instance w \<noteq> 0 \<Longrightarrow> g_Instance w \<noteq> ob \<and> uc_live w (g_Instance w)"
  shows "safe uc_inv (destroy_WebSocketClient ob w)"
proof (rule safe_weaken [OF ws_inv_destroy [OF ws c]])
  fix w'
  assume res: "destroy_WebSocketClient ob w = Inr w'" and w': "ws_inv w' \<and> heap w' ob = None"
  have "uc_live w x \<Longrightarrow> x \<noteq> ob \<Longrightarrow> uc_live w' x" for x
    using destroy_others(2) [OF res] by (auto simp: uc_live_def)
  then show "uc_inv w'" using w' destroy_others [OF res] nx live inst by (auto simp: uc_inv_def)
qed

lemma uc_inv_dtor:
  assumes "uc_inv w" and "heap w ob = Some c"
  shows "safe uc_inv (UCClientWSclient_dtor ob w)"
proof -
  let ?w = "CWinSDKBase_dtor ob (w\<lparr>g_WSClientSet := removeAll ob (g_WSClientSet w)\<rparr>)"
  have "ws_inv ?w" "heap ?w = heap w" "next_obj ?w = next_obj w" "g_Instance ?w = 0"
    "g_WSClientSet ?w = removeAll ob (g_WSClientSet w)"
    using assms(1) by (simp_all add: CWinSDKBase_dtor_def uc_inv_def ws_inv_def)
  moreover from this have "uc_live w x \<Longrightarrow> uc_live ?w x" for x by (simp add: uc_live_def)
  ultimately show ?thesis
    unfolding UCClientWSclient_dtor_def using assms by (intro uc_inv_destroy [of _ _ c]) (auto simp: uc_inv_def)
qed

lemma uc_inv_ctor:
  assumes "uc_inv w"
  shows "safe uc_inv (UCClientWSclient_ctor K k w)"
proof -
  let ?w = "snd (WebSocketClient_wsi True k w)" and ?ob = "next_obj w"
  have "ws_inv w" using assms by (simp add: uc_inv_def)
  then have ws: "ws_inv ?w" by (rule ws_inv_accept)
  have heap: "heap ?w = (heap w)(?ob \<mapsto> new_client True k [])"
    by (simp add: WebSocketClient_wsi_def register_def)
  then have live: "uc_live w x \<Longrightarrow> uc_live ?w x" "uc_live ?w ?ob" for x
    by (auto simp: uc_live_def new_client_def)
  have nx: "0 < next_obj ?w" and set: "g_WSClientSet ?w = g_WSClientSet w"
    by (simp_all add: WebSocketClient_wsi_def register_def)
  have "safe uc_inv (CWinSDKBase_ctor K ?ob ?w)"
    unfolding CWinSDKBase_ctor_def
  proof (rule safe_rbind [OF safe_getVersion], clarify)
    fix v w'
    assume core: "core w' = core ?w"
    then have same: "heap w' = heap ?w" "g_WSClientSet w' = g_WSClientSet w" "next_obj w' = next_obj ?w"
      using set by (simp_all add: core_def)
    moreover have "ws_inv (w'\<lparr>accounts := a, g_Instance := i\<rparr>)" for a i
      using ws core by (simp add: ws_inv_def core_def)
    ultimately show "safe uc_inv (Inr (w'\<lparr>accounts := (accounts w')(?ob \<mapsto> new_account), g_Instance := ?ob\<rparr>))"
      using assms live nx by (auto simp: uc_inv_def uc_live_def)
  qed
  then show ?thesis by (simp add: UCClientWSclient_ctor_def WebSocketClient_wsi_def)
qed

text \<open>A message: whatever the command, the answer goes to the client it came from, which is live.\<close>

lemma safe_parse: "parse R message nullValue = Fault e \<Longrightarrow> e \<noteq> Dangling_Pointer"
  using parse_fills [of nullValue R message] unfolding parse_def
  by (cases "readValue R (2 * length message + 1) nullValue message") (auto simp del: readValue.simps)

lemma uc_inv_OnMessage:
  assumes "uc_inv w" and "uc_live w ob"
  shows "safe uc_inv (UC_OnMessage R K A junk ob message w)"
proof (cases "parse R message nullValue")
  case (Done ok doc rest)
  have "safe (\<lambda>_. True) (is_cmd doc)"
    using safe_key_const [of doc "''type''"] safe_asString
    by (auto simp: is_cmd_def intro!: safe_rbind [OF safe_key_const] safe_rbind [OF safe_asString])
  moreover have "safe (\<lambda>_. True) (cmd_of doc)"
    by (auto simp: cmd_of_def safe_asString intro!: safe_rbind [OF safe_key_const])
  moreover have "safe uc_inv (rbind (run_cmd R K A junk ob cmd doc w)
      (\<lambda>(sets, w). rbind (cmd_reply cmd sets) (\<lambda>out. Send ob (FastWriter_write R out) w)))" for cmd
  proof (rule safe_rbind [OF same_core_run_cmd], clarify)
    fix sets w'
    assume core: "core w' = core w"
    with assms have "uc_inv w'" "uc_live w' ob"
      by (auto simp: uc_live_def core_def intro: uc_inv_same_core [OF core])
    then show "safe uc_inv (rbind (cmd_reply cmd sets) (\<lambda>out. Send ob (FastWriter_write R out) w'))"
      by (auto simp: cmd_reply_object intro: safe_weaken [OF uc_inv_Send])
  qed
  ultimately show ?thesis
    using assms(1) Done by (cases "is_cmd doc"; cases "cmd_of doc") (auto simp: UC_OnMessage_def)
next
  case (Fault e)
  then show ?thesis using safe_parse by (auto simp: UC_OnMessage_def)
next
  case Diverge
  then show ?thesis using assms by (simp add: UC_OnMessage_def)
qed

lemma uc_inv_ws: "uc_inv w \<Longrightarrow> ws_inv w"
  by (simp add: uc_inv_def)

lemma uc_OnSend_OnError: "UC_OnSend ob w = Inr w" "UC_OnError ob e w = Inr w"
  by (simp_all add: UC_OnSend_def UC_OnError_def)

interpretation uc_ws: ws_system "uc_vtable R K A junk" uc_inv
proof unfold_locales
  fix w :: "'b uc_world" and ob c
  assume inv: "uc_inv w" and c: "heap w ob = Some c"
  show "\<not> derived c \<Longrightarrow> safe uc_inv (destroy_WebSocketClient ob w)"
    using inv c by (intro uc_inv_destroy [of w ob c]) (auto simp: uc_inv_def uc_live_def)
  assume d: "derived c"
  then have "uc_live w ob" using c by (auto simp: uc_live_def)
  with inv show "safe uc_inv (OnOpen_of (uc_vtable R K A junk) ob w)"
    by (auto simp: uc_vtable_def UC_OnOpen_def uc_inv_def uc_live_def ws_inv_def)
  show "safe uc_inv (OnMessage_of (uc_vtable R K A junk) ob m w)" for m
    using inv \<open>uc_live w ob\<close> by (simp add: uc_vtable_def uc_inv_OnMessage)
qed (auto simp: uc_vtable_def uc_inv_lws_do uc_inv_put uc_inv_unregister uc_OnSend_OnError UC_OnClose_def
    UCClientWSServer_OnAccept_def uc_inv_ctor uc_inv_dtor uc_inv_ws)

lemma uc_quiet: "quiet_OnSend (uc_vtable R K A junk)"
  by (simp add: quiet_OnSend_def uc_vtable_def uc_OnSend_OnError)

section \<open>Broadcasts\<close>

text \<open>A client with a message appended to its queue \<open>n\<close> times.\<close>

definition enqueued :: "nat \<Rightarrow> string \<Rightarrow> WebSocketClient \<Rightarrow> WebSocketClient" where
  "enqueued n d c = c\<lparr>m_sendBuf := m_sendBuf c @ replicate n (replicate LWS_PRE NUL @ d)\<rparr>"

lemma enqueued_simps: "enqueued 0 d = id" "enqueued n d (enqueued 1 d c) = enqueued (Suc n) d c"
  by (simp_all add: enqueued_def fun_eq_iff)

lemma Send_enqueues:
  "heap w ob = Some c \<Longrightarrow> \<exists>w'. Send ob d w = Inr w' \<and> heap w' = (heap w)(ob \<mapsto> enqueued 1 d c)
     \<and> WSClientSet w' = WSClientSet w \<and> g_WSClientSet w' = g_WSClientSet w \<and> g_Instance w' = g_Instance w"
  by (auto simp: Send_def Let_def enqueued_def lws_do_def put_client_def)

lemma broadcast_enqueues:
  assumes "\<forall>ob \<in> set its. heap w ob \<noteq> None"
  shows "\<exists>w'. broadcast its d w = Inr w'
    \<and> heap w' = (\<lambda>ob. map_option (enqueued (count_list its ob) d) (heap w ob))
    \<and> WSClientSet w' = WSClientSet w \<and> g_WSClientSet w' = g_WSClientSet w \<and> g_Instance w' = g_Instance w"
  using assms
proof (induction its arbitrary: w)
  case Nil
  show ?case by (simp add: enqueued_simps option.map_ident)
next
  case (Cons it its)
  obtain c where c: "heap w it = Some c" using Cons.prems by auto
  obtain w1 where w1: "Send it d w = Inr w1" "heap w1 = (heap w)(it \<mapsto> enqueued 1 d c)"
    "WSClientSet w1 = WSClientSet w" "g_WSClientSet w1 = g_WSClientSet w" "g_Instance w1 = g_Instance w"
    using Send_enqueues [where d = d, OF c] by blast
  have "\<forall>ob \<in> set its. heap w1 ob \<noteq> None" using Cons.prems w1(2) by simp
  from Cons.IH [OF this] obtain w' where w': "broadcast its d w1 = Inr w'"
    "heap w' = (\<lambda>ob. map_option (enqueued (count_list its ob) d) (heap w1 ob))"
    "WSClientSet w' = WSClientSet w1" "g_WSClientSet w' = g_WSClientSet w1" "g_Instance w' = g_Instance w1"
    by blast
  have "heap w' = (\<lambda>ob. map_option (enqueued (count_list (it # its) ob) d) (heap w ob))"
    using c enqueued_simps(2) [of "count_list its it" d c] by (auto simp: w'(2) w1(2))
  with w1 w' show ?case by simp
qed

lemma uc_inv_broadcast:
  assumes "uc_inv w" and "\<forall>ob \<in> set its. uc_live w ob"
  shows "safe uc_inv (broadcast its d w)"
  using assms
proof (induction its arbitrary: w)
  case (Cons it its)
  then show ?case
    using uc_inv_Send [of w it d] by (auto intro!: safe_rbind [OF uc_inv_Send])
qed simp

section \<open>Events\<close>

text \<open>The JSON of an event whose arguments are all there.\<close>

definition event_object :: "string \<Rightarrow> (string \<times> 'd jvalue) list \<Rightarrow> 'd jvalue" where
  "event_object name sets =
     objectValue ([(''event'', Value_string name)]
       @ (if sets = [] then [] else [(''param'', objectValue (fold (\<lambda>e. map_put (c_str (fst e)) (snd e)) sets []))])
       @ [(''type'', stringValue ''event'')])"

text \<open>The arguments in order, or the fault of the first that is a null pointer.\<close>

fun args_values :: "(string \<times> 'd jvalue result) list \<Rightarrow> (string \<times> 'd jvalue) list result" where
  "args_values [] = Inr []"
| "args_values (e # es) = rbind (snd e) (\<lambda>v. rbind (args_values es) (\<lambda>vs. Inr ((fst e, v) # vs)))"

lemma put_args_object:
  "put_args (objectValue [(''event'', c), (''param'', objectValue p), (''type'', t)]) args
   = rbind (args_values args) (\<lambda>vs. Inr (objectValue [(''event'', c),
       (''param'', objectValue (fold (\<lambda>e. map_put (c_str (fst e)) (snd e)) vs p)), (''type'', t)]))"
proof (induction args arbitrary: p)
  case (Cons e es)
  show ?case
    by (cases "snd e"; cases "args_values es") (simp_all add: Cons.IH put_param_def)
qed simp

lemma event_json_object: "event_json name args = rbind (args_values args) (\<lambda>vs. Inr (event_object name vs))"
proof (cases args)
  case (Cons e es)
  then show ?thesis
    by (cases "snd e"; cases "args_values es")
      (simp_all add: event_json_def event_object_def put_param_def put_args_object Value_string_def)
qed (simp add: event_json_def event_object_def Value_string_def)

text \<open>What an event is called in the JSON, and the strings the library passes by pointer.\<close>

fun ev_name :: "sdk_event \<Rightarrow> string" where
  "ev_name (LogInfo_ev _) = ''onLogInfo''"
| "ev_name (Connect_ev _ _ _ _) = ''onConnect''"
| "ev_name (LogOut_ev _ _) = ''onLogOut''"
| "ev_name WillCloseTcp_ev = ''onWillCloseTcp''"
| "ev_name (IncomingCallReceived_ev _ _ _ _) = ''onIncomingCallReceived''"
| "ev_name (CallProceeding_ev _) = ''onCallProceeding''"
| "ev_name (CallAlerting_ev _) = ''onCallAlerting''"
| "ev_name (CallAnswered_ev _) = ''onCallAnswered''"
| "ev_name (CallReleased_ev _ _ _ _) = ''onCallReleased''"
| "ev_name (DtmfReceived_ev _ _) = ''onDtmfReceived''"
| "ev_name (CallPaused_ev _ _ _) = ''onCallPaused''"
| "ev_name (CallResumed_ev _ _ _) = ''onCallResumed''"
| "ev_name (SwitchCallMediaTypeRequest_ev _ _ _) = ''onSwitchCallMediaTypeRequest''"
| "ev_name (SwitchCallMediaTypeResponse_ev _ _ _) = ''onSwitchCallMediaTypeResponse''"
| "ev_name (RemoteVideoRatio_ev _ _ _ _ _ _ _) = ''onRemoteVideoRatio''"
| "ev_name (AudioData_ev _ _ _) = ''onAudioData''"
| "ev_name (VideoData_ev _ _ _) = ''onVideoData''"
| "ev_name (AudioCaptureData_ev _ _ _ _ _) = ''onAudioCaptureData''"
| "ev_name (VideoCaptureData_ev _ _ _ _ _ _) = ''onVideoCaptureData''"
| "ev_name (MediaDestinationChanged_ev _ _ _ _ _) = ''onMediaDestinationChanged''"
| "ev_name (NoCamera_ev _) = ''onNoCamera''"
| "ev_name (NoMicRecording_ev _ _) = ''onNoMicRecording''"
| "ev_name (CallTransfered_ev _ _ _) = ''onCallTransfered''"
| "ev_name (MeetingTransfered_ev _ _) = ''onMeetingTransfered''"
| "ev_name (AudioEnergyFeedback_ev _) = ''onAudioEnergyFeedback''"
| "ev_name (SipConnect_ev _) = ''onSipConnect''"
| "ev_name (SipLogOut_ev _) = ''onSipLogOut''"

fun ev_cstrings :: "sdk_event \<Rightarrow> string option list" where
  "ev_cstrings (LogInfo_ev s0) = [s0]"
| "ev_cstrings (Connect_ev _ _ s2 _) = [s2]"
| "ev_cstrings (LogOut_ev _ _) = []"
| "ev_cstrings WillCloseTcp_ev = []"
| "ev_cstrings (IncomingCallReceived_ev _ _ s2 s3) = [s2, s3]"
| "ev_cstrings (CallProceeding_ev s0) = [s0]"
| "ev_cstrings (CallAlerting_ev s0) = [s0]"
| "ev_cstrings (CallAnswered_ev s0) = [s0]"
| "ev_cstrings (CallReleased_ev s0 _ _ _) = [s0]"
| "ev_cstrings (DtmfReceived_ev s0 _) = [s0]"
| "ev_cstrings (CallPaused_ev s0 _ _) = [s0]"
| "ev_cstrings (CallResumed_ev s0 _ _) = [s0]"
| "ev_cstrings (SwitchCallMediaTypeRequest_ev s0 _ _) = [s0]"
| "ev_cstrings (SwitchCallMediaTypeResponse_ev s0 _ _) = [s0]"
| "ev_cstrings (RemoteVideoRatio_ev s0 _ _ _ s4 s5 _) = [s0, s4, s5]"
| "ev_cstrings (AudioData_ev s0 _ _) = [s0]"
| "ev_cstrings (VideoData_ev s0 _ _) = [s0]"
| "ev_cstrings (AudioCaptureData_ev s0 _ _ _ _) = [s0]"
| "ev_cstrings (VideoCaptureData_ev s0 _ _ _ _ _) = [s0]"
| "ev_cstrings (MediaDestinationChanged_ev s0 _ s2 _ _) = [s0, s2]"
| "ev_cstrings (NoCamera_ev s0) = [s0]"
| "ev_cstrings (NoMicRecording_ev s0 _) = [s0]"
| "ev_cstrings (CallTransfered_ev s0 s1 _) = [s0, s1]"
| "ev_cstrings (MeetingTransfered_ev s0 _) = [s0]"
| "ev_cstrings (AudioEnergyFeedback_ev _) = []"
| "ev_cstrings (SipConnect_ev _) = []"
| "ev_cstrings (SipLogOut_ev _) = []"

text \<open>All events but two go on to the clients.\<close>

definition forwarded :: "sdk_event \<Rightarrow> bool" where
  "forwarded ev \<longleftrightarrow> (case ev of LogInfo_ev _ \<Rightarrow> False | SwitchCallMediaTypeRequest_ev _ _ _ \<Rightarrow> False | _ \<Rightarrow> True)"

definition args_ok :: "string option list \<Rightarrow> (string \<times> 'd jvalue result) list \<Rightarrow> bool" where
  "args_ok ps args \<longleftrightarrow>
     (if None \<in> set ps then args_values args = Inl Null_Pointer else \<exists>vs. args_values args = Inr vs)"

definition emits ::
    "'d crt \<Rightarrow> string \<Rightarrow> string option list \<Rightarrow> 'r uc_world result option \<Rightarrow> 'r uc_world \<Rightarrow> bool" where
  "emits R name ps r w \<longleftrightarrow>
     (\<exists>args w0. r = Some (to_instance (emit R name args) w0) \<and> core w0 = core w \<and> args_ok ps args)"

lemma emitsI:
  "core w0 = core w \<Longrightarrow> args_ok ps args \<Longrightarrow> emits R name ps (Some (to_instance (\<lambda>w. emit R name args w) w0)) w"
  by (auto simp: emits_def)

lemma Value_cstring_simps:
  "Value_cstring None = Inl Null_Pointer" "Value_cstring (Some s) = Inr (stringValue (c_str s))"
  by (simp_all add: Value_cstring_def)

lemmas on_events = onConnect_def [abs_def] onLogOut_def [abs_def] onWillCloseTcp_def [abs_def]
  onIncomingCallReceived_def [abs_def] onCallProceeding_def [abs_def] onCallAlerting_def [abs_def]
  onCallAnswered_def [abs_def] onCallReleased_def [abs_def] onDtmfReceived_def [abs_def]
  onCallPaused_def [abs_def] onCallResumed_def [abs_def] onSwitchCallMediaTypeResponse_def [abs_def]
  onRemoteVideoRatio_def [abs_def] onAudioData_def [abs_def] onVideoData_def [abs_def]
  onAudioCaptureData_def [abs_def] onVideoCaptureData_def [abs_def] onMediaDestinationChanged_def
  [abs_def] onNoCamera_def [abs_def] onNoMicRecording_def [abs_def] onCallTransfered_def [abs_def]
  onMeetingTransfered_def [abs_def] onAudioEnergyFeedback_def [abs_def] onSipConnect_def [abs_def]
  onSipLogOut_def [abs_def]

lemmas son_events = sonLogInfo_def sonConnect_def sonLogOut_def sonWillCloseTcp_def sonIncomingCallReceived_def
  sonCallProceeding_def sonCallAlerting_def sonCallAnswered_def sonCallReleased_def
  sonDtmfReceived_def sonCallPaused_def sonCallResumed_def sonSwitchCallMediaTypeResponse_def
  sonRemoteVideoRatio_def sonAudioData_def sonVideoData_def sonAudioCaptureData_def
  sonVideoCaptureData_def sonMediaDestinationChanged_def sonNoCamera_def sonNoMicRecording_def
  sonCallTransfered_def sonMeetingTransfered_def sonAudioEnergyFeedback_def sonSipConnect_def
  sonSipLogOut_def

lemma CB_dispatch_emits: "forwarded ev \<Longrightarrow> emits R (ev_name ev) (ev_cstrings ev) (CB_dispatch R ev w) w"
  by (cases ev)
    (auto simp: forwarded_def son_events on_events args_ok_def Value_cstring_def split: option.splits
      intro!: emitsI)

lemma emit_values: "emit R name args w =
    rbind (args_values args) (\<lambda>vs. broadcast (g_WSClientSet w) (FastWriter_write R (event_object name vs)) w)"
  by (cases "args_values args") (simp_all add: emit_def event_json_object)

lemma args_ok_cases: "args_ok ps args \<Longrightarrow> args_values args = Inl Null_Pointer \<or> (\<exists>vs. args_values args = Inr vs)"
  by (auto simp: args_ok_def split: if_splits)

lemma uc_inv_emit: "uc_inv w \<Longrightarrow> args_ok ps args \<Longrightarrow> safe uc_inv (emit R name args w)"
  using args_ok_cases [of ps args] by (auto simp: emit_values uc_inv_def intro!: uc_inv_broadcast)

lemma uc_inv_to_instance: "uc_inv w \<Longrightarrow> safe uc_inv (f w) \<Longrightarrow> safe uc_inv (to_instance f w)"
  by (auto simp: to_instance_def uc_inv_def uc_live_def client_at_def)

lemma switch_request_spins:
  "sonSwitchCallMediaTypeRequest callid video reason w = Some w' \<Longrightarrow> g_Instance w = 0 \<and> w' = w"
  by (erule sonSwitchCallMediaTypeRequest.raw_induct [rotated]) (auto split: if_splits)

lemma uc_inv_CB_dispatch:
  assumes "uc_inv w"
  shows "case CB_dispatch R ev w of None \<Rightarrow> True | Some r \<Rightarrow> safe uc_inv r"
proof (cases "forwarded ev")
  case True
  then obtain args w0 where "CB_dispatch R ev w = Some (to_instance (emit R (ev_name ev) args) w0)"
    and core: "core w0 = core w" and "args_ok (ev_cstrings ev) args"
    using CB_dispatch_emits [of ev R w] by (auto simp: emits_def)
  moreover from core assms have "uc_inv w0" by (rule uc_inv_same_core)
  ultimately show ?thesis by (simp add: uc_inv_to_instance uc_inv_emit)
next
  case False
  then show ?thesis using assms
    by (auto simp: forwarded_def sonLogInfo_def dest: switch_request_spins split: sdk_event.splits option.splits)
qed

lemma uc_inv_OnSessionChange: "uc_inv w \<Longrightarrow> safe uc_inv (OnSessionChange R st w)"
  unfolding OnSessionChange_def
  by (rule uc_inv_emit [of _ "[]"]) (auto simp: args_ok_def Value_cstring_def split: option.splits)

section \<open>The whole program\<close>

text \<open>
  What can happen next: libwebsockets reports something about a connection (\<open>junk\<close> is what an
  uninitialised local variable holds), the telephony library an event, Windows a change of the
  session; the main window starts and ends.
\<close>

inductive uc_step :: "'d crt \<Rightarrow> ccp \<Rightarrow> 'r reg_api \<Rightarrow> 'r uc_world \<Rightarrow> 'r uc_world \<Rightarrow> bool"
  for R K A where
  step_callback: "k \<noteq> 0 \<Longrightarrow> callback_lws L (uc_vtable R K A junk) k reason user inp w = Inr (r, w')
    \<Longrightarrow> uc_step R K A w w'"
| step_event: "CB_dispatch R ev w = Some (Inr w') \<Longrightarrow> uc_step R K A w w'"
| step_session: "OnSessionChange R st w = Inr w' \<Longrightarrow> uc_step R K A w w'"
| step_window: "uc_step R K A w (snd (CMainWnd_ctor K A w))"
| step_window_end: "uc_step R K A w (CMainWnd_dtor K w)"

definition uc_init :: "'r uc_world \<Rightarrow> bool" where
  "uc_init w \<longleftrightarrow> WSClientSet w = [] \<and> heap w = (\<lambda>_. None) \<and> 0 < next_obj w
     \<and> g_Instance w = 0 \<and> g_WSClientSet w = []"

lemma uc_inv_init: "uc_init w \<Longrightarrow> uc_inv w"
  by (simp add: uc_init_def uc_inv_def ws_inv_def)

lemma uc_inv_window:
  "uc_inv w \<Longrightarrow> uc_inv (snd (CMainWnd_ctor K A w))" "uc_inv w \<Longrightarrow> uc_inv (CMainWnd_dtor K w)"
  by (simp_all add: CMainWnd_ctor_def CMainWnd_dtor_def initialize_def unInitialize_def Let_def case_prod_beta
      uc_inv_def ws_inv_def uc_live_def ask_int_def ask_def)

interpretation uc_system: inductive_invariant uc_init "uc_step R K A" uc_inv
proof unfold_locales
  fix w w' :: "'a uc_world"
  assume inv: "uc_inv w" and "uc_step R K A w w'"
  from this(2) show "uc_inv w'"
  proof cases
    case (step_callback k L junk reason user inp r)
    then show ?thesis using uc_ws.callback_safe [OF inv, of k L R K A junk reason user inp] by simp
  next
    case (step_event ev)
    then show ?thesis using uc_inv_CB_dispatch [OF inv, of R ev] by simp
  next
    case (step_session st)
    then show ?thesis using uc_inv_OnSessionChange [OF inv, of R st] by simp
  qed (simp_all add: inv uc_inv_window)
qed (rule uc_inv_init)

text \<open>
  C1: no use after free, whatever happens. In every state the program reaches, from its start and
  through any sequence of reports of libwebsockets, events of the telephony library and
  changes of the session, none of the three entry points uses a deleted client object.
\<close>

theorem no_use_after_free:
  assumes "reach uc_init (uc_step R K A) w" and "k \<noteq> 0"
  shows "callback_lws L (uc_vtable R K A junk) k reason user inp w \<noteq> Inl Dangling_Pointer
    \<and> CB_dispatch R ev w \<noteq> Some (Inl Dangling_Pointer)
    \<and> OnSessionChange R st w \<noteq> Inl Dangling_Pointer"
proof -
  have inv: "uc_inv w" using assms(1) by (rule uc_system.reach_inv)
  show ?thesis
    using uc_ws.callback_safe [OF inv assms(2), of L R K A junk reason user inp]
      uc_inv_CB_dispatch [OF inv, of R ev] uc_inv_OnSessionChange [OF inv, of R st]
    by (auto split: option.splits dest: safe_not_dangling)
qed

lemma uc_inv_Loop:
  "uc_inv w \<Longrightarrow> \<forall>r \<in> set rs. fst r \<noteq> 0 \<Longrightarrow> safe uc_inv (Loop L (uc_vtable R K A junk) rs w)"
proof (induction rs arbitrary: w)
  case (Cons r rs)
  obtain k reason user inp where r: "r = (k, reason, user, inp)" by (cases r) auto
  then have "safe (\<lambda>(_, w'). uc_inv w') (callback_lws L (uc_vtable R K A junk) k reason user inp w)"
    using Cons.prems by (intro uc_ws.callback_safe) auto
  then show ?case unfolding r Loop.simps by (rule safe_rbind) (use Cons in auto)
qed simp

lemma uc_inv_rounds:
  "uc_inv w \<Longrightarrow> \<forall>rs \<in> set rounds. \<forall>r \<in> set (snd rs). fst r \<noteq> 0 \<Longrightarrow>
     safe uc_inv (listen_rounds L (uc_vtable R K A junk) rounds w)"
proof (induction rounds arbitrary: w)
  case (Cons r rounds)
  then show ?case by (auto intro!: safe_rbind [OF uc_inv_Loop])
qed simp




text \<open>
  C30: when any client object is destroyed \<open>g_Instance\<close> becomes null, so from then on no event
  reaches the clients that are still open, until the next connection is accepted.
\<close>

theorem events_lost_after_close:
  assumes "UC_OnClose this e w = Inr w'" and "forwarded ev"
  shows "\<exists>w''. CB_dispatch R ev w' = Some (Inr w'') \<and> core w'' = core w'"
proof -
  have "g_Instance w' = 0"
    using assms(1) destroy_others(4) [of this "CWinSDKBase_dtor this (w\<lparr>g_WSClientSet := removeAll this (g_WSClientSet w)\<rparr>)" w']
    by (simp add: UC_OnClose_def UCClientWSclient_dtor_def CWinSDKBase_dtor_def)
  moreover obtain args w0 where "CB_dispatch R ev w' = Some (to_instance (emit R (ev_name ev) args) w0)"
    and "core w0 = core w'"
    using CB_dispatch_emits [OF assms(2), of R w'] by (auto simp: emits_def)
  ultimately show ?thesis by (simp add: to_instance_def core_def)
qed

text \<open>
  C34: the callback for a request to change the media of a call calls itself and never returns
  while \<open>g_Instance\<close> is set.
\<close>

theorem switch_request_never_returns:
  assumes "g_Instance w \<noteq> 0"
  shows "CB_dispatch R (SwitchCallMediaTypeRequest_ev callid video reason) w = None"
  using assms switch_request_spins [of callid video reason w]
  by (cases "sonSwitchCallMediaTypeRequest callid video reason w") auto

text \<open>
  Of raw audio and video data only what is in front of the first zero byte is reported: the
  data behind it makes no difference.
\<close>

theorem media_data_cut_at_zero:
  "CB_dispatch R (AudioData_ev callid data s) w = CB_dispatch R (AudioData_ev callid (c_str data) s) w
   \<and> CB_dispatch R (VideoData_ev callid data s) w = CB_dispatch R (VideoData_ev callid (c_str data) s) w"
  by (simp add: sonAudioData_def sonVideoData_def onAudioData_def [abs_def] onVideoData_def [abs_def] Value_string_def)

lemma fold_put_ok: "map_ok m \<Longrightarrow> map_ok (fold (\<lambda>e. map_put (c_str (fst e)) (snd e)) sets m)"
  by (induction sets arbitrary: m) simp_all

lemma fold_put_other:
  "map_ok m \<Longrightarrow> \<forall>e \<in> set sets. c_str (fst e) \<noteq> key \<Longrightarrow>
     map_of (fold (\<lambda>e. map_put (c_str (fst e)) (snd e)) sets m) key = map_of m key"
  by (induction sets arbitrary: m) auto

lemma map_of_canon: "map_of (map (\<lambda>e. (fst e, canon (snd e))) m) k = map_option canon (map_of m k)"
  by (induction m) auto


text \<open>
  A change of the Windows session is reported to every client that is open, whether or not
  the telephony library has an instance to report to.
\<close>

theorem session_change_reported:
  assumes "uc_inv w" and "(st, name) \<in> set session_states"
  shows "\<exists>w'. OnSessionChange R st w = Inr w'
    \<and> heap w' = (\<lambda>ob. map_option (enqueued (count_list (g_WSClientSet w) ob)
         (FastWriter_write R (event_object ''OnWTSSessionChange'' [(''sessionState'', stringValue name)]))) (heap w ob))"
proof -
  have "distinct (map fst session_states)" by (simp add: session_states_def)
  then have st: "map_of session_states st = Some name" using assms(2) by simp
  have "\<forall>e \<in> set session_states. c_str (snd e) = snd e" by (simp add: session_states_def)
  then have name: "c_str name = name" using assms(2) by fastforce
  have "\<forall>ob \<in> set (g_WSClientSet w). heap w ob \<noteq> None"
    using assms(1) by (auto simp: uc_inv_def uc_live_def)
  from broadcast_enqueues [OF this, of "FastWriter_write R
      (event_object ''OnWTSSessionChange'' [(''sessionState'', stringValue name)])"]
  show ?thesis by (auto simp: OnSessionChange_def emit_values st name Value_cstring_simps)
qed

section \<open>A run\<close>

text \<open>The program has started and a browser has connected.\<close>

definition uc_start :: "unit uc_world" where
  "uc_start =
     \<lparr>WSClientSet = [], heap = (\<lambda>_. None), next_obj = 5, lws_calls = [], g_Instance = 0,
      g_pjsipReferce = 0, version_result = [], sdk_calls = [], accounts = (\<lambda>_. None), g_WSClientSet = [],
      reg = ()\<rparr>"

definition uc_accepted :: "unit uc_world" where
  "uc_accepted =
     uc_start\<lparr>WSClientSet := [(7, 5)], heap := (\<lambda>_. None)(5 \<mapsto> new_client True 7 []), next_obj := 6, g_Instance := 5,
       version_result := ''5.4'', sdk_calls := [ccp_getVersion], accounts := (\<lambda>_. None)(5 \<mapsto> new_account)\<rparr>"

text \<open>Two browsers are connected.\<close>

definition uc_two :: "unit uc_world" where
  "uc_two =
     \<lparr>WSClientSet = [(7, 5), (9, 8)],
      heap = (\<lambda>_. None)(5 \<mapsto> (new_client True 7 [])\<lparr>m_state := OPEN\<rparr>, 8 \<mapsto> (new_client True 9 [])\<lparr>m_state := OPEN\<rparr>),
      next_obj = 10, lws_calls = [], g_Instance = 8, g_pjsipReferce = 1, version_result = ''5.4'', sdk_calls = [],
      accounts = (\<lambda>_. None)(5 \<mapsto> new_account, 8 \<mapsto> new_account), g_WSClientSet = [5, 8], reg = ()\<rparr>"

lemma uc_inv_two: "uc_inv uc_two"
proof -
  have "ws_inv uc_two"
    by (rule ws_invI) (auto simp: uc_two_def new_client_def client_ok_def split: if_splits)
  then show ?thesis by (auto simp: uc_inv_def uc_live_def uc_two_def new_client_def)
qed

lemma uc_accepts:
  "callback_lws L (uc_vtable whole_crt silent_ccp no_reg 0) 7 LWS_CALLBACK_WSI_CREATE False None uc_start
   = Inr (0, uc_accepted)"
  by (simp add: callback_lws_def on_wsi_create_def uc_vtable_def UCClientWSServer_OnAccept_def
      UCClientWSclient_ctor_def WebSocketClient_wsi_def register_def registered_def CWinSDKBase_ctor_def getVersion_def
      ask_text_def ask_def silent_ccp_def uc_accepted_def uc_start_def)

theorem no_use_after_free_witness:
  "reach uc_init (uc_step whole_crt silent_ccp no_reg) uc_accepted \<and> g_Instance uc_accepted = 5
   \<and> CB_dispatch whole_crt (CallAnswered_ev (Some ''17'')) uc_accepted \<noteq> Some (Inl Dangling_Pointer)"
proof -
  have "reach uc_init (uc_step whole_crt silent_ccp no_reg) uc_start"
    by (rule reach_init) (simp add: uc_init_def uc_start_def)
  then have "reach uc_init (uc_step whole_crt silent_ccp no_reg) uc_accepted"
    by (rule reach_step) (rule step_callback [OF _ uc_accepts], simp)
  moreover from no_use_after_free [OF this, of 7]
  have "CB_dispatch whole_crt (CallAnswered_ev (Some ''17'')) uc_accepted \<noteq> Some (Inl Dangling_Pointer)"
    by (simp del: CB_dispatch.simps)
  ultimately show ?thesis by (simp add: uc_accepted_def)
qed




theorem events_lost_after_close_witness:
  "\<exists>w' w''. UC_OnClose 8 [] uc_two = Inr w' \<and> g_WSClientSet w' = [5]
    \<and> CB_dispatch whole_crt (CallAnswered_ev (Some ''17'')) w' = Some (Inr w'') \<and> heap w'' = heap w'"
proof -
  obtain w' where close: "UC_OnClose 8 [] uc_two = Inr w'" and "g_WSClientSet w' = [5]"
    by (auto simp: UC_OnClose_def UCClientWSclient_dtor_def CWinSDKBase_dtor_def destroy_WebSocketClient_def
        Close_def registered_def unregister_def uc_two_def new_client_def lws_do_def put_client_def)
  with events_lost_after_close [OF close, of "CallAnswered_ev (Some ''17'')" whole_crt] show ?thesis
    by (auto simp: forwarded_def dest: core_heap)
qed

theorem switch_request_never_returns_witness:
  "CB_dispatch whole_crt (SwitchCallMediaTypeRequest_ev (Some ''17'') 1 0) uc_two = None"
  by (rule switch_request_never_returns) (simp add: uc_two_def)


theorem session_change_reported_witness:
  "\<exists>text w'. OnSessionChange whole_crt 7 uc_two = Inr w'
    \<and> map_option m_sendBuf (heap w' 5) = Some [replicate LWS_PRE NUL @ text]"
proof -
  obtain w' where "OnSessionChange whole_crt 7 uc_two = Inr w'"
    and "heap w' = (\<lambda>ob. map_option (enqueued (count_list (g_WSClientSet uc_two) ob)
      (FastWriter_write whole_crt (event_object ''OnWTSSessionChange'' [(''sessionState'', stringValue ''SESSION_LOCK'')])))
        (heap uc_two ob))"
    using session_change_reported [OF uc_inv_two, of 7 "''SESSION_LOCK''" whole_crt] by (auto simp: session_states_def)
  then show ?thesis by (auto simp: uc_two_def enqueued_def new_client_def)
qed

end
