(* ===== verification/Spec2Isabelle.thy ===== *)
theory Spec2Isabelle
  imports Json_Roundtrip Lws_Uri Lws_Utf8 Lws_Codec Lws_Sha1 Lws_Http Lws_Frames Dui_Containers Dui_String Registry UC_System
begin

text \<open>
  UCClient is a soft phone for Windows that web pages control. A browser opens a web socket to
  the program on the local machine and sends commands as JSON texts; the program passes them
  to a telephony library and answers; the events of that library (a call comes in, a call
  was answered, ...) go as JSON texts to every browser that is connected. The development
  models the program from the bytes of a message to the calls of the telephony library and
  back.

  \<^bold>\<open>The parts, and the theories that model them.\<close>

  \<^item> \<^bold>\<open>jsoncpp\<close> (\<open>src/jsoncpp-src-0.5.0\<close>). \<open>Json_Value\<close> has \<open>Json::Value\<close> as a datatype with the
    members of an object and the elements of an array in a sorted association list (the
    \<open>std::map\<close> of the source), and one function per method, failing assertions as errors.
    \<open>Json_Reader\<close> follows \<open>json_reader.cpp\<close> function by function; what is left to read is the
    list of the remaining characters. The recursive descent has fuel, twice the length of the
    document plus one, which \<open>parse_returns\<close> shows is never used up. \<open>Json_Writer\<close> is
    \<open>FastWriter\<close>. \<open>Json_Roundtrip\<close> proves that what is written parses back. The type \<open>'d\<close>
    stands for \<open>double\<close>: what \<open>sscanf\<close> and \<open>sprintf\<close> do with it is the parameter \<open>'d crt\<close>.

  \<^item> \<^bold>\<open>The web socket layer\<close> (\<open>src/dev/trunk/UCClient/websocket.cpp\<close>). \<open>Web_Socket\<close> has
    \<open>WebSocketClient\<close> as a record, the objects in a store from addresses to records, so that
    using a deleted object is the error \<open>Dangling_Pointer\<close>; the table \<open>WSClientSet\<close> from
    connections to objects; and \<open>callback_lws\<close>, one definition per branch. Virtual methods are
    a record of functions (\<open>vtable\<close>). libwebsockets is a parameter that answers as it likes,
    given all it was asked before. The locale \<open>ws_system\<close> is what a derived class has to
    guarantee, and proves that then no callback uses a deleted object. \<open>Send_Queue\<close> proves
    that the list of buffers with its partial writes is a byte stream.

  \<^item> \<^bold>\<open>libwebsockets\<close> (\<open>src/libwebsockets-2.2.1/lib\<close>), the parts between the socket and the callback.
    \<open>Lws_Rx\<close> is the receiving side: the state machine \<open>lws_rx_sm\<close> byte by byte, the bulk routine
    beside it and the loop over a packet; \<open>Lws_Tx\<close> the sending side: \<open>lws_write\<close>, \<open>lws_issue_raw\<close>
    with the part of a frame it keeps back, and \<open>lws_handle_POLLOUT_event\<close>. A connection is the
    record \<open>lws\<close>, the socket and the program above are parameters (\<open>lws_env\<close>). \<open>Lws_Frames\<close> joins
    the two ends. \<open>Lws_Uri\<close> is \<open>lws_parse_uri\<close>, with which a client takes its URL apart, \<open>Lws_Utf8\<close>
    the test for UTF-8, \<open>Lws_Codec\<close> base64 and the escaping for SQL, JSON and URLs, with the sizes
    of the output buffers. The handshake: \<open>Lws_Http\<close> is the parser of HTTP headers \<open>lws_parse\<close> with the
    table it fills, every access to its arrays checked; \<open>Lws_Lex\<close> the generated table of bytes by which
    it recognises the names of headers; \<open>Lws_Sha1\<close> the hash of \<open>sha-1.c\<close>.

  \<^item> \<^bold>\<open>The telephony wrapper\<close> (\<open>WinSDKBase.cpp\<close>). \<open>Win_SDK\<close> has one definition per method; the
    library, a binary, is a log of the calls made and a parameter with its answers. The
    counted start and stop of the library is an instance of the locale \<open>refcounted\<close>.

  \<^item> \<^bold>\<open>The commands\<close> (\<open>UCClientWebSocket.cpp\<close>). \<open>UC_Client\<close> has the life of a client object
    and \<open>OnMessage\<close> with a definition per command, \<open>UC_Messages\<close> what is proved of them.

  \<^item> \<^bold>\<open>The events\<close>. \<open>UC_Events\<close> has the static callbacks \<open>son...\<close> of \<open>WinSDKBase.cpp\<close> and the
    methods \<open>on...\<close> of \<open>UCClientWebSocket.cpp\<close> they call.

  \<^item> \<^bold>\<open>Settings and main window\<close>. \<open>Registry\<close> has the registry functions of \<open>stdafx.cpp\<close>,
    \<open>Main_Wnd\<close> what \<open>MainWnd.cpp\<close> does besides its user interface.

  \<^item> \<^bold>\<open>DuiLib\<close> (\<open>src/dev/trunk/DuiLib/Utils/Utils.cpp\<close>), the user interface library, its data
    structures. \<open>Dui_Containers\<close> has the array \<open>CDuiPtrArray\<close> with the memory it allocates, and the
    hash table \<open>CDuiStringPtrMap\<close>; \<open>Dui_String\<close> the string class \<open>CDuiString\<close>, cell by cell with
    uninitialised memory, so that a write behind a buffer is an error. The loop of \<open>Replace\<close> is a
    partial function, since it need not end.

  \<^item> \<^bold>\<open>The whole program\<close>. \<open>UC_System\<close> puts the parts together: the step relation \<open>uc_step\<close> has
    a step for every report of libwebsockets, every event of the telephony library and every
    change of the Windows session, in any order; the invariant \<open>uc_inv\<close> holds in every state
    reached.

  \<open>Prelude\<close> has the errors and their monad, C strings, sorted association lists, \<open>safe\<close> results,
  reachability, and the locales the parts share.

  \<^bold>\<open>What is shown.\<close> Safety: no use of a deleted object in any reachable state, and through a whole
  run of the web socket thread. Round trips: JSON values, replies and events through writer and
  reader, URIs, base64, URL escapes. Web socket frames: what one end writes the other end's
  program is given, however the sockets cut the bytes; the sending side refines the same byte
  stream (locale \<open>fifo_stream\<close>) as the program's own queue; the bulk routine does what the state
  machine does; no buffer is overrun. The parser of HTTP headers stays in its tables whatever comes in,
  the table of names recognises exactly its names, the hash is the one of the standard. DuiLib: the array is a list, the hash table a map (it is an instance of the
  locale \<open>std_map\<close>, as jsoncpp's maps are), the operations on strings stay in their memory and
  \<open>Replace\<close> is the replacement of all occurrences. Termination of the JSON reader on every text and well-formedness of what it
  reads. The send queue refines a byte stream and drains. A command is answered once, to its
  sender; an event reaches every client once. Several theorems state what the code does where
  it does not do what it means to: events lost after a client closes, a callback that never
  returns, a trace flag that cannot be turned off, parameters that fail an assertion, binary
  data cut at a zero byte, an empty frame that swallows the next ones, a decoder that writes
  behind its buffer, a replacement that never ends, an append that loses the string.

  \<^bold>\<open>Not modelled.\<close> Log output. Threads: each callback is one step, so the mutex around
  \<open>g_WSClientSet\<close>, and the missing one around \<open>WSClientSet\<close>, have no counterpart. The user
  interface (the controls and windows of DuiLib, the dialogs, the tray icon), the start of the process and its crash
  dumps, the browser plugin, log4cplus, OpenSSL. Of libwebsockets the HTTP handshake, the event
  loop, extensions, HTTP/2 and TLS. Of jsoncpp comments, iterators, paths and the styled
  writers.
\<close>

end
